(* ===== verification/Prelude.thy ===== *)
theory Prelude
  imports Main "HOL-Library.Word" "HOL-Library.Monad_Syntax"
begin

unbundle bit_operations_syntax

text \<open>
  Shared vocabulary of the development: the fixed-width types of
  \<open>include/types.h\<close>, C string literals as byte lists, byte-addressed memory with
  little-endian 32-bit accesses, and the closed forms of the counting loops that the
  components use to fill, copy and clear arrays.

  Collections: \<open>loop_simps\<close> holds the closed forms of loops, \<open>frame_simps\<close> the facts
  that an operation leaves some part of the state alone, \<open>inv_intros\<close> the preservation
  facts of the component invariants, \<open>bit_fields\<close> the masks and casts that cut a word into
  fields.
\<close>

named_theorems loop_simps
named_theorems frame_simps
named_theorems inv_intros
named_theorems bit_fields

section \<open>Fixed-width types\<close>

type_synonym byte = "8 word"
type_synonym u16 = "16 word"
type_synonym u32 = "32 word"
type_synonym size_t = u32
type_synonym uintptr_t = u32
type_synonym memory = "u32 \<Rightarrow> byte"

text \<open>A C string literal (without its terminating NUL) as bytes.\<close>

definition str_bytes :: "string \<Rightarrow> byte list" where
  "str_bytes s = map of_char s"

lemma length_str_bytes [simp]: "length (str_bytes s) = length s"
  by (simp add: str_bytes_def)

lemma str_bytes_append [simp]: "str_bytes (s @ t) = str_bytes s @ str_bytes t"
  by (simp add: str_bytes_def)

section \<open>Words as numbers\<close>

lemma unat_lt_2p32 [simp]: "unat (x :: u32) < 4294967296"
  using unsigned_less [of x] by simp

lemma unat_add_u32: "unat (x :: u32) + unat y < 4294967296 \<Longrightarrow> unat (x + y) = unat x + unat y"
  using unat_add_lem [of x y] by simp

lemma unat_mult_u32: "unat (x :: u32) * unat y < 4294967296 \<Longrightarrow> unat (x * y) = unat x * unat y"
  using unat_mult_lem [of x y] by simp

lemma unat_of_nat_u32: "n < 4294967296 \<Longrightarrow> unat (word_of_nat n :: u32) = n"
  by (simp add: unat_of_nat take_bit_nat_eq_self)

lemma of_nat_u32_inject:
  "m < 4294967296 \<Longrightarrow> n < 4294967296 \<Longrightarrow> (word_of_nat m :: u32) = word_of_nat n \<longleftrightarrow> m = n"
  using unat_of_nat_u32 by metis

lemma of_nat_eq_u32_iff: "n < 4294967296 \<Longrightarrow> (word_of_nat n :: u32) = w \<longleftrightarrow> n = unat w"
  by (auto simp: unat_of_nat_u32)

lemma le_u32_nat: "(x :: u32) \<le> y \<longleftrightarrow> unat x \<le> unat y"
  by (rule word_le_nat_alt)

lemma less_u32_nat: "(x :: u32) < y \<longleftrightarrow> unat x < unat y"
  by (rule word_less_nat_alt)

lemma eq_u32_nat: "(x :: u32) = y \<longleftrightarrow> unat x = unat y"
  by (rule word_unat_eq_iff)

lemmas u32_nat = le_u32_nat less_u32_nat eq_u32_nat

section \<open>Single bits of a byte\<close>

lemma bit_or_single:
  fixes b :: byte
  assumes "i < 8" and "j < 8"
  shows "bit (b OR 2 ^ i) j \<longleftrightarrow> bit b j \<or> i = j"
  using assms by (auto simp: bit_simps)

lemma bit_and_not_single:
  fixes b :: byte
  assumes "i < 8" and "j < 8"
  shows "bit (b AND NOT (2 ^ i)) j \<longleftrightarrow> bit b j \<and> i \<noteq> j"
  using assms by (auto simp: bit_simps)

lemma and_single_neq_0:
  fixes b :: byte
  assumes "i < 8"
  shows "b AND 2 ^ i \<noteq> 0 \<longleftrightarrow> bit b i"
  using assms by (simp add: and_exp_eq_0_iff_not_bit)

section \<open>Byte-addressed memory\<close>

text \<open>
  An object of \<open>n\<close> bytes at address \<open>a\<close> is the circular interval of the addresses
  \<open>a, a + 1, \<dots>\<close>; pointer arithmetic wraps at \<open>2 ^ 32\<close> as \<open>uintptr_t\<close> does.
\<close>

definition in_obj :: "u32 \<Rightarrow> nat \<Rightarrow> u32 \<Rightarrow> bool" where
  "in_obj a n x \<longleftrightarrow> unat (x - a) < n"

definition read_bytes :: "memory \<Rightarrow> u32 \<Rightarrow> nat \<Rightarrow> byte list" where
  "read_bytes m a n = map (\<lambda>i. m (a + word_of_nat i)) [0..<n]"

definition load32 :: "memory \<Rightarrow> u32 \<Rightarrow> u32" where
  "load32 m a = ucast (m a) OR push_bit 8 (ucast (m (a + 1)))
     OR push_bit 16 (ucast (m (a + 2))) OR push_bit 24 (ucast (m (a + 3)))"

definition store32 :: "u32 \<Rightarrow> u32 \<Rightarrow> memory \<Rightarrow> memory" where
  "store32 a v m = m(a := ucast v, a + 1 := ucast (drop_bit 8 v),
     a + 2 := ucast (drop_bit 16 v), a + 3 := ucast (drop_bit 24 v))"

lemma length_read_bytes [simp]: "length (read_bytes m a n) = n"
  by (simp add: read_bytes_def)

lemma nth_read_bytes [simp]: "i < n \<Longrightarrow> read_bytes m a n ! i = m (a + word_of_nat i)"
  by (simp add: read_bytes_def)

lemma read_bytes_cong:
  "(\<And>i. i < n \<Longrightarrow> m (a + word_of_nat i) = m' (a + word_of_nat i)) \<Longrightarrow>
    read_bytes m a n = read_bytes m' a n"
  by (simp add: read_bytes_def)

lemma bytes_of_u32:
  fixes v :: u32
  shows "ucast (ucast v :: byte) OR push_bit 8 (ucast (ucast (drop_bit 8 v) :: byte))
     OR push_bit 16 (ucast (ucast (drop_bit 16 v) :: byte))
     OR push_bit 24 (ucast (ucast (drop_bit 24 v) :: byte)) = v"
proof (rule bit_word_eqI)
  fix n assume "n < LENGTH(32)"
  then consider "n < 8" | "8 \<le> n" "n < 16" | "16 \<le> n" "n < 24" | "24 \<le> n" "n < 32"
    by fastforce
  then show "bit (ucast (ucast v :: byte) OR push_bit 8 (ucast (ucast (drop_bit 8 v) :: byte))
     OR push_bit 16 (ucast (ucast (drop_bit 16 v) :: byte))
     OR push_bit 24 (ucast (ucast (drop_bit 24 v) :: byte)) :: u32) n = bit v n"
    by cases (auto simp: bit_simps)
qed

lemma load32_store32_same [simp]: "load32 (store32 a v m) a = v"
  by (simp add: load32_def store32_def bytes_of_u32)

lemma store32_other: "\<not> in_obj a 4 x \<Longrightarrow> store32 a v m x = m x"
  by (auto simp: store32_def in_obj_def)

lemma load32_cong:
  "m a = m' a \<Longrightarrow> m (a + 1) = m' (a + 1) \<Longrightarrow> m (a + 2) = m' (a + 2) \<Longrightarrow> m (a + 3) = m' (a + 3) \<Longrightarrow>
    load32 m a = load32 m' a"
  by (simp add: load32_def)

lemma load32_store32_other:
  assumes "\<not> in_obj a 4 b" "\<not> in_obj a 4 (b + 1)" "\<not> in_obj a 4 (b + 2)" "\<not> in_obj a 4 (b + 3)"
  shows "load32 (store32 a v m) b = load32 m b"
  using assms by (intro load32_cong) (simp_all add: store32_other)

section \<open>Counting loops\<close>

text \<open>
  \<open>for (i = 0; i < n; i++) p[i] = g(i);\<close> is a fold over \<open>[0..<n]\<close>. Its closed form
  holds as long as the index does not wrap.
\<close>

lemma offset_eq_iff: "n < 4294967296 \<Longrightarrow> x = a + word_of_nat n \<longleftrightarrow> unat (x - a) = n" for x a :: u32
  using of_nat_eq_u32_iff [of n "x - a"] by (auto simp: algebra_simps)

lemma fill_loop:
  fixes a :: u32
  assumes "n \<le> 4294967296"
  shows "fold (\<lambda>i m. m(a + word_of_nat i := g i)) [0..<n] m =
    (\<lambda>x. if in_obj a n x then g (unat (x - a)) else m x)"
  using assms
proof (induction n)
  case 0
  then show ?case by (simp add: in_obj_def)
next
  case (Suc n)
  then have n: "n < 4294967296" by simp
  have "fold (\<lambda>i m. m(a + word_of_nat i := g i)) [0..<Suc n] m =
      (fold (\<lambda>i m. m(a + word_of_nat i := g i)) [0..<n] m)(a + word_of_nat n := g n)"
    by simp
  also have "\<dots> = (\<lambda>x. if in_obj a n x then g (unat (x - a)) else m x)(a + word_of_nat n := g n)"
    using Suc by (simp only: Suc_leD)
  also have "\<dots> = (\<lambda>x. if in_obj a (Suc n) x then g (unat (x - a)) else m x)"
    using offset_eq_iff [OF n, of _ a] by (fastforce simp: in_obj_def less_Suc_eq unat_of_nat_u32 n)
  finally show ?case .
qed

lemma fill_loop_u32 [loop_simps]:
  "n \<le> 4294967296 \<Longrightarrow> fold (\<lambda>i m. m(word_of_nat i := g i)) [0..<n] m =
    (\<lambda>x :: u32. if unat x < n then g (unat x) else m x)"
  using fill_loop [of n 0 g m] by (simp add: in_obj_def cong: if_cong)

lemma fill_loop_nat [loop_simps]:
  "fold (\<lambda>i m. m(i := g i)) [a..<b] m = (\<lambda>x :: nat. if a \<le> x \<and> x < b then g x else m x)"
proof (induction b)
  case 0
  then show ?case by simp
next
  case (Suc b)
  then show ?case by (auto simp: fun_eq_iff)
qed

lemma in_obj_offset: "i < n \<Longrightarrow> n \<le> 4294967296 \<Longrightarrow> in_obj a n (a + word_of_nat i)"
  by (simp add: in_obj_def unat_of_nat_u32)

lemma in_obj_mono: "in_obj a m x \<Longrightarrow> m \<le> n \<Longrightarrow> in_obj a n x"
  by (simp add: in_obj_def)

lemma in_obj_nowrap:
  assumes "unat a + n \<le> 4294967296"
  shows "in_obj a n x \<longleftrightarrow> unat a \<le> unat x \<and> unat x < unat a + n"
proof (cases "a \<le> x")
  case True
  then have "unat (x - a) = unat x - unat a" by (rule unat_sub)
  with True show ?thesis by (auto simp: in_obj_def u32_nat)
next
  case False
  then have lt: "unat x < unat a" by (simp add: u32_nat)
  have "unat (x - a) = 4294967296 + unat x - unat a"
    using lt by (simp add: unat_sub_if' not_le)
  with lt assms show ?thesis by (auto simp: in_obj_def)
qed

text \<open>Invariants survive a loop whose body keeps them.\<close>

lemma fold_invariant:
  "P s \<Longrightarrow> (\<And>x s. x \<in> set xs \<Longrightarrow> P s \<Longrightarrow> P (f x s)) \<Longrightarrow> P (fold f xs s)"
  by (induction xs arbitrary: s) auto

text \<open>\<open>for (i = a; i < b; i += 2) body(i);\<close>\<close>

function for_by2 :: "nat \<Rightarrow> nat \<Rightarrow> (nat \<Rightarrow> 's \<Rightarrow> 's) \<Rightarrow> 's \<Rightarrow> 's" where
  "for_by2 i b body s = (if i < b then for_by2 (i + 2) b body (body i s) else s)"
  by pat_completeness auto
termination
  by (relation "measure (\<lambda>(i, b, body, s). b - i)") auto

declare for_by2.simps [simp del]

lemma pair_loop [loop_simps]:
  fixes f :: "u32 \<Rightarrow> 'a"
  assumes "even i" "even b" "i \<le> b" "b \<le> 4294967296"
  shows "for_by2 i b (\<lambda>i f. f(word_of_nat i := x, word_of_nat i + 1 := y)) f =
    (\<lambda>w. if i \<le> unat w \<and> unat w < b then if even (unat w) then x else y else f w)"
  using assms
proof (induction i b "\<lambda>i f. f(word_of_nat i := x, (word_of_nat i + 1 :: u32) := y)" f
    rule: for_by2.induct)
  case (1 i b f)
  show ?case
  proof (cases "i < b")
    case False
    with 1(4) show ?thesis by (subst for_by2.simps) (auto simp: fun_eq_iff)
  next
    case True
    then have ib: "i + 2 \<le> b" using 1(2,3) by presburger
    let ?f = "f(word_of_nat i := x, (word_of_nat i + 1 :: u32) := y)"
    have "for_by2 i b (\<lambda>i f. f(word_of_nat i := x, word_of_nat i + 1 := y)) f =
        (\<lambda>w. if i + 2 \<le> unat w \<and> unat w < b then if even (unat w) then x else y else ?f w)"
      using True 1(1) [OF True _ _ ib] 1 by (subst for_by2.simps) simp
    also have "\<dots> = (\<lambda>w. if i \<le> unat w \<and> unat w < b then if even (unat w) then x else y else f w)"
    proof
      fix w :: u32
      have "i < 4294967296" "Suc i < 4294967296" using ib 1(5) by simp_all
      then have eq: "w = word_of_nat i \<longleftrightarrow> unat w = i" "w = word_of_nat (Suc i) \<longleftrightarrow> unat w = Suc i"
        by (metis of_nat_eq_u32_iff)+
      have suc: "(word_of_nat i + 1 :: u32) = word_of_nat (Suc i)" by simp
      consider "unat w < i" | "unat w = i" | "unat w = Suc i" | "i + 2 \<le> unat w" by linarith
      then show "(if i + 2 \<le> unat w \<and> unat w < b then if even (unat w) then x else y else ?f w) =
          (if i \<le> unat w \<and> unat w < b then if even (unat w) then x else y else f w)"
        unfolding suc by cases (use eq ib 1(2) in auto)
    qed
    finally show ?thesis .
  qed
qed

text \<open>A forward copy \<open>p[i] = p[i + d]\<close> reads every cell before it is overwritten.\<close>

lemma shift_loop [loop_simps]:
  fixes f :: "u32 \<Rightarrow> 'a"
  assumes "n + unat d \<le> 4294967296" and "d \<noteq> 0"
  shows "fold (\<lambda>i f. f(word_of_nat i := f (word_of_nat i + d))) [0..<n] f =
    (\<lambda>w. if unat w < n then f (w + d) else f w)"
  using assms(1)
proof (induction n)
  case 0
  then show ?case by simp
next
  case (Suc n)
  let ?step = "\<lambda>i f. f(word_of_nat i := f (word_of_nat i + d))"
  let ?g = "\<lambda>w. if unat w < n then f (w + d) else f w"
  have n: "n < 4294967296" using Suc.prems by simp
  have far: "unat (word_of_nat n + d) = n + unat d"
    using Suc.prems n by (simp add: unat_add_u32 unat_of_nat_u32)
  have "0 < unat d" using assms(2) by (simp add: unat_gt_0)
  have "fold ?step [0..<Suc n] f = ?step n (fold ?step [0..<n] f)" by simp
  also have "\<dots> = ?step n ?g" using Suc by (simp only: add_Suc Suc_leD)
  also have "\<dots> = (\<lambda>w. if unat w < Suc n then f (w + d) else f w)"
    using far \<open>0 < unat d\<close> of_nat_eq_u32_iff [OF n]
    by (fastforce simp: less_Suc_eq unat_of_nat_u32 n)
  finally show ?case .
qed

text \<open>A copy between objects that do not overlap.\<close>

lemma copy_loop:
  fixes d s :: u32
  assumes "n \<le> 4294967296" and "\<And>i. i < n \<Longrightarrow> \<not> in_obj d n (s + word_of_nat i)"
  shows "fold (\<lambda>i m. m(d + word_of_nat i := m (s + word_of_nat i))) [0..<n] m =
    (\<lambda>x. if in_obj d n x then m (s + (x - d)) else m x)"
  using assms
proof (induction n)
  case 0
  then show ?case by (simp add: in_obj_def)
next
  case (Suc n)
  let ?step = "\<lambda>i m. m(d + word_of_nat i := m (s + word_of_nat i))"
  let ?g = "\<lambda>x. if in_obj d n x then m (s + (x - d)) else m x"
  have n: "n < 4294967296" using Suc.prems(1) by simp
  have src: "\<not> in_obj d n (s + word_of_nat i)" if "i < Suc n" for i
    using Suc.prems(2) [OF that] in_obj_mono [of d n _ "Suc n"] by auto
  then have IH: "fold ?step [0..<n] m = ?g" by (intro Suc.IH) (use n in auto)
  have "fold ?step [0..<Suc n] m = ?step n (fold ?step [0..<n] m)" by simp
  also have "\<dots> = ?g(d + word_of_nat n := m (s + word_of_nat n))"
    unfolding IH using src [of n] by simp
  also have "\<dots> = (\<lambda>x. if in_obj d (Suc n) x then m (s + (x - d)) else m x)"
    using offset_eq_iff [OF n, of _ d] by (fastforce simp: in_obj_def less_Suc_eq unat_of_nat_u32 n)
  finally show ?case .
qed

section \<open>Bit fields\<close>

lemma nat_div_eq_iff: "0 < k \<Longrightarrow> (x :: nat) div k = c \<longleftrightarrow> k * c \<le> x \<and> x < k * c + k"
  using div_nat_eqI [of k c x] times_div_less_eq_dividend [of k x] dividend_less_times_div [of k x]
  by (auto simp: mult.commute add.commute)

lemma and_ones [bit_fields]:
  "(x :: 'a::len word) AND 0x0F = take_bit 4 x" "x AND 0xFF = take_bit 8 x"
  "x AND 0xFFF = take_bit 12 x" "x AND 0xFFFF = take_bit 16 x"
  by (simp_all add: take_bit_eq_mask mask_eq_exp_minus_1)

lemma byte_fields [bit_fields]:
  "ucast (take_bit 16 b) = (ucast b :: u16)" "ucast (take_bit 8 b) = (ucast b :: byte)" for b :: u32
  by (rule bit_word_eqI, auto simp: bit_simps)+

lemma half_words:
  "ucast (ucast b :: u16) OR push_bit 16 (ucast (ucast (drop_bit 16 b) :: u16)) = (b :: u32)"
proof (rule bit_word_eqI)
  fix n assume "n < LENGTH(32)"
  then consider "n < 16" | "16 \<le> n" "n < 32" by fastforce
  then show "bit (ucast (ucast b :: u16) OR push_bit 16 (ucast (ucast (drop_bit 16 b) :: u16)) :: u32) n = bit b n"
    by cases (auto simp: bit_simps)
qed

lemma half_and_bytes:
  "ucast (ucast b :: u16) OR push_bit 16 (ucast (ucast (drop_bit 16 b) :: byte)) OR
     push_bit 24 (ucast (ucast (drop_bit 24 b) :: byte)) = (b :: u32)"
proof (rule bit_word_eqI)
  fix n assume "n < LENGTH(32)"
  then consider "n < 16" | "16 \<le> n" "n < 24" | "24 \<le> n" "n < 32" by fastforce
  then show "bit (ucast (ucast b :: u16) OR push_bit 16 (ucast (ucast (drop_bit 16 b) :: byte)) OR
     push_bit 24 (ucast (ucast (drop_bit 24 b) :: byte)) :: u32) n = bit b n"
    by cases (auto simp: bit_simps)
qed

section \<open>Numerals in a base\<close>

definition digit :: "nat \<Rightarrow> byte" where
  "digit d = (if d < 10 then 48 + word_of_nat d else 97 + word_of_nat d - 10)"

text \<open>The digits of a number in base \<open>b\<close>, most significant first, lower-case letters above 9.\<close>

function numeral_in :: "nat \<Rightarrow> nat \<Rightarrow> byte list" where
  "numeral_in b n = (if n < b \<or> b < 2 then [digit n] else numeral_in b (n div b) @ [digit (n mod b)])"
  by pat_completeness auto
termination
  by (relation "measure snd") (auto intro: div_less_dividend)

declare numeral_in.simps [simp del]

end
