(* ===== verification/Kheap.thy ===== *)
theory Kheap
  imports Prelude
begin

text \<open>
  \<open>kernel/kheap.c\<close>: the bitmap heap. The state holds the tracking bitmap (1024 bytes), the
  initialisation flag and the memory that pointers address; the pool \<open>kheap_memory\<close> is
  the 256 KB of that memory at the address \<open>base\<close> the linker chose, a parameter. A NULL
  pointer is address 0. Sizes, block numbers and addresses are 32-bit words, so the
  wrap-around of \<open>size_t\<close> arithmetic is the code's.
\<close>

section \<open>The allocator\<close>

abbreviation (input) KHEAP_BLOCK_SIZE :: "'a::numeral" where "KHEAP_BLOCK_SIZE \<equiv> 32"
abbreviation (input) KHEAP_SIZE :: "'a::numeral" where "KHEAP_SIZE \<equiv> 262144"
abbreviation (input) KHEAP_TOTAL_BLOCKS :: "'a::numeral" where "KHEAP_TOTAL_BLOCKS \<equiv> 8192"
abbreviation (input) KHEAP_BITMAP_SIZE :: "'a::numeral" where "KHEAP_BITMAP_SIZE \<equiv> 1024"
abbreviation (input) KHEAP_HEADER_SIZE :: "'a::numeral" where "KHEAP_HEADER_SIZE \<equiv> 16"
definition KHEAP_MAGIC :: u32 where "KHEAP_MAGIC = 0x1EA9BEEF"

record kheap_state =
  kheap_bitmap :: "byte list"
  kheap_initialized :: bool
  heap_mem :: memory

text \<open>The fields of \<open>kheap_header_t\<close>, a packed struct of four 32-bit words.\<close>

record kheap_header =
  h_magic :: u32
  h_start_block :: u32
  h_num_blocks :: u32
  h_size :: size_t

definition read_header :: "memory \<Rightarrow> u32 \<Rightarrow> kheap_header" where
  "read_header m a = \<lparr>h_magic = load32 m a, h_start_block = load32 m (a + 4),
     h_num_blocks = load32 m (a + 8), h_size = load32 m (a + 12)\<rparr>"

definition kheap_memset :: "u32 \<Rightarrow> byte \<Rightarrow> size_t \<Rightarrow> memory \<Rightarrow> memory" where
  "kheap_memset dest val count m =
     fold (\<lambda>i m. m(dest + word_of_nat i := val)) [0..<unat count] m"

definition kheap_memcpy :: "u32 \<Rightarrow> u32 \<Rightarrow> size_t \<Rightarrow> memory \<Rightarrow> memory" where
  "kheap_memcpy dest src count m =
     fold (\<lambda>i m. m(dest + word_of_nat i := m (src + word_of_nat i))) [0..<unat count] m"

definition bitmap_set :: "u32 \<Rightarrow> byte list \<Rightarrow> byte list" where
  "bitmap_set n bm = bm[unat (n div 8) := bm ! unat (n div 8) OR push_bit (unat (n mod 8)) 1]"

definition bitmap_clear :: "u32 \<Rightarrow> byte list \<Rightarrow> byte list" where
  "bitmap_clear n bm = bm[unat (n div 8) := bm ! unat (n div 8) AND NOT (push_bit (unat (n mod 8)) 1)]"

definition bitmap_test :: "u32 \<Rightarrow> byte list \<Rightarrow> bool" where
  "bitmap_test n bm \<longleftrightarrow> bm ! unat (n div 8) AND push_bit (unat (n mod 8)) 1 \<noteq> 0"

definition kheap_init :: "uintptr_t \<Rightarrow> kheap_state \<Rightarrow> kheap_state" where
  "kheap_init base h =
     h\<lparr>kheap_bitmap := fold (\<lambda>i bm. bm[i := 0]) [0..<KHEAP_BITMAP_SIZE] (kheap_bitmap h),
       heap_mem := kheap_memset base 0 KHEAP_SIZE (heap_mem h),
       kheap_initialized := True\<rparr>"

text \<open>
  The scan of \<open>kmalloc\<close>: the loop over the bitmap with its local variables, up to the
  point where the loop body finds enough consecutive free blocks or the loop ends.
\<close>

function kmalloc_scan :: "byte list \<Rightarrow> u32 \<Rightarrow> nat \<Rightarrow> u32 \<Rightarrow> u32 \<Rightarrow> u32 option" where
  "kmalloc_scan bm blocks_needed i consecutive_free start_block =
     (if i < KHEAP_TOTAL_BLOCKS then
        (if \<not> bitmap_test (word_of_nat i) bm then
           (let start_block = (if consecutive_free = 0 then word_of_nat i else start_block);
                consecutive_free = consecutive_free + 1
            in if consecutive_free = blocks_needed then Some start_block
               else kmalloc_scan bm blocks_needed (i + 1) consecutive_free start_block)
         else kmalloc_scan bm blocks_needed (i + 1) 0 start_block)
      else None)"
  by pat_completeness auto
termination
  by (relation "measure (\<lambda>(bm, n, i, c, s). 8192 - i)") auto

declare kmalloc_scan.simps [simp del]

definition kmalloc :: "uintptr_t \<Rightarrow> size_t \<Rightarrow> kheap_state \<Rightarrow> u32 \<times> kheap_state" where
  "kmalloc base sz h =
     (if \<not> kheap_initialized h \<or> sz = 0 then (0, h)
      else
        let total_needed = KHEAP_HEADER_SIZE + sz;
            blocks_needed = (total_needed + KHEAP_BLOCK_SIZE - 1) div KHEAP_BLOCK_SIZE
        in if blocks_needed > KHEAP_TOTAL_BLOCKS then (0, h)
           else case kmalloc_scan (kheap_bitmap h) blocks_needed 0 0 0 of
             None \<Rightarrow> (0, h)
           | Some start_block \<Rightarrow>
               (let bm = fold (\<lambda>b. bitmap_set (word_of_nat b))
                           [unat start_block..<unat (start_block + blocks_needed)] (kheap_bitmap h);
                    header = base + start_block * KHEAP_BLOCK_SIZE;
                    m = store32 (header + 12) sz
                         (store32 (header + 8) blocks_needed
                          (store32 (header + 4) start_block
                           (store32 header KHEAP_MAGIC (heap_mem h))))
                in (header + KHEAP_HEADER_SIZE, h\<lparr>kheap_bitmap := bm, heap_mem := m\<rparr>)))"

definition kcalloc :: "uintptr_t \<Rightarrow> size_t \<Rightarrow> size_t \<Rightarrow> kheap_state \<Rightarrow> u32 \<times> kheap_state" where
  "kcalloc base num sz h =
     (let total_size = num * sz;
          (ptr, h) = kmalloc base total_size h
      in if ptr \<noteq> 0 then (ptr, h\<lparr>heap_mem := kheap_memset ptr 0 total_size (heap_mem h)\<rparr>)
         else (ptr, h))"

definition kfree :: "uintptr_t \<Rightarrow> uintptr_t \<Rightarrow> kheap_state \<Rightarrow> kheap_state" where
  "kfree base ptr h =
     (if ptr = 0 \<or> \<not> kheap_initialized h then h
      else
        let heap_start = base;
            heap_end = heap_start + KHEAP_SIZE
        in if ptr < heap_start + KHEAP_HEADER_SIZE \<or> ptr \<ge> heap_end then h
           else
             let header = ptr - KHEAP_HEADER_SIZE
             in if h_magic (read_header (heap_mem h) header) \<noteq> KHEAP_MAGIC then h
                else
                  let start_block = h_start_block (read_header (heap_mem h) header);
                      num_blocks = h_num_blocks (read_header (heap_mem h) header);
                      bm = fold (\<lambda>b bm. if b < KHEAP_TOTAL_BLOCKS then bitmap_clear (word_of_nat b) bm else bm)
                             [unat start_block..<unat (start_block + num_blocks)] (kheap_bitmap h)
                  in h\<lparr>kheap_bitmap := bm, heap_mem := store32 header 0 (heap_mem h)\<rparr>)"

definition krealloc :: "uintptr_t \<Rightarrow> u32 \<Rightarrow> size_t \<Rightarrow> kheap_state \<Rightarrow> u32 \<times> kheap_state" where
  "krealloc base ptr new_size h =
     (if ptr = 0 then kmalloc base new_size h
      else if new_size = 0 then (0, kfree base ptr h)
      else
        let header = ptr - KHEAP_HEADER_SIZE
        in if h_magic (read_header (heap_mem h) header) \<noteq> KHEAP_MAGIC then (0, h)
           else
             let current_capacity =
                   h_num_blocks (read_header (heap_mem h) header) * KHEAP_BLOCK_SIZE - KHEAP_HEADER_SIZE
             in if new_size \<le> current_capacity
                then (ptr, h\<lparr>heap_mem := store32 (header + 12) new_size (heap_mem h)\<rparr>)
                else
                  let (new_ptr, h1) = kmalloc base new_size h
                  in if new_ptr = 0 then (0, h1)
                     else
                       let old_size = h_size (read_header (heap_mem h1) header);
                           copy_bytes = (if old_size < new_size then old_size else new_size);
                           h2 = h1\<lparr>heap_mem := kheap_memcpy new_ptr ptr copy_bytes (heap_mem h1)\<rparr>
                       in (new_ptr, kfree base ptr h2))"

definition kheap_get_total_memory :: size_t where
  "kheap_get_total_memory = KHEAP_SIZE"

definition kheap_get_used_memory :: "kheap_state \<Rightarrow> size_t" where
  "kheap_get_used_memory h =
     fold (\<lambda>i used_blocks. if bitmap_test (word_of_nat i) (kheap_bitmap h) then used_blocks + 1 else used_blocks)
       [0..<KHEAP_TOTAL_BLOCKS] 0 * KHEAP_BLOCK_SIZE"

definition kheap_get_free_memory :: "kheap_state \<Rightarrow> size_t" where
  "kheap_get_free_memory h = kheap_get_total_memory - kheap_get_used_memory h"

section \<open>The bitmap as a set of blocks\<close>

definition used :: "byte list \<Rightarrow> nat \<Rightarrow> bool" where
  "used bm b \<longleftrightarrow> bitmap_test (word_of_nat b) bm"

lemma block_unat:
  "b < 8192 \<Longrightarrow> unat (word_of_nat b div 8 :: u32) = b div 8"
  "b < 8192 \<Longrightarrow> unat (word_of_nat b mod 8 :: u32) = b mod 8"
  by (simp_all add: unat_div unat_mod unat_of_nat_u32)

lemma used_iff: "b < 8192 \<Longrightarrow> used bm b \<longleftrightarrow> bit (bm ! (b div 8)) (b mod 8)"
  by (simp add: used_def bitmap_test_def block_unat and_single_neq_0)

lemma length_bitmap_set [simp]: "length (bitmap_set b bm) = length bm"
  by (simp add: bitmap_set_def)

lemma length_bitmap_clear [simp]: "length (bitmap_clear b bm) = length bm"
  by (simp add: bitmap_clear_def)

lemma used_bitmap_set:
  assumes "length bm = 1024" "b < 8192" "k < 8192"
  shows "used (bitmap_set (word_of_nat b) bm) k \<longleftrightarrow> used bm k \<or> k = b"
proof -
  have "b div 8 < 1024" "k div 8 < 1024" using assms by simp_all
  moreover have "k = b \<longleftrightarrow> b div 8 = k div 8 \<and> b mod 8 = k mod 8" by (metis div_mult_mod_eq)
  ultimately show ?thesis
    using assms by (auto simp: used_iff bitmap_set_def block_unat nth_list_update bit_or_single)
qed

lemma used_bitmap_clear:
  assumes "length bm = 1024" "b < 8192" "k < 8192"
  shows "used (bitmap_clear (word_of_nat b) bm) k \<longleftrightarrow> used bm k \<and> k \<noteq> b"
proof -
  have "b div 8 < 1024" "k div 8 < 1024" using assms by simp_all
  moreover have "k = b \<longleftrightarrow> b div 8 = k div 8 \<and> b mod 8 = k mod 8" by (metis div_mult_mod_eq)
  ultimately show ?thesis
    using assms by (auto simp: used_iff bitmap_clear_def block_unat nth_list_update bit_and_not_single)
qed

text \<open>
  What the allocator needs of the bitmap: a set of block numbers below a capacity, with
  insertion and removal. Marking and clearing a whole range is derived once.
\<close>

locale block_set =
  fixes wf :: "'s \<Rightarrow> bool"
    and has :: "'s \<Rightarrow> nat \<Rightarrow> bool"
    and add :: "nat \<Rightarrow> 's \<Rightarrow> 's"
    and del :: "nat \<Rightarrow> 's \<Rightarrow> 's"
    and cap :: nat
  assumes wf_add: "wf s \<Longrightarrow> wf (add b s)"
    and wf_del: "wf s \<Longrightarrow> wf (del b s)"
    and has_add: "wf s \<Longrightarrow> b < cap \<Longrightarrow> k < cap \<Longrightarrow> has (add b s) k \<longleftrightarrow> has s k \<or> k = b"
    and has_del: "wf s \<Longrightarrow> b < cap \<Longrightarrow> k < cap \<Longrightarrow> has (del b s) k \<longleftrightarrow> has s k \<and> k \<noteq> b"
begin

lemma wf_add_range: "wf s \<Longrightarrow> wf (fold add bs s)"
  by (induction bs arbitrary: s) (auto simp: wf_add)

lemma has_add_range:
  "wf s \<Longrightarrow> j \<le> cap \<Longrightarrow> k < cap \<Longrightarrow> has (fold add [i..<j] s) k \<longleftrightarrow> has s k \<or> (i \<le> k \<and> k < j)"
proof (induction j)
  case (Suc j)
  then show ?case using has_add [OF wf_add_range, of s j k "[i..<j]"] by (auto simp: less_Suc_eq)
qed simp

lemma wf_del_range: "wf s \<Longrightarrow> wf (fold (\<lambda>b s. if b < cap then del b s else s) bs s)"
  by (induction bs arbitrary: s) (auto simp: wf_del)

lemma has_del_range:
  "wf s \<Longrightarrow> k < cap \<Longrightarrow>
    has (fold (\<lambda>b s. if b < cap then del b s else s) [i..<j] s) k \<longleftrightarrow> has s k \<and> \<not> (i \<le> k \<and> k < j)"
proof (induction j)
  case (Suc j)
  then show ?case using has_del [OF wf_del_range, of s j k "[i..<j]"] by (auto simp: less_Suc_eq)
qed simp

end

interpretation bitmap: block_set "\<lambda>bm. length bm = 1024" used
  "\<lambda>b. bitmap_set (word_of_nat b)" "\<lambda>b. bitmap_clear (word_of_nat b)" 8192
  by unfold_locales (simp_all add: used_bitmap_set used_bitmap_clear)

section \<open>First fit\<close>

definition fits :: "byte list \<Rightarrow> nat \<Rightarrow> nat \<Rightarrow> bool" where
  "fits bm n st \<longleftrightarrow> st + n \<le> 8192 \<and> (\<forall>b. st \<le> b \<and> b < st + n \<longrightarrow> \<not> used bm b)"

text \<open>The loop invariant of the scan at block \<open>i\<close> with \<open>c\<close> consecutive free blocks.\<close>

definition scan_inv :: "byte list \<Rightarrow> nat \<Rightarrow> nat \<Rightarrow> nat \<Rightarrow> bool" where
  "scan_inv bm n i c \<longleftrightarrow> i \<le> 8192 \<and> c \<le> i \<and> c < n \<and>
     (\<forall>b. i - c \<le> b \<and> b < i \<longrightarrow> \<not> used bm b) \<and> (\<forall>st < i - c. \<not> fits bm n st)"

lemma scan_inv_used:
  assumes "scan_inv bm n i c" and "i < 8192" and "used bm i"
  shows "scan_inv bm n (Suc i) 0"
proof -
  have "\<not> fits bm n st" if "st < Suc i" for st
  proof
    assume f: "fits bm n st"
    then have "i - c \<le> st" using assms(1) by (meson not_less scan_inv_def)
    then have "st \<le> i \<and> i < st + n" using that assms(1) by (auto simp: scan_inv_def)
    with f assms(3) show False by (auto simp: fits_def)
  qed
  with assms show ?thesis by (auto simp: scan_inv_def)
qed

lemma scan_inv_free:
  assumes "scan_inv bm n i c" and "i < 8192" and "\<not> used bm i" and "Suc c \<noteq> n"
  shows "scan_inv bm n (Suc i) (Suc c)"
  using assms by (auto simp: scan_inv_def less_Suc_eq)

lemma scan_inv_found:
  assumes "scan_inv bm n i c" and "i < 8192" and "\<not> used bm i" and "Suc c = n"
  shows "fits bm n (i - c) \<and> (\<forall>st < i - c. \<not> fits bm n st)"
  using assms by (auto simp: scan_inv_def fits_def less_Suc_eq)

lemma scan_inv_end:
  assumes "scan_inv bm n 8192 c"
  shows "\<not> fits bm n st"
proof
  assume f: "fits bm n st"
  then have "st < 8192 - c" using assms by (auto simp: fits_def scan_inv_def)
  with f assms show False by (auto simp: scan_inv_def)
qed

definition first_fit :: "byte list \<Rightarrow> nat \<Rightarrow> nat \<Rightarrow> bool" where
  "first_fit bm n st \<longleftrightarrow> fits bm n st \<and> (\<forall>st' < st. \<not> fits bm n st')"

lemma kmalloc_scan_correct:
  assumes "scan_inv bm (unat n) i c" and "unat n \<le> 8192" and "0 < c \<Longrightarrow> s = word_of_nat (i - c)"
  shows "case kmalloc_scan bm n i (word_of_nat c) s of
      None \<Rightarrow> (\<forall>st. \<not> fits bm (unat n) st)
    | Some st \<Rightarrow> first_fit bm (unat n) (unat st)"
  using assms(1,3)
proof (induction "8192 - i" arbitrary: i c s rule: less_induct)
  case less
  have i: "i \<le> 8192" and c: "c \<le> i" "c < unat n" using less.prems(1) by (simp_all add: scan_inv_def)
  show ?case
  proof (cases "i < 8192")
    case False
    then have "i = 8192" using i by simp
    then show ?thesis
      using scan_inv_end less.prems(1) by (subst kmalloc_scan.simps) auto
  next
    case True
    note unfold = kmalloc_scan.simps [of bm n i "word_of_nat c" s]
    show ?thesis
    proof (cases "used bm i")
      case u: True
      have "case kmalloc_scan bm n (Suc i) (word_of_nat 0) s of
          None \<Rightarrow> (\<forall>st. \<not> fits bm (unat n) st) | Some st \<Rightarrow> first_fit bm (unat n) (unat st)"
        using True by (intro less.hyps scan_inv_used [OF less.prems(1) True u]) auto
      with True u show ?thesis unfolding unfold by (simp add: used_def)
    next
      case u: False
      let ?s = "word_of_nat (i - c) :: u32"
      have "(word_of_nat c = (0 :: u32)) = (c = 0)"
        using of_nat_u32_inject [of c 0] c assms(2) by simp
      then have s: "(if word_of_nat c = (0 :: u32) then word_of_nat i else s) = ?s"
        using less.prems(2) by auto
      have n: "word_of_nat c + 1 = n \<longleftrightarrow> Suc c = unat n"
        using of_nat_eq_u32_iff [of "Suc c" n] c assms(2) by (simp add: add.commute)
      show ?thesis
      proof (cases "Suc c = unat n")
        case found: True
        have "unat ?s = i - c" using i by (simp add: unat_of_nat_u32)
        then show ?thesis
          using scan_inv_found [OF less.prems(1) True u found] True u n found
          unfolding unfold by (simp add: used_def s Let_def first_fit_def)
      next
        case more: False
        have "case kmalloc_scan bm n (Suc i) (word_of_nat (Suc c)) ?s of
            None \<Rightarrow> (\<forall>st. \<not> fits bm (unat n) st) | Some st \<Rightarrow> first_fit bm (unat n) (unat st)"
          using True by (intro less.hyps scan_inv_free [OF less.prems(1) True u more]) auto
        with True u n more show ?thesis
          unfolding unfold by (simp add: used_def s Let_def add.commute)
      qed
    qed
  qed
qed

lemma kmalloc_scan_zero:
  assumes "c \<le> i" and "i \<le> 8192"
  shows "kmalloc_scan bm 0 i (word_of_nat c) s = None"
  using assms
proof (induction "8192 - i" arbitrary: i c s rule: less_induct)
  case less
  show ?case
  proof (cases "i < 8192")
    case True
    have nz: "(word_of_nat c + 1 :: u32) \<noteq> 0"
      using of_nat_eq_u32_iff [of "Suc c" 0] less.prems by (simp add: add.commute)
    have "kmalloc_scan bm 0 (Suc i) (word_of_nat (Suc c)) s' = None" for s'
      using less.prems True by (intro less.hyps) auto
    moreover have "kmalloc_scan bm 0 (Suc i) (word_of_nat 0) s' = None" for s'
      using less.prems True by (intro less.hyps) auto
    ultimately show ?thesis
      using True nz by (subst kmalloc_scan.simps) (simp add: Let_def add.commute)
  qed (subst kmalloc_scan.simps, simp)
qed

section \<open>Headers in memory\<close>

definition write_header :: "u32 \<Rightarrow> kheap_header \<Rightarrow> memory \<Rightarrow> memory" where
  "write_header a hdr m = store32 (a + 12) (h_size hdr) (store32 (a + 8) (h_num_blocks hdr)
     (store32 (a + 4) (h_start_block hdr) (store32 a (h_magic hdr) m)))"

lemma in_obj_word:
  fixes a :: u32
  shows "in_obj a 16 a" "in_obj a 16 (a + numeral k) = (unat (numeral k :: u32) < 16)" "in_obj a 16 (a + 1)"
  by (simp_all add: in_obj_def)

lemma read_write_header [simp]: "read_header (write_header a hdr m) a = hdr"
  by (cases hdr) (simp add: read_header_def write_header_def load32_def store32_def bytes_of_u32 add.assoc)

lemma write_header_other:
  assumes "\<not> in_obj a 16 x"
  shows "write_header a hdr m x = m x"
proof -
  have "\<not> in_obj (a + 12) 4 x" "\<not> in_obj (a + 8) 4 x" "\<not> in_obj (a + 4) 4 x" "\<not> in_obj a 4 x"
  proof -
    have "unat (x - a) = unat (x - (a + word_of_nat k)) + k"
      if "k \<le> 12" "unat (x - (a + word_of_nat k)) < 4" for k
    proof -
      have "x - a = (x - (a + word_of_nat k)) + word_of_nat k" by simp
      then show ?thesis using that unat_add_u32 [of "x - (a + word_of_nat k)" "word_of_nat k"]
        by (simp add: unat_of_nat_u32)
    qed
    from this [of 12] this [of 8] this [of 4] assms
    show "\<not> in_obj (a + 12) 4 x" "\<not> in_obj (a + 8) 4 x" "\<not> in_obj (a + 4) 4 x" "\<not> in_obj a 4 x"
      by (auto simp: in_obj_def)
  qed
  then show ?thesis by (simp add: write_header_def store32_other)
qed

lemma read_header_cong:
  assumes "\<And>x. in_obj a 16 x \<Longrightarrow> m x = m' x"
  shows "read_header m a = read_header m' a"
  using assms by (simp add: read_header_def load32_def in_obj_word add.assoc)

end
