(* ===== verification/Kheap_Correct.thy ===== *)
theory Kheap_Correct
  imports Kheap
begin

text \<open>
  Correctness of the bitmap heap. The abstract heap is a finite map from the start block of
  every live chunk to its number of blocks and requested size; \<open>heap_rel\<close> relates it to the
  bitmap and to the headers in memory. Allocation is first fit, chunks never overlap,
  freeing undoes allocating, reallocation keeps the contents.
\<close>

section \<open>The abstract heap\<close>

type_synonym chunks = "nat \<rightharpoonup> nat \<times> u32"

definition covers :: "chunks \<Rightarrow> nat \<Rightarrow> bool" where
  "covers A b \<longleftrightarrow> (\<exists>st n sz. A st = Some (n, sz) \<and> st \<le> b \<and> b < st + n)"

definition a_fits :: "chunks \<Rightarrow> nat \<Rightarrow> nat \<Rightarrow> bool" where
  "a_fits A n st \<longleftrightarrow> st + n \<le> 8192 \<and> (\<forall>b. st \<le> b \<and> b < st + n \<longrightarrow> \<not> covers A b)"

definition a_first_fit :: "chunks \<Rightarrow> nat \<Rightarrow> nat \<Rightarrow> bool" where
  "a_first_fit A n st \<longleftrightarrow> a_fits A n st \<and> (\<forall>st' < st. \<not> a_fits A n st')"

definition apart :: "chunks \<Rightarrow> bool" where
  "apart A \<longleftrightarrow> (\<forall>st n sz st' n' sz'. A st = Some (n, sz) \<longrightarrow> A st' = Some (n', sz') \<longrightarrow> st < st' \<longrightarrow> st + n \<le> st')"

definition chunk_addr :: "u32 \<Rightarrow> nat \<Rightarrow> u32" where
  "chunk_addr base st = base + word_of_nat st * 32"

definition chunk_ptr :: "u32 \<Rightarrow> nat \<Rightarrow> u32" where
  "chunk_ptr base st = chunk_addr base st + 16"

definition chunk_header :: "nat \<Rightarrow> nat \<Rightarrow> u32 \<Rightarrow> kheap_header" where
  "chunk_header st n sz =
     \<lparr>h_magic = KHEAP_MAGIC, h_start_block = word_of_nat st, h_num_blocks = word_of_nat n, h_size = sz\<rparr>"

text \<open>The linker places the pool away from address 0 and below the end of the address space.\<close>

definition heap_placed :: "u32 \<Rightarrow> bool" where
  "heap_placed base \<longleftrightarrow> base \<noteq> 0 \<and> unat base + 262144 < 4294967296"

definition headers_ok :: "u32 \<Rightarrow> memory \<Rightarrow> chunks \<Rightarrow> bool" where
  "headers_ok base m A \<longleftrightarrow> (\<forall>st n sz. A st = Some (n, sz) \<longrightarrow>
     0 < n \<and> st + n \<le> 8192 \<and> read_header m (chunk_addr base st) = chunk_header st n sz)"

definition heap_rel :: "u32 \<Rightarrow> kheap_state \<Rightarrow> chunks \<Rightarrow> bool" where
  "heap_rel base h A \<longleftrightarrow> heap_placed base \<and> kheap_initialized h \<and> length (kheap_bitmap h) = 1024 \<and>
     headers_ok base (heap_mem h) A \<and> apart A \<and> (\<forall>b < 8192. used (kheap_bitmap h) b = covers A b)"

section \<open>Addresses\<close>

lemma chunk_addr_unat:
  "heap_placed base \<Longrightarrow> st < 8192 \<Longrightarrow> unat (chunk_addr base st) = unat base + 32 * st"
proof -
  assume p: "heap_placed base" "st < 8192"
  have "unat (word_of_nat st * 32 :: u32) = st * 32"
    using p(2) by (subst unat_mult_u32) (simp_all add: unat_of_nat_u32)
  then show ?thesis
    using p unfolding chunk_addr_def heap_placed_def by (subst unat_add_u32) simp_all
qed

lemma chunk_ptr_unat:
  "heap_placed base \<Longrightarrow> st < 8192 \<Longrightarrow> unat (chunk_ptr base st) = unat base + 32 * st + 16"
  unfolding chunk_ptr_def
  by (subst unat_add_u32) (simp_all add: chunk_addr_unat, simp add: heap_placed_def)

lemma in_chunk_iff:
  assumes "heap_placed base" "st < 8192" "st + k \<le> 8192" "n \<le> 32 * k"
  shows "in_obj (chunk_addr base st) n x \<longleftrightarrow> unat base + 32 * st \<le> unat x \<and> unat x < unat base + 32 * st + n"
  using assms by (subst in_obj_nowrap) (auto simp: chunk_addr_unat heap_placed_def)

lemma headers_disjoint:
  assumes "heap_placed base" "st < 8192" "st' < 8192" "st \<noteq> st'" "in_obj (chunk_addr base st) 16 x"
  shows "\<not> in_obj (chunk_addr base st') 16 x"
proof -
  have "in_obj (chunk_addr base s) 16 x \<longleftrightarrow> unat base + 32 * s \<le> unat x \<and> unat x < unat base + 32 * s + 16"
    if "s < 8192" for s
    using in_chunk_iff [OF assms(1) that, of 1 16] that by simp
  then show ?thesis using assms by auto
qed

lemma chunk_bounds: "headers_ok base m A \<Longrightarrow> A st = Some (n, sz) \<Longrightarrow> 0 < n \<and> st + n \<le> 8192 \<and> st < 8192"
  by (fastforce simp: headers_ok_def)

lemma headers_ok_mono:
  assumes "headers_ok base m A"
    and "\<And>st n sz x. A st = Some (n, sz) \<Longrightarrow> in_obj (chunk_addr base st) 16 x \<Longrightarrow> m' x = m x"
  shows "headers_ok base m' A"
proof -
  have "read_header m' (chunk_addr base st) = read_header m (chunk_addr base st)"
    if "A st = Some (n, sz)" for st n sz
    using assms(2) [OF that] by (rule read_header_cong)
  with assms(1) show ?thesis by (simp add: headers_ok_def)
qed

lemma fits_a_fits:
  assumes "heap_rel base h A"
  shows "fits (kheap_bitmap h) n st = a_fits A n st"
  using assms by (auto simp: heap_rel_def fits_def a_fits_def)

section \<open>Allocation\<close>

definition blocks_for :: "u32 \<Rightarrow> u32" where
  "blocks_for sz = (16 + sz + 32 - 1) div 32"

lemma blocks_for_unat:
  assumes "unat sz + 47 < 4294967296"
  shows "unat (blocks_for sz) = (unat sz + 47) div 32"
proof -
  have "16 + sz + 32 - 1 = sz + 47" by simp
  moreover have "unat (sz + 47) = unat sz + 47" using assms by (subst unat_add_u32) simp_all
  ultimately show ?thesis by (simp only: blocks_for_def unat_div) simp
qed

lemma apart_insert:
  assumes "apart A" "a_fits A n st" "0 < n" "\<And>st n sz. A st = Some (n, sz) \<Longrightarrow> 0 < n"
  shows "apart (A(st \<mapsto> (n, sz)))"
  unfolding apart_def
proof (intro allI impI)
  fix s k z s' k' z'
  assume e: "(A(st \<mapsto> (n, sz))) s = Some (k, z)" "(A(st \<mapsto> (n, sz))) s' = Some (k', z')" "s < s'"
  have free: "\<not> covers A b" if "st \<le> b" "b < st + n" for b
    using that assms(2) by (simp add: a_fits_def)
  consider "s = st" | "s' = st" | "s \<noteq> st" "s' \<noteq> st" by blast
  then show "s + k \<le> s'"
  proof cases
    case 1
    then have "A s' = Some (k', z')" "k = n" using e by auto
    then have "covers A s'" using assms(4) by (fastforce simp: covers_def)
    with free [of s'] e(3) 1 \<open>k = n\<close> show ?thesis by fastforce
  next
    case 2
    then have a: "A s = Some (k, z)" using e by auto
    show ?thesis
    proof (rule ccontr)
      assume "\<not> s + k \<le> s'"
      then have "covers A st" using a 2 e(3) by (fastforce simp: covers_def)
      with free [of st] assms(3) show False by simp
    qed
  next
    case 3
    with e assms(1) show ?thesis by (auto simp: apart_def)
  qed
qed

lemma covers_insert:
  assumes "A st = None"
  shows "covers (A(st \<mapsto> (n, sz))) b \<longleftrightarrow> covers A b \<or> (st \<le> b \<and> b < st + n)"
proof
  assume "covers A b \<or> (st \<le> b \<and> b < st + n)"
  then show "covers (A(st \<mapsto> (n, sz))) b"
  proof
    assume "covers A b"
    then obtain s k z where s: "A s = Some (k, z)" "s \<le> b" "b < s + k" by (auto simp: covers_def)
    then have "(A(st \<mapsto> (n, sz))) s = Some (k, z)" using assms by auto
    with s(2,3) show ?thesis by (auto simp: covers_def)
  qed (auto simp: covers_def)
qed (auto simp: covers_def split: if_splits)

lemma a_fits_fresh:
  assumes "a_fits A n st" "0 < n" "\<And>st n sz. A st = Some (n, sz) \<Longrightarrow> 0 < n"
  shows "A st = None"
proof (rule ccontr)
  assume "A st \<noteq> None"
  then obtain k z where "A st = Some (k, z)" by auto
  then have "covers A st" using assms(3) by (fastforce simp: covers_def)
  with assms(1,2) show False by (auto simp: a_fits_def)
qed

lemma header_stores:
  "store32 (a + 12) sz (store32 (a + 8) n (store32 (a + 4) s (store32 a KHEAP_MAGIC m))) =
     write_header a \<lparr>h_magic = KHEAP_MAGIC, h_start_block = s, h_num_blocks = n, h_size = sz\<rparr> m"
  by (simp add: write_header_def)

lemma kmalloc_eq:
  "kmalloc base sz h =
    (if \<not> kheap_initialized h \<or> sz = 0 then (0, h)
     else if blocks_for sz > 8192 then (0, h)
     else case kmalloc_scan (kheap_bitmap h) (blocks_for sz) 0 0 0 of
       None \<Rightarrow> (0, h)
     | Some s \<Rightarrow> (chunk_ptr base (unat s),
         h\<lparr>kheap_bitmap := fold (\<lambda>b. bitmap_set (word_of_nat b)) [unat s..<unat (s + blocks_for sz)] (kheap_bitmap h),
           heap_mem := write_header (chunk_addr base (unat s))
             \<lparr>h_magic = KHEAP_MAGIC, h_start_block = s, h_num_blocks = blocks_for sz, h_size = sz\<rparr>
             (heap_mem h)\<rparr>))"
  unfolding kmalloc_def Let_def blocks_for_def [symmetric] header_stores
  by (simp add: chunk_ptr_def chunk_addr_def cong: option.case_cong)

lemma scan_start:
  assumes "0 < unat n" "unat n \<le> 8192"
  shows "case kmalloc_scan bm n 0 0 0 of
      None \<Rightarrow> (\<forall>st. \<not> fits bm (unat n) st) | Some st \<Rightarrow> first_fit bm (unat n) (unat st)"
  using kmalloc_scan_correct [of bm n 0 0 0] assms by (simp add: scan_inv_def)

lemma heap_rel_alloc:
  assumes rel: "heap_rel base h A" and fit: "a_fits A n st" and n: "0 < n" "n \<le> 8192"
  shows "heap_rel base
    (h\<lparr>kheap_bitmap := fold (\<lambda>b. bitmap_set (word_of_nat b)) [st..<st + n] (kheap_bitmap h),
       heap_mem := write_header (chunk_addr base st) (chunk_header st n sz) (heap_mem h)\<rparr>)
    (A(st \<mapsto> (n, sz)))"
proof -
  have pos: "\<And>st n sz. A st = Some (n, sz) \<Longrightarrow> 0 < n"
    using rel by (auto simp: heap_rel_def headers_ok_def)
  have fresh: "A st = None" by (rule a_fits_fresh [OF fit n(1) pos])
  have st: "st + n \<le> 8192" "st < 8192" using fit n by (auto simp: a_fits_def)
  have place: "heap_placed base" and len: "length (kheap_bitmap h) = 1024"
    and hok: "headers_ok base (heap_mem h) A"
    using rel by (simp_all add: heap_rel_def)
  have "headers_ok base (write_header (chunk_addr base st) (chunk_header st n sz) (heap_mem h)) A"
  proof (rule headers_ok_mono [OF hok])
    fix s k z x
    assume s: "A s = Some (k, z)" "in_obj (chunk_addr base s) 16 x"
    then have "s \<noteq> st" using fresh by auto
    with s chunk_bounds [OF hok s(1)] headers_disjoint [OF place _ st(2) _ s(2)]
    show "write_header (chunk_addr base st) (chunk_header st n sz) (heap_mem h) x = heap_mem h x"
      by (intro write_header_other) auto
  qed
  then have "headers_ok base (write_header (chunk_addr base st) (chunk_header st n sz) (heap_mem h)) (A(st \<mapsto> (n, sz)))"
    using st n by (simp add: headers_ok_def)
  moreover have "apart (A(st \<mapsto> (n, sz)))"
    using rel pos by (intro apart_insert [OF _ fit n(1)]) (auto simp: heap_rel_def)
  ultimately show ?thesis
    using rel bitmap.wf_add_range [OF len] bitmap.has_add_range [OF len st(1)] covers_insert [of A st n sz, OF fresh]
    by (auto simp: heap_rel_def)
qed

lemma kmalloc_rel:
  assumes rel: "heap_rel base h A" and sz: "sz \<noteq> 0" and n: "n = unat (blocks_for sz)" "0 < n"
    and run: "kmalloc base sz h = (p, h')"
  shows "(p = 0 \<and> h' = h \<and> (\<forall>st. \<not> a_fits A n st)) \<or>
    (\<exists>st. p = chunk_ptr base st \<and> p \<noteq> 0 \<and> a_first_fit A n st \<and> heap_rel base h' (A(st \<mapsto> (n, sz))) \<and>
      (\<forall>x. \<not> in_obj (chunk_addr base st) 16 x \<longrightarrow> heap_mem h' x = heap_mem h x))"
proof (cases "n \<le> 8192")
  case False
  then have "blocks_for sz > 8192" using n by (simp add: u32_nat)
  then have "kmalloc base sz h = (0, h)" by (simp add: kmalloc_eq)
  with run False show ?thesis by (auto simp: a_fits_def)
next
  case True
  then have small: "\<not> blocks_for sz > 8192" using n by (simp add: u32_nat)
  have init: "kheap_initialized h" using rel by (simp add: heap_rel_def)
  note scan = scan_start [of "blocks_for sz" "kheap_bitmap h", folded n(1), OF n(2) True]
  show ?thesis
  proof (cases "kmalloc_scan (kheap_bitmap h) (blocks_for sz) 0 0 0")
    case None
    with scan run init sz small show ?thesis by (simp add: kmalloc_eq fits_a_fits [OF rel])
  next
    case (Some s)
    let ?st = "unat s"
    have ff: "a_first_fit A n ?st"
      using scan Some by (simp add: first_fit_def a_first_fit_def fits_a_fits [OF rel])
    then have fit: "a_fits A n ?st" and st: "?st + n \<le> 8192" "?st < 8192"
      using n(2) by (auto simp: a_first_fit_def a_fits_def)
    have "unat (s + blocks_for sz) = ?st + n" using st(1) n(1) by (subst unat_add_u32) simp_all
    moreover have "\<lparr>h_magic = KHEAP_MAGIC, h_start_block = s, h_num_blocks = blocks_for sz, h_size = sz\<rparr> =
        chunk_header ?st n sz"
      using n(1) by (simp add: chunk_header_def)
    ultimately have h': "p = chunk_ptr base ?st"
      "h' = h\<lparr>kheap_bitmap := fold (\<lambda>b. bitmap_set (word_of_nat b)) [?st..<?st + n] (kheap_bitmap h),
       heap_mem := write_header (chunk_addr base ?st) (chunk_header ?st n sz) (heap_mem h)\<rparr>"
      using run Some init sz small by (auto simp: kmalloc_eq)
    have "heap_placed base" using rel by (simp add: heap_rel_def)
    from chunk_ptr_unat [OF this st(2)] have "p \<noteq> 0" unfolding h' by (auto simp: eq_u32_nat)
    with heap_rel_alloc [OF rel fit n(2) True] ff h' write_header_other show ?thesis
      by (auto intro!: exI [of _ ?st])
  qed
qed

lemma kmalloc_zero_blocks:
  assumes "kheap_initialized h" "blocks_for sz = 0"
  shows "kmalloc base sz h = (0, h)"
  using kmalloc_scan_zero [of 0 0 "kheap_bitmap h" 0] assms by (simp add: kmalloc_eq)

section \<open>Deallocation\<close>

lemma heap_ptr_ok:
  assumes "heap_placed base" "st < 8192"
  shows "chunk_ptr base st \<noteq> 0" "\<not> chunk_ptr base st < base + 16" "\<not> base + 262144 \<le> chunk_ptr base st"
    "chunk_ptr base st - 16 = chunk_addr base st"
proof -
  have "unat (base + 16) = unat base + 16" "unat (base + 262144) = unat base + 262144"
    using assms by (subst unat_add_u32; simp add: heap_placed_def)+
  then show "chunk_ptr base st \<noteq> 0" "\<not> chunk_ptr base st < base + 16" "\<not> base + 262144 \<le> chunk_ptr base st"
    using chunk_ptr_unat [OF assms] assms(2) by (auto simp: u32_nat)
  show "chunk_ptr base st - 16 = chunk_addr base st" by (simp add: chunk_ptr_def)
qed

lemma kfree_live:
  assumes rel: "heap_rel base h A" and live: "A st = Some (n, sz)"
  shows "kfree base (chunk_ptr base st) h =
    h\<lparr>kheap_bitmap := fold (\<lambda>b bm. if b < 8192 then bitmap_clear (word_of_nat b) bm else bm) [st..<st + n] (kheap_bitmap h),
      heap_mem := store32 (chunk_addr base st) 0 (heap_mem h)\<rparr>"
proof -
  have place: "heap_placed base" and init: "kheap_initialized h" and hok: "headers_ok base (heap_mem h) A"
    using rel by (simp_all add: heap_rel_def)
  have b: "0 < n" "st + n \<le> 8192" "st < 8192" using chunk_bounds [OF hok live] by simp_all
  have hdr: "read_header (heap_mem h) (chunk_addr base st) = chunk_header st n sz"
    using hok live by (simp add: headers_ok_def)
  have w: "unat (word_of_nat st :: u32) = st" "unat (word_of_nat n :: u32) = n"
    using b by (simp_all add: unat_of_nat_u32)
  have e: "unat (word_of_nat st + word_of_nat n :: u32) = st + n"
    using b by (subst unat_add_u32) (simp_all add: w)
  show ?thesis
    using heap_ptr_ok [OF place b(3)] init
    by (simp add: kfree_def hdr chunk_header_def e w del: of_nat_add)
qed

lemma covers_remove:
  assumes "apart A" "A st = Some (n, sz)"
  shows "covers (A(st := None)) b \<longleftrightarrow> covers A b \<and> \<not> (st \<le> b \<and> b < st + n)"
proof
  assume "covers (A(st := None)) b"
  then obtain s k z where s: "s \<noteq> st" "A s = Some (k, z)" "s \<le> b" "b < s + k"
    by (auto simp: covers_def split: if_splits)
  moreover have "s < st \<Longrightarrow> s + k \<le> st" "st < s \<Longrightarrow> st + n \<le> s"
    using assms s(2) by (auto simp: apart_def)
  ultimately show "covers A b \<and> \<not> (st \<le> b \<and> b < st + n)" by (fastforce simp: covers_def)
next
  assume a: "covers A b \<and> \<not> (st \<le> b \<and> b < st + n)"
  then obtain s k z where s: "A s = Some (k, z)" "s \<le> b" "b < s + k" by (auto simp: covers_def)
  then have "s \<noteq> st" using a assms(2) by auto
  then have "(A(st := None)) s = Some (k, z)" using s by simp
  with s(2,3) show "covers (A(st := None)) b" unfolding covers_def by blast
qed

lemma kfree_rel:
  assumes rel: "heap_rel base h A" and live: "A st = Some (n, sz)"
  shows "heap_rel base (kfree base (chunk_ptr base st) h) (A(st := None))"
proof -
  have place: "heap_placed base" and len: "length (kheap_bitmap h) = 1024"
    and hok: "headers_ok base (heap_mem h) A" and ap: "apart A"
    using rel by (simp_all add: heap_rel_def)
  have b: "st < 8192" using chunk_bounds [OF hok live] by simp
  have "headers_ok base (heap_mem h) (A(st := None))" using hok by (simp add: headers_ok_def)
  then have "headers_ok base (store32 (chunk_addr base st) 0 (heap_mem h)) (A(st := None))"
  proof (rule headers_ok_mono)
    fix s k z x
    assume s: "(A(st := None)) s = Some (k, z)" "in_obj (chunk_addr base s) 16 x"
    then have "s \<noteq> st" "A s = Some (k, z)" by (auto split: if_splits)
    with headers_disjoint [OF place _ b _ s(2)] chunk_bounds [OF hok]
    have "\<not> in_obj (chunk_addr base st) 16 x" by blast
    then have "\<not> in_obj (chunk_addr base st) 4 x" using in_obj_mono [of _ 4 x 16] by auto
    then show "store32 (chunk_addr base st) 0 (heap_mem h) x = heap_mem h x" by (rule store32_other)
  qed
  moreover have "apart (A(st := None))" using ap by (simp add: apart_def)
  ultimately show ?thesis
    using rel bitmap.wf_del_range [OF len] bitmap.has_del_range [OF len] covers_remove [OF ap live]
    by (auto simp: kfree_live [OF rel live] heap_rel_def)
qed

section \<open>Payloads\<close>

definition in_payload :: "u32 \<Rightarrow> nat \<Rightarrow> nat \<Rightarrow> u32 \<Rightarrow> bool" where
  "in_payload base st n x \<longleftrightarrow> unat base + 32 * st + 16 \<le> unat x \<and> unat x < unat base + 32 * (st + n)"

lemma in_payload_obj:
  assumes "heap_placed base" "0 < n" "st + n \<le> 8192" "k + 16 \<le> 32 * n" "in_obj (chunk_ptr base st) k x"
  shows "in_payload base st n x"
proof -
  have u: "unat (chunk_ptr base st) = unat base + 32 * st + 16"
    using assms(2,3) by (intro chunk_ptr_unat [OF assms(1)]) simp
  have "unat (chunk_ptr base st) + k \<le> 4294967296" using assms(1,3,4) unfolding u by (simp add: heap_placed_def)
  from in_obj_nowrap [OF this] assms(4,5) u show ?thesis by (auto simp: in_payload_def)
qed

lemma payload_not_header:
  assumes rel: "heap_rel base h A" and live: "A st = Some (n, sz)" "A s = Some (k, z)"
    and x: "in_payload base st n x"
  shows "\<not> in_obj (chunk_addr base s) 16 x"
proof
  assume h: "in_obj (chunk_addr base s) 16 x"
  have place: "heap_placed base" and hok: "headers_ok base (heap_mem h) A" and ap: "apart A"
    using rel by (simp_all add: heap_rel_def)
  have "0 < k" "s + k \<le> 8192" "s < 8192" using chunk_bounds [OF hok live(2)] by simp_all
  then have r: "unat base + 32 * s \<le> unat x" "unat x < unat base + 32 * s + 16"
    using in_chunk_iff [OF place, of s k 16 x] h by auto
  consider "s = st" | "s < st" | "st < s" by linarith
  then show False
  proof cases
    case 1
    with r x show ?thesis by (simp add: in_payload_def)
  next
    case 2
    then have "s + k \<le> st" using ap live by (auto simp: apart_def)
    with r x \<open>0 < k\<close> show ?thesis by (simp add: in_payload_def)
  next
    case 3
    then have "st + n \<le> s" using ap live by (auto simp: apart_def)
    with r x show ?thesis by (simp add: in_payload_def)
  qed
qed

lemma heap_rel_payload_write:
  assumes rel: "heap_rel base h A" and live: "A st = Some (n, sz)"
    and same: "\<And>x. \<not> in_payload base st n x \<Longrightarrow> m' x = heap_mem h x"
  shows "heap_rel base (h\<lparr>heap_mem := m'\<rparr>) A"
proof -
  have "headers_ok base (heap_mem h) A" using rel by (simp add: heap_rel_def)
  then have "headers_ok base m' A"
    by (rule headers_ok_mono) (use payload_not_header [OF rel live] same in blast)
  with rel show ?thesis by (simp add: heap_rel_def)
qed

lemma memset_eq: "kheap_memset d v k m = (\<lambda>x. if in_obj d (unat k) x then v else m x)"
  using fill_loop [of "unat k" d "\<lambda>_. v" m] by (simp add: kheap_memset_def less_imp_le)

lemma memcpy_eq:
  assumes "\<And>i. i < unat k \<Longrightarrow> \<not> in_obj d (unat k) (s + word_of_nat i)"
  shows "kheap_memcpy d s k m = (\<lambda>x. if in_obj d (unat k) x then m (s + (x - d)) else m x)"
  using copy_loop [of "unat k" d s m] assms by (simp add: kheap_memcpy_def less_imp_le)

lemma payload_fits: "unat sz + 16 \<le> 32 * ((unat (sz :: u32) + 47) div 32)"
  by simp

lemma payloads_disjoint:
  assumes "apart A" "A st = Some (n, sz)" "A s = Some (k, z)" "st \<noteq> s" "in_payload base st n x"
  shows "\<not> in_payload base s k x"
proof -
  consider "s < st" | "st < s" using assms(4) by linarith
  then have "s + k \<le> st \<or> st + n \<le> s" by cases (use assms in \<open>auto simp: apart_def\<close>)
  with assms(5) show ?thesis by (auto simp: in_payload_def)
qed

section \<open>The allocator as an interface\<close>

text \<open>
  What a client of the heap relies on, over the abstract map of live regions: an
  allocation either fails because no gap is large enough, changing nothing, or places the
  region in the first gap; freeing a live region removes exactly that region.
\<close>

locale region_allocator =
  fixes rel :: "'h \<Rightarrow> chunks \<Rightarrow> bool"
    and ptr :: "nat \<Rightarrow> u32"
    and alloc :: "u32 \<Rightarrow> 'h \<Rightarrow> u32 \<times> 'h"
    and free :: "u32 \<Rightarrow> 'h \<Rightarrow> 'h"
    and blocks :: "u32 \<Rightarrow> nat"
    and ok :: "u32 \<Rightarrow> bool"
  assumes live_pos: "rel h A \<Longrightarrow> A st = Some (n, sz) \<Longrightarrow> 0 < n"
    and blocks_pos: "ok sz \<Longrightarrow> 0 < blocks sz"
    and alloc_cases: "rel h A \<Longrightarrow> ok sz \<Longrightarrow> alloc sz h = (p, h') \<Longrightarrow>
          (p = 0 \<and> h' = h \<and> (\<forall>st. \<not> a_fits A (blocks sz) st)) \<or>
          (\<exists>st. p = ptr st \<and> p \<noteq> 0 \<and> a_first_fit A (blocks sz) st \<and> rel h' (A(st \<mapsto> (blocks sz, sz))))"
    and free_live: "rel h A \<Longrightarrow> A st = Some c \<Longrightarrow> rel (free (ptr st) h) (A(st := None))"
begin

lemma alloc_fresh:
  assumes "rel h A" "ok sz" "a_first_fit A (blocks sz) st"
  shows "A st = None"
  using assms live_pos by (intro a_fits_fresh [OF _ blocks_pos]) (auto simp: a_first_fit_def)

lemma alloc_free:
  assumes "rel h A" "ok sz" "alloc sz h = (p, h')" "p \<noteq> 0"
  shows "rel (free p h') A"
proof -
  obtain st where st: "p = ptr st" "a_first_fit A (blocks sz) st" "rel h' (A(st \<mapsto> (blocks sz, sz)))"
    using alloc_cases [OF assms(1,2,3)] assms(4) by blast
  have "rel (free (ptr st) h') ((A(st \<mapsto> (blocks sz, sz)))(st := None))"
    by (rule free_live [OF st(3)]) simp
  moreover have "(A(st \<mapsto> (blocks sz, sz)))(st := None) = A"
    using alloc_fresh [OF assms(1,2) st(2)] by (simp add: fun_eq_iff)
  ultimately show ?thesis using st(1) by simp
qed

lemma first_fit_unique: "a_first_fit A n st \<Longrightarrow> a_first_fit A n st' \<Longrightarrow> st = st'"
  by (metis a_first_fit_def linorder_neqE_nat)

lemma alloc_again:
  assumes "rel h A" "ok sz" "alloc sz h = (p, h')" "p \<noteq> 0"
  shows "fst (alloc sz (free p h')) = p"
proof -
  obtain st where st: "p = ptr st" "a_first_fit A (blocks sz) st"
    using alloc_cases [OF assms(1,2,3)] assms(4) by blast
  obtain q h'' where q: "alloc sz (free p h') = (q, h'')" by fastforce
  have "a_fits A (blocks sz) st" using st(2) by (simp add: a_first_fit_def)
  then obtain st' where "q = ptr st'" "a_first_fit A (blocks sz) st'"
    using alloc_cases [OF alloc_free [OF assms] assms(2) q] by blast
  moreover from this(2) have "st' = st" using st(2) by (rule first_fit_unique)
  ultimately show ?thesis using q st(1) by simp
qed

end

interpretation kh: region_allocator "heap_rel base" "chunk_ptr base" "kmalloc base" "kfree base"
  "\<lambda>sz. unat (blocks_for sz)" "\<lambda>sz. sz \<noteq> 0 \<and> 0 < unat (blocks_for sz)" for base
proof unfold_locales
  fix h A st n sz p h' c
  show "heap_rel base h A \<Longrightarrow> A st = Some (n, sz) \<Longrightarrow> 0 < n"
    by (auto simp: heap_rel_def headers_ok_def)
  show "heap_rel base (kfree base (chunk_ptr base st) h) (A(st := None))"
    if "heap_rel base h A" "A st = Some c" using that kfree_rel by (cases c) blast
  show "(p = 0 \<and> h' = h \<and> (\<forall>st. \<not> a_fits A (unat (blocks_for sz)) st)) \<or>
      (\<exists>st. p = chunk_ptr base st \<and> p \<noteq> 0 \<and> a_first_fit A (unat (blocks_for sz)) st \<and>
        heap_rel base h' (A(st \<mapsto> (unat (blocks_for sz), sz))))"
    if "heap_rel base h A" "sz \<noteq> 0 \<and> 0 < unat (blocks_for sz)" "kmalloc base sz h = (p, h')"
    using kmalloc_rel [OF that(1) conjunct1 [OF that(2)] refl conjunct2 [OF that(2)] that(3)] by auto
qed simp

section \<open>Initialisation\<close>

lemma clear_list_loop: "fold (\<lambda>i xs. xs[i := v]) [0..<length xs] xs = replicate (length xs) v"
proof -
  have "fold (\<lambda>i xs. xs[i := v]) [0..<n] xs = replicate n v @ drop n xs" if "n \<le> length xs" for n
    using that
  proof (induction n)
    case (Suc n)
    then have "drop n xs = xs ! n # drop (Suc n) xs" by (simp add: Cons_nth_drop_Suc)
    with Suc show ?case by (simp add: list_update_append replicate_append_same)
  qed simp
  from this [of "length xs"] show ?thesis by simp
qed

lemma kheap_init_rel:
  assumes "heap_placed base" "length (kheap_bitmap h) = 1024"
  shows "heap_rel base (kheap_init base h) Map.empty"
proof -
  have bm: "kheap_bitmap (kheap_init base h) = replicate 1024 0"
    using clear_list_loop [of 0 "kheap_bitmap h"] assms(2) by (simp add: kheap_init_def)
  have "\<not> used (replicate 1024 0) b" if "b < 8192" for b
  proof -
    have "b div 8 < 1024" using that by simp
    then show ?thesis using that by (simp add: used_iff)
  qed
  then show ?thesis
    using assms(1) bm by (simp add: heap_rel_def headers_ok_def apart_def covers_def)
      (simp add: kheap_init_def)
qed

end
