(* ===== verification/Kheap_Props.thy ===== *)
theory Kheap_Props
  imports Kheap_Correct
begin

text \<open>
  The properties of the bitmap heap: first-fit allocation, deallocation and double frees,
  zeroing and reallocation, and the invariant over every sequence of operations.
\<close>

section \<open>A concrete heap for the witnesses\<close>

definition pool_base :: u32 where
  "pool_base = 0xC0200000"

definition booted_heap :: kheap_state where
  "booted_heap = kheap_init pool_base
     \<lparr>kheap_bitmap = replicate 1024 0, kheap_initialized = False, heap_mem = (\<lambda>_. 0)\<rparr>"

lemma booted_heap_rel: "heap_rel pool_base booted_heap Map.empty"
  unfolding booted_heap_def by (rule kheap_init_rel) (simp_all add: heap_placed_def pool_base_def)

lemma empty_first_fit: "a_first_fit Map.empty n st \<longleftrightarrow> n \<le> 8192 \<and> st = 0"
  by (auto simp: a_first_fit_def a_fits_def covers_def)

section \<open>Allocation\<close>

text \<open>
  C14: \<open>kmalloc\<close> on a well-formed heap, for a request that does not overflow the size
  computation: it returns NULL and changes nothing exactly when no gap of the needed
  number of blocks exists; otherwise it returns the payload of the first gap, records the
  chunk, leaves every live chunk apart and intact, the chunk is large enough for the
  request, and no byte outside the new 16-byte header changes.
\<close>

theorem kmalloc_first_fit:
  assumes "heap_rel base h A" and "sz \<noteq> 0" and "unat sz + 47 < 4294967296"
    and "kmalloc base sz h = (p, h')"
  shows "let n = (unat sz + 47) div 32 in
    (p = 0 \<and> h' = h \<and> (\<forall>st. \<not> a_fits A n st)) \<or>
    (\<exists>st. p = chunk_ptr base st \<and> p \<noteq> 0 \<and> a_first_fit A n st \<and> heap_rel base h' (A(st \<mapsto> (n, sz))) \<and>
      unat sz + 16 \<le> 32 * n \<and>
      (\<forall>x. \<not> in_obj (chunk_addr base st) 16 x \<longrightarrow> heap_mem h' x = heap_mem h x))"
proof -
  have pos: "0 < (unat sz + 47) div 32" by simp
  show ?thesis
    using kmalloc_rel [OF assms(1,2) blocks_for_unat [OF assms(3), symmetric] pos assms(4)]
    by (simp only: Let_def payload_fits simp_thms)
qed

theorem kmalloc_first_fit_witness:
  "\<exists>h'. kmalloc pool_base 100 booted_heap = (chunk_ptr pool_base 0, h') \<and>
     heap_rel pool_base h' [0 \<mapsto> (4, 100)]"
proof -
  obtain p h' where run: "kmalloc pool_base 100 booted_heap = (p, h')" by fastforce
  have a: "(100 :: u32) \<noteq> 0" "unat (100 :: u32) + 47 < 4294967296" by simp_all
  have "a_fits Map.empty 4 0" by (simp add: a_fits_def covers_def)
  with kmalloc_first_fit [OF booted_heap_rel a run] run show ?thesis
    by (auto simp: Let_def empty_first_fit)
qed

text \<open>
  C26: Freeing what was just allocated gives back the old heap: the abstract map of live
  chunks is the one before the allocation, and the same request then returns the same
  address again.
\<close>

theorem kmalloc_kfree_restores:
  assumes "heap_rel base h A" and "sz \<noteq> 0" and "unat sz + 47 < 4294967296"
    and "kmalloc base sz h = (p, h')" and "p \<noteq> 0"
  shows "heap_rel base (kfree base p h') A \<and> fst (kmalloc base sz (kfree base p h')) = p"
proof -
  have ok: "sz \<noteq> 0 \<and> 0 < unat (blocks_for sz)" using assms(2,3) by (simp add: blocks_for_unat)
  show ?thesis
    using kh.alloc_free [OF assms(1) ok assms(4,5)] kh.alloc_again [OF assms(1) ok assms(4,5)] by blast
qed

theorem kmalloc_kfree_restores_witness:
  "\<exists>p h'. kmalloc pool_base 100 booted_heap = (p, h') \<and> p \<noteq> 0 \<and>
     heap_rel pool_base (kfree pool_base p h') Map.empty"
proof -
  obtain p h' where run: "kmalloc pool_base 100 booted_heap = (p, h')" by fastforce
  have a: "(100 :: u32) \<noteq> 0" "unat (100 :: u32) + 47 < 4294967296" by simp_all
  have "a_fits Map.empty 4 0" by (simp add: a_fits_def covers_def)
  moreover have "unat (blocks_for 100) = 4" by (simp add: blocks_for_unat)
  ultimately have "p \<noteq> 0" using kmalloc_rel [OF booted_heap_rel a(1) refl _ run] by auto
  with kmalloc_kfree_restores [OF booted_heap_rel a run] run show ?thesis by blast
qed

section \<open>Deallocation\<close>

text \<open>
  \<open>kfree\<close> of a live chunk removes exactly that chunk: the heap stays well formed
  without it, memory changes only in the chunk's magic word, and a second \<open>kfree\<close> of the
  same pointer does nothing.
\<close>

lemma kfree_removes_chunk:
  assumes "heap_rel base h A" and "A st = Some (n, sz)"
  shows "heap_rel base (kfree base (chunk_ptr base st) h) (A(st := None)) \<and>
    (\<forall>x. \<not> in_obj (chunk_addr base st) 4 x \<longrightarrow> heap_mem (kfree base (chunk_ptr base st) h) x = heap_mem h x) \<and>
    kfree base (chunk_ptr base st) (kfree base (chunk_ptr base st) h) = kfree base (chunk_ptr base st) h"
proof (intro conjI)
  show "heap_rel base (kfree base (chunk_ptr base st) h) (A(st := None))" using assms by (rule kfree_rel)
  show "\<forall>x. \<not> in_obj (chunk_addr base st) 4 x \<longrightarrow> heap_mem (kfree base (chunk_ptr base st) h) x = heap_mem h x"
    by (simp add: kfree_live [OF assms] store32_other)
  have "h_magic (read_header (heap_mem (kfree base (chunk_ptr base st) h)) (chunk_ptr base st - 16)) \<noteq> KHEAP_MAGIC"
    unfolding kfree_live [OF assms] by (simp add: read_header_def chunk_ptr_def KHEAP_MAGIC_def)
  then show "kfree base (chunk_ptr base st) (kfree base (chunk_ptr base st) h) = kfree base (chunk_ptr base st) h"
    by (subst kfree_def) (simp add: Let_def)
qed

lemma kfree_removes_chunk_witness:
  "\<exists>h'. heap_rel pool_base h' [0 \<mapsto> (4, 100)] \<and> heap_rel pool_base (kfree pool_base (chunk_ptr pool_base 0) h') Map.empty"
proof -
  have fit: "a_fits Map.empty 4 0" by (simp add: a_fits_def covers_def)
  obtain h' where h: "heap_rel pool_base h' [0 \<mapsto> (4, 100)]"
    using heap_rel_alloc [OF booted_heap_rel fit] by auto
  have "([0 \<mapsto> (4, 100)] :: chunks) 0 = Some (4, 100)" by simp
  from kfree_removes_chunk [OF h this] have "heap_rel pool_base (kfree pool_base (chunk_ptr pool_base 0) h') ([0 \<mapsto> (4, 100)](0 := None))"
    by blast
  with h show ?thesis by auto
qed

text \<open>
  \<open>kfree\<close> ignores every pointer it can recognise as foreign: NULL, anything below the
  first payload or at or beyond the end of the pool, and pointers whose header does not
  carry the magic number.
\<close>

lemma kfree_ignores_foreign:
  assumes "ptr = 0 \<or> ptr < base + 16 \<or> base + 262144 \<le> ptr \<or> load32 (heap_mem h) (ptr - 16) \<noteq> KHEAP_MAGIC"
  shows "kfree base ptr h = h"
  using assms by (auto simp: kfree_def Let_def read_header_def)

section \<open>Zeroed and resized chunks\<close>

lemma kmalloc_chunk:
  assumes rel: "heap_rel base h A" and sz: "sz \<noteq> 0" "unat sz + 47 < 4294967296"
    and run: "kmalloc base sz h = (p, h')" "p \<noteq> 0"
  obtains st where "p = chunk_ptr base st" "a_first_fit A ((unat sz + 47) div 32) st"
    "heap_rel base h' (A(st \<mapsto> ((unat sz + 47) div 32, sz)))" "A st = None"
    "\<And>x. \<not> in_obj (chunk_addr base st) 16 x \<Longrightarrow> heap_mem h' x = heap_mem h x"
proof -
  have pos: "0 < (unat sz + 47) div 32" by simp
  have live: "\<And>st n sz. A st = Some (n, sz) \<Longrightarrow> 0 < n"
    using rel by (auto simp: heap_rel_def headers_ok_def)
  from kmalloc_rel [OF rel sz(1) blocks_for_unat [OF sz(2), symmetric] pos run(1)] run(2)
  obtain st where st: "p = chunk_ptr base st" "a_first_fit A ((unat sz + 47) div 32) st"
    "heap_rel base h' (A(st \<mapsto> ((unat sz + 47) div 32, sz)))"
    "\<forall>x. \<not> in_obj (chunk_addr base st) 16 x \<longrightarrow> heap_mem h' x = heap_mem h x"
    by blast
  moreover have "A st = None"
    using st(2) a_fits_fresh [OF _ pos live] by (simp add: a_first_fit_def)
  ultimately show ?thesis using that by blast
qed

lemma kcalloc_rel:
  assumes "heap_rel base h A" and "num \<noteq> 0" and "sz \<noteq> 0" and "unat num * unat sz + 47 < 4294967296"
    and "kcalloc base num sz h = (p, h')"
  shows "(p = 0 \<and> h' = h) \<or>
    (\<exists>st n. A st = None \<and> p = chunk_ptr base st \<and> heap_rel base h' (A(st \<mapsto> (n, num * sz))) \<and>
      unat num * unat sz + 16 \<le> 32 * n \<and>
      read_bytes (heap_mem h') p (unat num * unat sz) = replicate (unat num * unat sz) 0)"
proof -
  have u: "unat (num * sz) = unat num * unat sz" using assms(4) by (intro unat_mult_u32) simp
  have nz: "num * sz \<noteq> 0"
  proof -
    have "0 < unat num * unat sz" using assms(2,3) by (simp add: unat_gt_0)
    then show ?thesis using u by auto
  qed
  obtain q h1 where q: "kmalloc base (num * sz) h = (q, h1)" by fastforce
  show ?thesis
  proof (cases "q = 0")
    case True
    have "h1 = h" using kmalloc_rel [OF assms(1) nz refl _ q] assms(4) True u
      by (auto simp: blocks_for_unat)
    with q True assms(5) show ?thesis by (simp add: kcalloc_def)
  next
    case False
    let ?n = "(unat (num * sz) + 47) div 32"
    obtain st where st: "q = chunk_ptr base st" "a_first_fit A ?n st" "A st = None"
      "heap_rel base h1 (A(st \<mapsto> (?n, num * sz)))"
      using kmalloc_chunk [OF assms(1) nz _ q False] assms(4) u by metis
    have h': "p = q" "h' = h1\<lparr>heap_mem := kheap_memset q 0 (num * sz) (heap_mem h1)\<rparr>"
      using assms(5) q False by (auto simp: kcalloc_def)
    have place: "heap_placed base" and b: "0 < ?n" "st + ?n \<le> 8192"
      using st(2) assms(1) by (auto simp: heap_rel_def a_first_fit_def a_fits_def)
    have "heap_rel base h' (A(st \<mapsto> (?n, num * sz)))"
      unfolding h' using in_payload_obj [OF place b payload_fits] st(1)
      by (intro heap_rel_payload_write [OF st(4), of st ?n "num * sz"]) (auto simp: memset_eq)
    moreover have "read_bytes (heap_mem h') p (unat (num * sz)) = replicate (unat (num * sz)) 0"
      by (rule nth_equalityI) (simp_all add: h' memset_eq in_obj_offset less_imp_le)
    ultimately show ?thesis
      using st(1,3) h'(1) payload_fits [of "num * sz"] unfolding u by blast
  qed
qed

text \<open>
  \<open>kcalloc\<close>, when the product of its arguments does not overflow: it fails without
  changing anything, or returns a fresh chunk whose \<open>num * size\<close> payload bytes are all zero
  and the heap stays well formed.
\<close>

lemma kcalloc_zeroed:
  assumes "heap_rel base h A" and "num \<noteq> 0" and "sz \<noteq> 0" and "unat num * unat sz + 47 < 4294967296"
    and "kcalloc base num sz h = (p, h')"
  shows "(p = 0 \<and> h' = h) \<or>
    (\<exists>st n. A st = None \<and> p = chunk_ptr base st \<and> heap_rel base h' (A(st \<mapsto> (n, num * sz))) \<and>
      unat num * unat sz + 16 \<le> 32 * n \<and>
      read_bytes (heap_mem h') p (unat num * unat sz) = replicate (unat num * unat sz) 0)"
  by (rule kcalloc_rel [OF assms])

lemma kcalloc_zeroed_witness:
  "\<exists>p h'. kcalloc pool_base 10 8 booted_heap = (p, h') \<and> (p = 0 \<or> read_bytes (heap_mem h') p 80 = replicate 80 0)"
proof -
  obtain p h' where run: "kcalloc pool_base 10 8 booted_heap = (p, h')" by fastforce
  have a: "(10 :: u32) \<noteq> 0" "(8 :: u32) \<noteq> 0" "unat (10 :: u32) * unat (8 :: u32) + 47 < 4294967296" by simp_all
  from kcalloc_zeroed [OF booted_heap_rel a run] have "p = 0 \<or> read_bytes (heap_mem h') p 80 = replicate 80 0"
    by auto
  with run show ?thesis by blast
qed

lemma read_header_resize:
  "read_header (store32 (a + 12) v m) a = (read_header m a)\<lparr>h_size := v\<rparr>"
  by (simp add: read_header_def load32_def store32_def bytes_of_u32 add.assoc)

lemma capacity_le:
  assumes "0 < n" "n \<le> 8192"
  shows "new \<le> (word_of_nat n * 32 - 16 :: u32) \<longleftrightarrow> unat new + 16 \<le> 32 * n"
proof -
  have m: "unat (word_of_nat n * 32 :: u32) = 32 * n"
    using assms by (subst unat_mult_u32) (simp_all add: unat_of_nat_u32)
  then have "unat (word_of_nat n * 32 - 16 :: u32) = 32 * n - 16"
    using assms by (subst unat_sub) (simp_all add: u32_nat)
  with assms show ?thesis by (auto simp: u32_nat)
qed

lemma krealloc_in_place:
  assumes rel: "heap_rel base h A" and live: "A st = Some (n, sz)"
    and new: "new \<noteq> 0" "unat new + 16 \<le> 32 * n"
  shows "krealloc base (chunk_ptr base st) new h =
    (chunk_ptr base st, h\<lparr>heap_mem := store32 (chunk_addr base st + 12) new (heap_mem h)\<rparr>)"
proof -
  have place: "heap_placed base" and hok: "headers_ok base (heap_mem h) A"
    using rel by (simp_all add: heap_rel_def)
  have b: "0 < n" "n \<le> 8192" "st < 8192" using chunk_bounds [OF hok live] by auto
  have "read_header (heap_mem h) (chunk_addr base st) = chunk_header st n sz"
    using hok live by (simp add: headers_ok_def)
  then show ?thesis
    using heap_ptr_ok [OF place b(3)] new capacity_le [OF b(1,2), of new]
    by (simp add: krealloc_def chunk_header_def)
qed

lemma size_word_in_header: "in_obj (a + 12) 4 x \<Longrightarrow> in_obj a 16 x"
proof -
  assume i: "in_obj (a + 12) 4 x"
  have "x - a = (x - (a + 12)) + 12" by simp
  then show ?thesis using i unat_add_u32 [of "x - (a + 12)" 12] by (simp add: in_obj_def)
qed

lemma covers_alt: "covers A b \<longleftrightarrow> (\<exists>s k. (\<exists>z. A s = Some (k, z)) \<and> s \<le> b \<and> b < s + k)"
  by (auto simp: covers_def)

lemma resized_chunk:
  "A st = Some (n, sz) \<Longrightarrow> (\<exists>z. (A(st \<mapsto> (n, new))) s = Some (k, z)) \<longleftrightarrow> (\<exists>z. A s = Some (k, z))"
  by auto

lemma heap_rel_resize:
  assumes rel: "heap_rel base h A" and live: "A st = Some (n, sz)"
  shows "heap_rel base (h\<lparr>heap_mem := store32 (chunk_addr base st + 12) new (heap_mem h)\<rparr>) (A(st \<mapsto> (n, new)))"
proof -
  let ?m = "store32 (chunk_addr base st + 12) new (heap_mem h)"
  have place: "heap_placed base" and hok: "headers_ok base (heap_mem h) A" and ap: "apart A"
    using rel by (simp_all add: heap_rel_def)
  have b: "0 < n" "st + n \<le> 8192" "st < 8192" using chunk_bounds [OF hok live] by simp_all
  have "read_header ?m (chunk_addr base s) = read_header (heap_mem h) (chunk_addr base s)"
    if s: "s \<noteq> st" "A s = Some (k, z)" for s k z
  proof (rule read_header_cong)
    fix x assume "in_obj (chunk_addr base s) 16 x"
    moreover have "s < 8192" using chunk_bounds [OF hok s(2)] by simp
    ultimately have "\<not> in_obj (chunk_addr base st) 16 x" using headers_disjoint [OF place _ b(3) s(1)] by blast
    then show "?m x = heap_mem h x" using size_word_in_header by (intro store32_other) blast
  qed
  then have "headers_ok base ?m (A(st \<mapsto> (n, new)))"
    using hok live b by (auto simp: headers_ok_def read_header_resize chunk_header_def)
  moreover have "apart (A(st \<mapsto> (n, new)))"
    unfolding apart_def
  proof (intro allI impI)
    fix s k z s' k' z'
    assume e: "(A(st \<mapsto> (n, new))) s = Some (k, z)" "(A(st \<mapsto> (n, new))) s' = Some (k', z')" "s < s'"
    have "\<exists>z. A s = Some (k, z)" "\<exists>z. A s' = Some (k', z)" using e(1,2) resized_chunk [of A st n sz, OF live] by blast+
    with ap e(3) show "s + k \<le> s'" by (auto simp: apart_def)
  qed
  moreover have "covers (A(st \<mapsto> (n, new))) b = covers A b" for b
    unfolding covers_alt resized_chunk [of A st n sz, OF live] ..
  ultimately show ?thesis using rel by (simp add: heap_rel_def)
qed

text \<open>
  \<open>krealloc\<close> of a live chunk to a size that still fits its blocks returns the same
  pointer, records the new size and keeps the payload bytes.
\<close>

lemma krealloc_within_capacity:
  assumes "heap_rel base h A" and "A st = Some (n, sz)" and "new \<noteq> 0" and "unat new + 16 \<le> 32 * n"
    and "krealloc base (chunk_ptr base st) new h = (p, h')"
  shows "p = chunk_ptr base st \<and> heap_rel base h' (A(st \<mapsto> (n, new))) \<and>
    (\<forall>x. in_payload base st n x \<longrightarrow> heap_mem h' x = heap_mem h x)"
proof -
  have h': "p = chunk_ptr base st" "h' = h\<lparr>heap_mem := store32 (chunk_addr base st + 12) new (heap_mem h)\<rparr>"
    using assms(5) krealloc_in_place [OF assms(1-4)] by auto
  have "\<not> in_obj (chunk_addr base st + 12) 4 x" if "in_payload base st n x" for x
    using payload_not_header [OF assms(1,2,2) that] size_word_in_header by blast
  with h' heap_rel_resize [OF assms(1,2)] show ?thesis by (simp add: store32_other)
qed

lemma booted_chunk: "\<exists>h. heap_rel pool_base h [0 \<mapsto> (4, 100)]"
  using heap_rel_alloc [OF booted_heap_rel, of 4 0 100] by (auto simp: a_fits_def covers_def)

lemma krealloc_within_capacity_witness:
  "\<exists>h h'. heap_rel pool_base h [0 \<mapsto> (4, 100)] \<and>
     krealloc pool_base (chunk_ptr pool_base 0) 112 h = (chunk_ptr pool_base 0, h')"
proof -
  obtain h where h: "heap_rel pool_base h [0 \<mapsto> (4, 100)]" using booted_chunk by blast
  obtain p h' where run: "krealloc pool_base (chunk_ptr pool_base 0) 112 h = (p, h')" by fastforce
  have "([0 \<mapsto> (4, 100)] :: chunks) 0 = Some (4, 100)" by simp
  from krealloc_within_capacity [OF h this _ _ run] h run show ?thesis by auto
qed

lemma krealloc_moving:
  assumes rel: "heap_rel base h A" and live: "A st = Some (n, sz)" and fit: "unat sz + 16 \<le> 32 * n"
    and new: "new \<noteq> 0" "32 * n < unat new + 16"
    and m: "kmalloc base new h = (q, h1)" "q \<noteq> 0" "heap_rel base h1 A1" "A1 st = Some (n, sz)"
  shows "krealloc base (chunk_ptr base st) new h =
    (q, kfree base (chunk_ptr base st) (h1\<lparr>heap_mem := kheap_memcpy q (chunk_ptr base st) sz (heap_mem h1)\<rparr>))"
proof -
  have place: "heap_placed base" and hok: "headers_ok base (heap_mem h) A"
    and hok1: "headers_ok base (heap_mem h1) A1"
    using rel m(3) by (simp_all add: heap_rel_def)
  have b: "0 < n" "n \<le> 8192" "st < 8192" using chunk_bounds [OF hok live] by auto
  have "read_header (heap_mem h) (chunk_addr base st) = chunk_header st n sz"
    "read_header (heap_mem h1) (chunk_addr base st) = chunk_header st n sz"
    using hok live hok1 m(4) by (simp_all add: headers_ok_def)
  moreover have "sz < new" using fit new(2) by (simp add: u32_nat)
  ultimately show ?thesis
    using heap_ptr_ok [OF place b(3)] new m(1,2) capacity_le [OF b(1,2), of new]
    by (simp add: krealloc_def chunk_header_def)
qed

lemma heap_rel_bounds: "heap_rel base h A \<Longrightarrow> A st = Some (n, sz) \<Longrightarrow> 0 < n \<and> st + n \<le> 8192 \<and> st < 8192"
  using chunk_bounds by (auto simp: heap_rel_def)

lemma memcpy_payload:
  assumes place: "heap_placed base" and s: "0 < k" "s + k \<le> 8192" "unat sz + 16 \<le> 32 * k"
    and t: "0 < n" "st + n \<le> 8192" "unat sz + 16 \<le> 32 * n"
    and disj: "\<And>x. in_payload base st n x \<Longrightarrow> \<not> in_payload base s k x"
  shows "kheap_memcpy (chunk_ptr base s) (chunk_ptr base st) sz m =
    (\<lambda>x. if in_obj (chunk_ptr base s) (unat sz) x then m (chunk_ptr base st + (x - chunk_ptr base s)) else m x)"
proof (rule memcpy_eq)
  fix i assume "i < unat sz"
  then have "in_obj (chunk_ptr base st) (unat sz) (chunk_ptr base st + word_of_nat i)"
    by (intro in_obj_offset) (simp_all add: less_imp_le)
  then have "in_payload base st n (chunk_ptr base st + word_of_nat i)" by (rule in_payload_obj [OF place t])
  then have "\<not> in_payload base s k (chunk_ptr base st + word_of_nat i)" by (rule disj)
  then show "\<not> in_obj (chunk_ptr base s) (unat sz) (chunk_ptr base st + word_of_nat i)"
    using in_payload_obj [OF place s] by blast
qed

lemma moved_payload:
  assumes rel: "heap_rel base h1 A" and l: "A st = Some (n, sz)" "A s = Some (k, z)" and ne: "s \<noteq> st"
    and fit: "unat sz + 16 \<le> 32 * k" "unat sz + 16 \<le> 32 * n"
    and m: "m = (\<lambda>x. if in_obj (chunk_ptr base s) (unat sz) x
                 then heap_mem h1 (chunk_ptr base st + (x - chunk_ptr base s)) else heap_mem h1 x)"
    and rel2: "heap_rel base (h1\<lparr>heap_mem := m\<rparr>) A"
    and same: "\<And>x. \<not> in_obj (chunk_addr base s) 16 x \<Longrightarrow> heap_mem h1 x = heap_mem h x"
  shows "read_bytes (heap_mem (kfree base (chunk_ptr base st) (h1\<lparr>heap_mem := m\<rparr>))) (chunk_ptr base s) (unat sz) =
    read_bytes (heap_mem h) (chunk_ptr base st) (unat sz)"
proof (rule nth_equalityI)
  let ?q = "chunk_ptr base s" and ?old = "chunk_ptr base st"
  have place: "heap_placed base" using rel by (simp add: heap_rel_def)
  note b = heap_rel_bounds [OF rel l(1)] heap_rel_bounds [OF rel l(2)]
  fix i assume "i < length (read_bytes (heap_mem (kfree base ?old (h1\<lparr>heap_mem := m\<rparr>))) ?q (unat sz))"
  then have i: "i < unat sz" by simp
  have dst: "in_obj ?q (unat sz) (?q + word_of_nat i)" "in_obj ?old (unat sz) (?old + word_of_nat i)"
    using i by (simp_all add: in_obj_offset less_imp_le)
  have "\<not> in_obj (chunk_addr base st) 16 (?q + word_of_nat i)"
    using payload_not_header [OF rel l(2,1)] in_payload_obj [OF place _ _ fit(1) dst(1)] b by blast
  then have "\<not> in_obj (chunk_addr base st) 4 (?q + word_of_nat i)"
    using in_obj_mono [of _ 4 _ 16] by auto
  moreover have "\<not> in_obj (chunk_addr base s) 16 (?old + word_of_nat i)"
    using payload_not_header [OF rel l] in_payload_obj [OF place _ _ fit(2) dst(2)] b by blast
  ultimately show "read_bytes (heap_mem (kfree base ?old (h1\<lparr>heap_mem := m\<rparr>))) ?q (unat sz) ! i = read_bytes (heap_mem h) ?old (unat sz) ! i"
    using i dst(1) same unfolding kfree_live [OF rel2 l(1)] by (simp add: store32_other) (simp add: m)
qed simp

lemma krealloc_grow_rel:
  assumes rel: "heap_rel base h A" and live: "A st = Some (n, sz)" and fit: "unat sz + 16 \<le> 32 * n"
    and new: "32 * n < unat new + 16" "unat new + 47 < 4294967296"
    and run: "krealloc base (chunk_ptr base st) new h = (p, h')"
  shows "let n' = (unat new + 47) div 32 in
    (p = 0 \<and> h' = h \<and> (\<forall>s. \<not> a_fits A n' s)) \<or>
    (\<exists>s. p = chunk_ptr base s \<and> a_first_fit A n' s \<and> heap_rel base h' (A(s \<mapsto> (n', new), st := None)) \<and>
      read_bytes (heap_mem h') p (unat sz) = read_bytes (heap_mem h) (chunk_ptr base st) (unat sz))"
proof -
  let ?n = "(unat new + 47) div 32" and ?old = "chunk_ptr base st"
  have place: "heap_placed base" and hok: "headers_ok base (heap_mem h) A" using rel by (simp_all add: heap_rel_def)
  have b: "0 < n" "st + n \<le> 8192" "st < 8192" using chunk_bounds [OF hok live] by simp_all
  have nz: "new \<noteq> 0" using new(1) b(1) by auto
  have hdr: "read_header (heap_mem h) (chunk_addr base st) = chunk_header st n sz"
    using hok live by (simp add: headers_ok_def)
  obtain q h1 where q: "kmalloc base new h = (q, h1)" by fastforce
  show ?thesis
  proof (cases "q = 0")
    case True
    have "h1 = h \<and> (\<forall>s. \<not> a_fits A ?n s)"
      using kmalloc_rel [OF rel nz refl _ q] True new(2) by (auto simp: blocks_for_unat)
    moreover have "krealloc base ?old new h = (0, h1)"
      using heap_ptr_ok [OF place b(3)] nz q True b capacity_le [of n new] new(1) hdr
      by (simp add: krealloc_def chunk_header_def)
    ultimately show ?thesis using run by (simp add: Let_def)
  next
    case False
    obtain s where s: "q = chunk_ptr base s" "a_first_fit A ?n s" "heap_rel base h1 (A(s \<mapsto> (?n, new)))" "A s = None"
      and same: "\<And>x. \<not> in_obj (chunk_addr base s) 16 x \<Longrightarrow> heap_mem h1 x = heap_mem h x"
      using kmalloc_chunk [OF rel nz new(2) q False] by metis
    let ?A = "A(s \<mapsto> (?n, new))"
    have ne: "s \<noteq> st" using s(4) live by auto
    have l: "?A st = Some (n, sz)" "?A s = Some (?n, new)" using live ne by simp_all
    have ap: "apart ?A" using s(3) by (simp add: heap_rel_def)
    have bs: "0 < ?n" "s + ?n \<le> 8192" "s < 8192"
      using s(2) by (auto simp: a_first_fit_def a_fits_def)
    have small: "unat sz + 16 \<le> 32 * ?n" using fit new(1) payload_fits [of new] by linarith
    let ?m = "kheap_memcpy q ?old sz (heap_mem h1)"
    have m: "?m = (\<lambda>x. if in_obj q (unat sz) x then heap_mem h1 (?old + (x - q)) else heap_mem h1 x)"
      unfolding s(1) using payloads_disjoint [OF ap l ne [symmetric]]
      by (intro memcpy_payload [OF place bs(1,2) small b(1,2) fit]) blast
    let ?h2 = "h1\<lparr>heap_mem := ?m\<rparr>"
    have rel2: "heap_rel base ?h2 ?A"
      unfolding m using in_payload_obj [OF place bs(1,2) small] s(1)
      by (intro heap_rel_payload_write [OF s(3) l(2)]) auto
    have res: "p = q" "h' = kfree base ?old ?h2"
      using krealloc_moving [OF rel live fit nz new(1) q False s(3) l(1)] run by simp_all
    have "heap_rel base h' (?A(st := None))" unfolding res by (rule kfree_rel [OF rel2 l(1)])
    moreover have "read_bytes (heap_mem h') p (unat sz) = read_bytes (heap_mem h) ?old (unat sz)"
      unfolding res unfolding s(1)
      by (rule moved_payload [OF s(3) l ne small fit _ rel2 [unfolded s(1)] same]) (simp add: m [unfolded s(1)])
    ultimately show ?thesis using s(1,2) res(1) by (auto simp: Let_def)
  qed
qed

lemma chunk_ptr_inj:
  "heap_placed base \<Longrightarrow> st < 8192 \<Longrightarrow> s < 8192 \<Longrightarrow> chunk_ptr base st = chunk_ptr base s \<longleftrightarrow> st = s"
  using chunk_ptr_unat by (metis add_right_cancel add_left_cancel mult_cancel_left zero_neq_numeral)

lemma fresh_chunk:
  assumes "heap_rel base h A" "a_first_fit A n st" "0 < n"
  shows "st < 8192 \<and> A st = None"
  using assms a_fits_fresh [of A n st] by (auto simp: a_first_fit_def a_fits_def heap_rel_def headers_ok_def)

text \<open>
  C24: \<open>krealloc\<close> of a live chunk to a size beyond its capacity, for sizes whose block count
  does not wrap (\<open>new + 47 < 2 ^ 32\<close>; beyond that the code reserves one block and copies
  past it, see \<open>Kheap_Limits\<close>): either no gap is large enough, then NULL is returned and the
  old chunk is untouched; or a new chunk is returned, at the first gap, that holds the old
  payload byte for byte, the old chunk is freed and the heap stays well formed.
\<close>

theorem krealloc_moves:
  assumes rel: "heap_rel base h A" and live: "A st = Some (n, sz)" and fit: "unat sz + 16 \<le> 32 * n"
    and new: "32 * n < unat new + 16" "unat new + 47 < 4294967296"
    and run: "krealloc base (chunk_ptr base st) new h = (p, h')"
  shows "let n' = (unat new + 47) div 32 in
    (p = 0 \<and> h' = h \<and> (\<forall>s. \<not> a_fits A n' s)) \<or>
    (\<exists>s. p = chunk_ptr base s \<and> a_first_fit A n' s \<and> heap_rel base h' (A(s \<mapsto> (n', new), st := None)) \<and>
      read_bytes (heap_mem h') p (unat sz) = read_bytes (heap_mem h) (chunk_ptr base st) (unat sz))"
  by (rule krealloc_grow_rel [OF assms])

theorem krealloc_moves_witness:
  "\<exists>h p h'. heap_rel pool_base h [0 \<mapsto> (4, 100)] \<and> p \<noteq> 0 \<and> p \<noteq> chunk_ptr pool_base 0 \<and>
     krealloc pool_base (chunk_ptr pool_base 0) 500 h = (p, h') \<and>
     read_bytes (heap_mem h') p 100 = read_bytes (heap_mem h) (chunk_ptr pool_base 0) 100"
proof -
  have place: "heap_placed pool_base" by (simp add: heap_placed_def pool_base_def)
  obtain h where h: "heap_rel pool_base h [0 \<mapsto> (4, 100)]" using booted_chunk by blast
  obtain p h' where run: "krealloc pool_base (chunk_ptr pool_base 0) 500 h = (p, h')" by fastforce
  have l: "([0 \<mapsto> (4, 100)] :: chunks) 0 = Some (4, 100)" by simp
  have gap: "a_fits [0 \<mapsto> (4, 100)] 17 4" by (auto simp: a_fits_def covers_def)
  obtain s where s: "p = chunk_ptr pool_base s" "a_first_fit [0 \<mapsto> (4, 100)] 17 s"
    "read_bytes (heap_mem h') p 100 = read_bytes (heap_mem h) (chunk_ptr pool_base 0) 100"
    using krealloc_moves [OF h l _ _ _ run] gap by (auto simp: Let_def simp del: fun_upd_apply)
  have "s \<noteq> 0" "s < 8192" using fresh_chunk [OF h s(2)] by (auto split: if_splits)
  then have "p \<noteq> 0" "p \<noteq> chunk_ptr pool_base 0" using heap_ptr_ok [OF place] chunk_ptr_inj [OF place] s(1) by auto
  with h run s(3) show ?thesis by blast
qed

section \<open>Every sequence of operations\<close>

text \<open>
  Any client of the heap after \<open>kheap_init\<close>, with the client's own book-keeping \<open>P\<close> of the
  pointers it holds and the sizes it asked for: it allocates, reallocates and frees what
  it holds, and stores into the bytes it asked for. Requests whose size arithmetic
  overflows are left out.
\<close>

inductive heap_reachable :: "u32 \<Rightarrow> kheap_state \<Rightarrow> (u32 \<rightharpoonup> u32) \<Rightarrow> bool" for base where
  init: "length (kheap_bitmap h) = 1024 \<Longrightarrow> heap_reachable base (kheap_init base h) Map.empty"
| malloc: "heap_reachable base h P \<Longrightarrow> sz \<noteq> 0 \<Longrightarrow> unat sz + 47 < 4294967296 \<Longrightarrow>
    kmalloc base sz h = (p, h') \<Longrightarrow>
    heap_reachable base h' (if p = 0 then P else P(p \<mapsto> sz))"
| calloc: "heap_reachable base h P \<Longrightarrow> num \<noteq> 0 \<Longrightarrow> sz \<noteq> 0 \<Longrightarrow> unat num * unat sz + 47 < 4294967296 \<Longrightarrow>
    kcalloc base num sz h = (p, h') \<Longrightarrow>
    heap_reachable base h' (if p = 0 then P else P(p \<mapsto> num * sz))"
| realloc: "heap_reachable base h P \<Longrightarrow> P p = Some sz \<Longrightarrow> new \<noteq> 0 \<Longrightarrow> unat new + 47 < 4294967296 \<Longrightarrow>
    krealloc base p new h = (q, h') \<Longrightarrow>
    heap_reachable base h' (if q = 0 then P else P(p := None, q \<mapsto> new))"
| free: "heap_reachable base h P \<Longrightarrow> P p = Some sz \<Longrightarrow>
    heap_reachable base (kfree base p h) (P(p := None))"
| store: "heap_reachable base h P \<Longrightarrow> P p = Some sz \<Longrightarrow> in_obj p (unat sz) x \<Longrightarrow>
    heap_reachable base (h\<lparr>heap_mem := (heap_mem h)(x := v)\<rparr>) P"

text \<open>The client's pointers are the payload addresses of the live chunks.\<close>

definition client_view :: "u32 \<Rightarrow> chunks \<Rightarrow> (u32 \<rightharpoonup> u32) \<Rightarrow> bool" where
  "client_view base A P \<longleftrightarrow>
     (\<forall>st n z. A st = Some (n, z) \<longrightarrow> unat z + 16 \<le> 32 * n \<and> P (chunk_ptr base st) = Some z) \<and>
     (\<forall>p z. P p = Some z \<longrightarrow> (\<exists>st n. p = chunk_ptr base st \<and> A st = Some (n, z)))"

lemma client_viewD:
  "client_view base A P \<Longrightarrow> P p = Some z \<Longrightarrow> \<exists>st n. p = chunk_ptr base st \<and> A st = Some (n, z) \<and> unat z + 16 \<le> 32 * n"
  by (fastforce simp: client_view_def)

definition in_pool :: "chunks \<Rightarrow> bool" where
  "in_pool A \<longleftrightarrow> (\<forall>st c. A st = Some c \<longrightarrow> st < 8192)"

lemma in_poolD: "in_pool A \<Longrightarrow> A st = Some c \<Longrightarrow> st < 8192"
  by (simp add: in_pool_def)

lemma heap_rel_in_pool: "heap_rel base h A \<Longrightarrow> in_pool A"
  using heap_rel_bounds by (auto simp: in_pool_def)

lemma client_view_alloc:
  assumes "client_view base A P" "heap_placed base" "in_pool A" "s < 8192" "A s = None" "unat z + 16 \<le> 32 * n"
  shows "client_view base (A(s \<mapsto> (n, z))) (P(chunk_ptr base s \<mapsto> z))"
proof -
  have other: "chunk_ptr base st \<noteq> chunk_ptr base s" if "A st = Some c" for st c
    using that assms(5) chunk_ptr_inj [OF assms(2) in_poolD [OF assms(3) that] assms(4)] by auto
  show ?thesis
    unfolding client_view_def
  proof (intro conjI allI impI)
    fix st k y
    assume a: "(A(s \<mapsto> (n, z))) st = Some (k, y)"
    then show "unat y + 16 \<le> 32 * k"
      using assms(1,6) by (auto simp: client_view_def split: if_splits)
    show "(P(chunk_ptr base s \<mapsto> z)) (chunk_ptr base st) = Some y"
      using a assms(1) other by (auto simp: client_view_def split: if_splits)
  next
    fix p y
    assume p: "(P(chunk_ptr base s \<mapsto> z)) p = Some y"
    show "\<exists>st n'. p = chunk_ptr base st \<and> (A(s \<mapsto> (n, z))) st = Some (n', y)"
    proof (cases "p = chunk_ptr base s")
      case True
      with p show ?thesis by auto
    next
      case False
      then have "P p = Some y" using p by simp
      then obtain st k where "p = chunk_ptr base st" "A st = Some (k, y)"
        using client_viewD [OF assms(1)] by blast
      with assms(5) show ?thesis by (intro exI [of _ st] exI [of _ k]) auto
    qed
  qed
qed

lemma client_view_free:
  assumes "client_view base A P" "heap_placed base" "in_pool A" "A s = Some (n, z)"
  shows "client_view base (A(s := None)) (P(chunk_ptr base s := None))"
proof -
  have other: "chunk_ptr base st = chunk_ptr base s \<longleftrightarrow> st = s" if "A st = Some c" for st c
    using that chunk_ptr_inj [OF assms(2)] in_poolD [OF assms(3)] assms(4) by blast
  show ?thesis
    using assms(1) other unfolding client_view_def by (auto split: if_splits) blast
qed

lemma client_view_move:
  assumes v: "client_view base A P" and rel: "heap_placed base" "in_pool A" and live: "A st = Some (n, sz)"
    and s: "s < 8192" "A s = None" "unat new + 16 \<le> 32 * k"
  shows "client_view base (A(s \<mapsto> (k, new), st := None)) (P(chunk_ptr base st := None, chunk_ptr base s \<mapsto> new))"
proof -
  have ne: "s \<noteq> st" using s(2) live by auto
  then have l: "(A(s \<mapsto> (k, new))) st = Some (n, sz)" using live by simp
  have "in_pool (A(s \<mapsto> (k, new)))" using rel(2) s(1) by (simp add: in_pool_def)
  from client_view_free [OF client_view_alloc [OF v rel s] rel(1) this l]
  have "client_view base (A(s \<mapsto> (k, new), st := None)) (P(chunk_ptr base s \<mapsto> new, chunk_ptr base st := None))" .
  moreover have "chunk_ptr base s \<noteq> chunk_ptr base st"
    using ne s(1) chunk_ptr_inj [OF rel(1) s(1)] rel(2) live by (auto simp: in_pool_def)
  ultimately show ?thesis by (simp add: fun_upd_twist)
qed

lemma client_view_resize:
  assumes v: "client_view base A P" and rel: "heap_placed base" "in_pool A" and live: "A st = Some (n, sz)"
    and new: "unat new + 16 \<le> 32 * n"
  shows "client_view base (A(st \<mapsto> (n, new))) (P(chunk_ptr base st := None, chunk_ptr base st \<mapsto> new))"
proof -
  have "st < 8192" using rel(2) live by (auto simp: in_pool_def)
  moreover have "in_pool (A(st := None))" using rel(2) by (simp add: in_pool_def)
  ultimately show ?thesis
    using client_view_alloc [OF client_view_free [OF v rel live] rel(1), of st new n] new by simp
qed

lemma kmalloc_view:
  assumes A: "heap_rel base h A" "client_view base A P" and sz: "sz \<noteq> 0" "unat sz + 47 < 4294967296"
    and run: "kmalloc base sz h = (p, h')"
  shows "\<exists>A. heap_rel base h' A \<and> client_view base A (if p = 0 then P else P(p \<mapsto> sz))"
proof (cases "p = 0")
  case True
  have "h' = h" using kmalloc_rel [OF A(1) sz(1) refl _ run] sz(2) True by (auto simp: blocks_for_unat)
  with A True show ?thesis by auto
next
  case False
  have place: "heap_placed base" using A(1) by (simp add: heap_rel_def)
  obtain st where st: "p = chunk_ptr base st" "a_first_fit A ((unat sz + 47) div 32) st"
    "heap_rel base h' (A(st \<mapsto> ((unat sz + 47) div 32, sz)))"
    using kmalloc_chunk [OF A(1) sz run False] by metis
  have "client_view base (A(st \<mapsto> ((unat sz + 47) div 32, sz))) (P(p \<mapsto> sz))"
    unfolding st(1) using fresh_chunk [OF A(1) st(2)]
    by (intro client_view_alloc [OF A(2) place heap_rel_in_pool [OF A(1)]] payload_fits) simp_all
  with st(3) False show ?thesis by (simp only: if_False) blast
qed

lemma kcalloc_view:
  assumes A: "heap_rel base h A" "client_view base A P"
    and sz: "num \<noteq> 0" "sz \<noteq> 0" "unat num * unat sz + 47 < 4294967296"
    and run: "kcalloc base num sz h = (p, h')"
  shows "\<exists>A. heap_rel base h' A \<and> client_view base A (if p = 0 then P else P(p \<mapsto> num * sz))"
  using kcalloc_rel [OF A(1) sz run]
proof (elim disjE exE conjE)
  assume "p = 0" "h' = h"
  with A show ?thesis by auto
next
  fix st n
  assume st: "A st = None" "p = chunk_ptr base st" "heap_rel base h' (A(st \<mapsto> (n, num * sz)))"
    and fit: "unat num * unat sz + 16 \<le> 32 * n"
  have place: "heap_placed base" using A(1) by (simp add: heap_rel_def)
  have u: "unat (num * sz) = unat num * unat sz" using sz(3) by (intro unat_mult_u32) simp
  have b: "st < 8192" using heap_rel_in_pool [OF st(3)] by (auto simp: in_pool_def)
  have "client_view base (A(st \<mapsto> (n, num * sz))) (P(p \<mapsto> num * sz))"
    unfolding st(2) using st(1) fit b u
    by (intro client_view_alloc [OF A(2) place heap_rel_in_pool [OF A(1)]]) simp_all
  moreover have "p \<noteq> 0" unfolding st(2) using heap_ptr_ok [OF place b] by simp
  ultimately show ?thesis using st(3) by (simp only: if_False) blast
qed

lemma krealloc_view:
  assumes A: "heap_rel base h A" "client_view base A P" and p: "P p = Some sz"
    and new: "new \<noteq> 0" "unat new + 47 < 4294967296" and run: "krealloc base p new h = (q, h')"
  shows "\<exists>A. heap_rel base h' A \<and> client_view base A (if q = 0 then P else P(p := None, q \<mapsto> new))"
proof -
  have place: "heap_placed base" using A(1) by (simp add: heap_rel_def)
  obtain st n where st: "p = chunk_ptr base st" "A st = Some (n, sz)" "unat sz + 16 \<le> 32 * n"
    using client_viewD [OF A(2) p] by blast
  note pool = heap_rel_in_pool [OF A(1)]
  have nz: "chunk_ptr base s \<noteq> 0" if "s < 8192" for s using heap_ptr_ok [OF place that] by simp
  show ?thesis
  proof (cases "unat new + 16 \<le> 32 * n")
    case True
    have "q = p" "h' = h\<lparr>heap_mem := store32 (chunk_addr base st + 12) new (heap_mem h)\<rparr>"
      using run krealloc_in_place [OF A(1) st(2) new(1) True] st(1) by auto
    moreover have "q \<noteq> 0" using \<open>q = p\<close> nz [OF in_poolD [OF pool st(2)]] st(1) by simp
    ultimately show ?thesis
      using heap_rel_resize [OF A(1) st(2)] client_view_resize [OF A(2) place pool st(2) True] st(1)
      by (simp only: if_False) blast
  next
    case False
    then have grow: "32 * n < unat new + 16" by simp
    from krealloc_grow_rel [OF A(1) st(2,3) grow new(2) run [unfolded st(1)]] show ?thesis
      unfolding Let_def
    proof (elim disjE exE conjE)
      assume "q = 0" "h' = h"
      with A show ?thesis by auto
    next
      fix s
      let ?k = "(unat new + 47) div 32"
      assume s: "q = chunk_ptr base s" "a_first_fit A ?k s" "heap_rel base h' (A(s \<mapsto> (?k, new), st := None))"
      have f: "s < 8192" "A s = None" using fresh_chunk [OF A(1) s(2)] by simp_all
      from client_view_move [OF A(2) place pool st(2) f payload_fits [of new]] s(1,3) nz [OF f(1)] st(1)
      show ?thesis by (simp only: if_False) blast
    qed
  qed
qed

text \<open>In every reachable state the client's pointers are exactly the live chunks of a well-formed heap.\<close>

lemma heap_reachable_view:
  assumes "heap_reachable base h P" "heap_placed base"
  shows "\<exists>A. heap_rel base h A \<and> client_view base A P"
  using assms
proof (induction rule: heap_reachable.induct)
  case (init h)
  then have "heap_rel base (kheap_init base h) Map.empty" by (intro kheap_init_rel)
  then show ?case by (auto simp: client_view_def)
next
  case (malloc h P sz p h')
  then show ?case using kmalloc_view by blast
next
  case (calloc h P num sz p h')
  then show ?case using kcalloc_view by blast
next
  case (realloc h P p sz new q h')
  then show ?case using krealloc_view by blast
next
  case (free h P p sz)
  then obtain A where A: "heap_rel base h A" "client_view base A P" by blast
  obtain st n where st: "p = chunk_ptr base st" "A st = Some (n, sz)"
    using client_viewD [OF A(2) free.hyps(2)] by blast
  show ?case
    using kfree_rel [OF A(1) st(2)] client_view_free [OF A(2) free.prems heap_rel_in_pool [OF A(1)] st(2)]
    unfolding st(1) by blast
next
  case (store h P p sz x v)
  then obtain A where A: "heap_rel base h A" "client_view base A P" by blast
  obtain st n where st: "p = chunk_ptr base st" "A st = Some (n, sz)" "unat sz + 16 \<le> 32 * n"
    using client_viewD [OF A(2) store.hyps(2)] by blast
  have "in_payload base st n x"
    using in_payload_obj [OF store.prems _ _ st(3)] heap_rel_bounds [OF A(1) st(2)] store.hyps(3) st(1) by blast
  then have "heap_rel base (h\<lparr>heap_mem := (heap_mem h)(x := v)\<rparr>) A"
    by (intro heap_rel_payload_write [OF A(1) st(2)]) auto
  with A(2) show ?case by blast
qed

text \<open>
  C9: Memory safety of the heap over sequences of operations: in every state a client can
  reach after \<open>kheap_init\<close> by allocating, reallocating, freeing and writing into its own
  bytes, where it asks for sizes whose block count does not wrap (\<open>size + 47 < 2 ^ 32\<close>; a
  larger size is granted one block, see \<open>Kheap_Limits\<close>), the byte range of each pointer it
  holds lies inside the 256 KiB pool and is disjoint from the range of every other one.
\<close>

theorem heap_blocks_disjoint:
  assumes "heap_reachable base h P" and "heap_placed base" and "P p = Some sz"
  shows "unat base + 16 \<le> unat p \<and> unat p + unat sz \<le> unat base + 262144 \<and>
    (\<forall>q sz' x. P q = Some sz' \<and> q \<noteq> p \<and> in_obj p (unat sz) x \<longrightarrow> \<not> in_obj q (unat sz') x)"
proof -
  obtain A where A: "heap_rel base h A" "client_view base A P"
    using heap_reachable_view [OF assms(1,2)] by blast
  obtain st n where st: "p = chunk_ptr base st" "A st = Some (n, sz)" "unat sz + 16 \<le> 32 * n"
    using client_viewD [OF A(2) assms(3)] by blast
  note b = heap_rel_bounds [OF A(1) st(2)]
  have "\<not> in_obj q (unat sz') x" if q: "P q = Some sz'" "q \<noteq> p" "in_obj p (unat sz) x" for q sz' x
  proof -
    obtain s k where s: "q = chunk_ptr base s" "A s = Some (k, sz')" "unat sz' + 16 \<le> 32 * k"
      using client_viewD [OF A(2) q(1)] by blast
    have "apart A" "st \<noteq> s" using A(1) q(2) st(1) s(1) by (auto simp: heap_rel_def)
    note d = payloads_disjoint [OF this(1) st(2) s(2) this(2)]
    show ?thesis
      using d in_payload_obj [OF assms(2) _ _ st(3)] in_payload_obj [OF assms(2) _ _ s(3)] b
        heap_rel_bounds [OF A(1) s(2)] st(1) s(1) q(3) by blast
  qed
  moreover have "unat p = unat base + 32 * st + 16" unfolding st(1) using b by (intro chunk_ptr_unat [OF assms(2)]) simp
  ultimately show ?thesis using b st(3) by auto
qed

theorem heap_blocks_disjoint_witness:
  "\<exists>h p q. heap_reachable pool_base h [p \<mapsto> 100, q \<mapsto> 64] \<and> p \<noteq> q \<and>
     (\<forall>x. in_obj p 100 x \<longrightarrow> \<not> in_obj q 64 x)"
proof -
  have place: "heap_placed pool_base" by (simp add: heap_placed_def pool_base_def)
  have r0: "heap_reachable pool_base booted_heap Map.empty"
    unfolding booted_heap_def by (intro heap_reachable.init) simp
  obtain p h1 where m1: "kmalloc pool_base 100 booted_heap = (p, h1)" by fastforce
  have "a_fits Map.empty 4 0" by (simp add: a_fits_def covers_def)
  moreover have "unat (blocks_for 100) = 4" by (simp add: blocks_for_unat)
  ultimately have c1: "p = chunk_ptr pool_base 0 \<and> heap_rel pool_base h1 [0 \<mapsto> (4, 100)]"
    using kmalloc_rel [OF booted_heap_rel _ refl _ m1] by (auto simp: empty_first_fit)
  have p: "p \<noteq> 0" using c1 heap_ptr_ok [OF place, of 0] by simp
  have r1: "heap_reachable pool_base h1 [p \<mapsto> 100]"
    using heap_reachable.malloc [OF r0 _ _ m1] p by simp
  obtain q h2 where m2: "kmalloc pool_base 64 h1 = (q, h2)" by fastforce
  have "a_fits [0 \<mapsto> (4, 100)] 3 4" by (auto simp: a_fits_def covers_def)
  moreover have "unat (blocks_for 64) = 3" by (simp add: blocks_for_unat)
  ultimately obtain s where s: "q = chunk_ptr pool_base s" "a_first_fit [0 \<mapsto> (4, 100)] 3 s"
    using kmalloc_rel [OF conjunct2 [OF c1] _ refl _ m2] by auto
  have "s \<noteq> 0" "s < 8192" using fresh_chunk [OF conjunct2 [OF c1] s(2)] by (auto split: if_splits)
  then have q: "q \<noteq> 0" "p \<noteq> q" using heap_ptr_ok [OF place] chunk_ptr_inj [OF place] c1 s(1) by auto
  have r2: "heap_reachable pool_base h2 [p \<mapsto> 100, q \<mapsto> 64]"
    using heap_reachable.malloc [OF r1 _ _ m2] q by simp
  from heap_blocks_disjoint [OF r2 place, of p 100] q have "\<forall>x. in_obj p 100 x \<longrightarrow> \<not> in_obj q 64 x"
    by (auto dest: spec [of _ q])
  with q r2 show ?thesis by blast
qed

end
