(* ===== verification/Kheap_Limits.thy ===== *)
theory Kheap_Limits
  imports Kheap_Props
begin

text \<open>
  The limits of the bitmap heap: the memory statistics of \<open>kheap_get_used_memory\<close> and
  \<open>kheap_get_free_memory\<close> in terms of the live chunks, and what \<open>kmalloc\<close> and \<open>kcalloc\<close>
  do when the 32-bit size arithmetic wraps around.
\<close>

section \<open>Memory statistics\<close>

lemma count_fold:
  "fold (\<lambda>i (k :: u32). if P i then k + 1 else k) xs k = k + word_of_nat (length (filter P xs))"
  by (induction xs arbitrary: k) (simp_all add: ac_simps)

definition live_blocks :: "chunks \<Rightarrow> nat" where
  "live_blocks A = (\<Sum>st \<in> dom A. fst (the (A st)))"

lemma covers_union: "{b. covers A b} = (\<Union>st \<in> dom A. {st..<st + fst (the (A st))})"
  by (force simp: covers_def)

lemma heap_rel_finite: "heap_rel base h A \<Longrightarrow> finite (dom A)"
proof -
  assume "heap_rel base h A"
  from heap_rel_in_pool [OF this] have "dom A \<subseteq> {..<8192}" by (auto simp: in_pool_def)
  then show ?thesis using finite_subset by blast
qed

lemma card_covered:
  assumes "heap_rel base h A"
  shows "card {b. covers A b} = live_blocks A"
proof -
  have ap: "apart A" using assms by (simp add: heap_rel_def)
  have "{s..<s + fst (the (A s))} \<inter> {t..<t + fst (the (A t))} = {}" if d: "s \<in> dom A" "t \<in> dom A" "s \<noteq> t" for s t
  proof -
    from d obtain k z k' z' where A: "A s = Some (k, z)" "A t = Some (k', z')" by auto
    have "s + k \<le> t \<or> t + k' \<le> s"
      using ap A d(3) unfolding apart_def by (metis linorder_neqE_nat)
    with A show ?thesis by auto
  qed
  then show ?thesis
    unfolding covers_union live_blocks_def using heap_rel_finite [OF assms]
    by (subst card_UN_disjoint) auto
qed

lemma used_blocks:
  assumes "heap_rel base h A"
  shows "length (filter (\<lambda>i. bitmap_test (word_of_nat i) (kheap_bitmap h)) [0..<8192]) = live_blocks A"
proof -
  have "length (filter (\<lambda>i. bitmap_test (word_of_nat i) (kheap_bitmap h)) [0..<8192]) =
      card {b. covers A b}"
    unfolding distinct_card [OF distinct_filter [OF distinct_upt], symmetric]
  proof (intro arg_cong [where f = card] set_eqI)
    fix b
    have "covers A b \<Longrightarrow> b < 8192" using heap_rel_bounds [OF assms] by (fastforce simp: covers_def)
    then show "b \<in> set (filter (\<lambda>i. bitmap_test (word_of_nat i) (kheap_bitmap h)) [0..<8192]) \<longleftrightarrow> b \<in> {b. covers A b}"
      using assms by (auto simp: heap_rel_def used_def)
  qed
  then show ?thesis by (simp add: card_covered [OF assms])
qed

lemma memory_statistics:
  assumes "heap_rel base h A"
  shows "live_blocks A \<le> 8192" "unat (kheap_get_used_memory h) = 32 * live_blocks A"
    "unat (kheap_get_free_memory h) = 262144 - 32 * live_blocks A"
proof -
  show le: "live_blocks A \<le> 8192"
    using used_blocks [OF assms] length_filter_le [of _ "[0..<8192]"] by (metis diff_zero length_upt)
  show u: "unat (kheap_get_used_memory h) = 32 * live_blocks A"
    using le unfolding kheap_get_used_memory_def count_fold used_blocks [OF assms]
    by (subst unat_mult_u32) (simp_all add: unat_of_nat_u32)
  show "unat (kheap_get_free_memory h) = 262144 - 32 * live_blocks A"
    using u le unfolding kheap_get_free_memory_def
    by (subst unat_sub) (simp_all add: u32_nat kheap_get_total_memory_def)
qed

text \<open>
  The heap statistics are exact: \<open>kheap_get_used_memory\<close> is 32 bytes for every block of
  a live chunk, and used and free memory add up to the 262144 bytes of the pool without
  wrapping around.
\<close>

lemma kheap_statistics_exact:
  assumes "heap_rel base h A"
  shows "unat (kheap_get_used_memory h) = 32 * live_blocks A \<and>
    unat (kheap_get_used_memory h) + unat (kheap_get_free_memory h) = unat kheap_get_total_memory"
  using memory_statistics [OF assms] by (simp add: kheap_get_total_memory_def)

section \<open>Size arithmetic that wraps around\<close>

lemma blocks_for_wrapped:
  assumes "4294967281 \<le> unat sz"
  shows "unat (blocks_for sz) = 1"
proof -
  have e: "16 + sz + 32 - 1 = sz + 47" by simp
  have "unat (sz + 47) = (unat sz + 47) mod 4294967296" by (simp add: unat_word_ariths)
  also have "\<dots> = unat sz + 47 - 4294967296"
    using assms unat_lt_2p32 [of sz] by (subst le_mod_geq, linarith, intro mod_less) linarith
  finally have "32 * 1 \<le> unat (sz + 47) \<and> unat (sz + 47) < 32 * 2" using assms unat_lt_2p32 [of sz] by linarith
  then have "unat (sz + 47) div 32 = 1" by (intro div_nat_eqI) simp_all
  then show ?thesis unfolding blocks_for_def e by (simp add: unat_div)
qed

text \<open>
  C39: A request of \<open>2^32 - 15\<close> bytes or more is not refused: \<open>sizeof(header) + size\<close> wraps
  around, and \<open>kmalloc\<close> hands out a chunk of one 32-byte block, with 16 bytes of payload,
  whenever some block is free.
\<close>

theorem kmalloc_size_wraps:
  assumes "heap_rel base h A" and "4294967281 \<le> unat sz" and "kmalloc base sz h = (p, h')"
    and "a_fits A 1 b"
  shows "\<exists>st. p = chunk_ptr base st \<and> p \<noteq> 0 \<and> heap_rel base h' (A(st \<mapsto> (1, sz)))"
proof -
  have "sz \<noteq> 0" using assms(2) by auto
  from kmalloc_rel [OF assms(1) this blocks_for_wrapped [OF assms(2), symmetric] _ assms(3)] assms(4)
  show ?thesis by auto
qed

theorem kmalloc_size_wraps_witness:
  "\<exists>h'. kmalloc pool_base 0xFFFFFFFF booted_heap = (chunk_ptr pool_base 0, h')"
proof -
  obtain p h' where run: "kmalloc pool_base 0xFFFFFFFF booted_heap = (p, h')" by fastforce
  have fit: "a_fits Map.empty 1 0" by (simp add: a_fits_def covers_def)
  have big: "4294967281 \<le> unat (0xFFFFFFFF :: u32)" by simp
  obtain st where st: "p = chunk_ptr pool_base st" "p \<noteq> 0"
    using kmalloc_size_wraps [OF booted_heap_rel big run fit] by blast
  from kmalloc_rel [OF booted_heap_rel _ blocks_for_wrapped [OF big, symmetric] _ run] st(2) run
  show ?thesis by (auto simp: empty_first_fit)
qed

text \<open>
  \<open>kcalloc\<close> does not detect that the product of its arguments overflows: for 65536
  elements of 65537 bytes (more than 4 GiB) on the fresh heap it succeeds with a chunk for
  65536 bytes.
\<close>

lemma kcalloc_product_wraps:
  "\<exists>p h'. kcalloc pool_base 0x10000 0x10001 booted_heap = (p, h') \<and> p \<noteq> 0 \<and>
     heap_rel pool_base h' [0 \<mapsto> (2049, 65536)] \<and>
     unat (0x10000 :: u32) * unat (0x10001 :: u32) = 4295032832"
proof -
  obtain q h1 where m: "kmalloc pool_base 65536 booted_heap = (q, h1)" by fastforce
  have "a_fits Map.empty 2049 0" by (simp add: a_fits_def covers_def)
  moreover have n: "unat (blocks_for 65536) = 2049" by (simp add: blocks_for_unat)
  ultimately have q: "q = chunk_ptr pool_base 0" "q \<noteq> 0" "heap_rel pool_base h1 [0 \<mapsto> (2049, 65536)]"
    using kmalloc_rel [OF booted_heap_rel _ refl _ m] by (auto simp: empty_first_fit)
  have prod: "(0x10000 * 0x10001 :: u32) = 65536" by simp
  have place: "heap_placed pool_base" using q(3) by (simp add: heap_rel_def)
  let ?h = "h1\<lparr>heap_mem := kheap_memset q 0 65536 (heap_mem h1)\<rparr>"
  have "kcalloc pool_base 0x10000 0x10001 booted_heap = (q, ?h)"
    unfolding kcalloc_def prod Let_def m using q(2) by simp
  moreover have "heap_rel pool_base ?h [0 \<mapsto> (2049, 65536)]"
    using in_payload_obj [OF place, of 2049 0 65536] q(1)
    by (intro heap_rel_payload_write [OF q(3), of 0 2049 65536]) (auto simp: memset_eq)
  ultimately show ?thesis using q(2) by auto
qed

end
