(* ===== verification/Tokenize.thy ===== *)
theory Tokenize
  imports Prelude
begin

text \<open>
  \<open>tokenize\<close> of \<open>userland/shell/shell.c\<close>: the in-place splitting of the command line. The
  line buffer is a list of bytes with a NUL somewhere, pointers into it are offsets, and
  \<open>argv\<close> is an array of pointers (\<open>None\<close> is NULL). Storing the final NULL behind the last
  argument is a write to \<open>args[count]\<close>; beyond the array it is the error
  \<open>Argv_overflow\<close>.
\<close>

datatype token_error = Argv_overflow

definition is_blank :: "byte \<Rightarrow> bool" where
  "is_blank c \<longleftrightarrow> c = 32 \<or> c = 9 \<or> c = 10 \<or> c = 13"

function skip_blanks :: "byte list \<Rightarrow> nat \<Rightarrow> nat" where
  "skip_blanks line p = (if p < length line \<and> is_blank (line ! p) then skip_blanks line (p + 1) else p)"
  by pat_completeness auto
termination
  by (relation "measure (\<lambda>(line, p). length line - p)") auto

function scan_word :: "byte list \<Rightarrow> nat \<Rightarrow> nat" where
  "scan_word line p =
     (if p < length line \<and> line ! p \<noteq> 0 \<and> \<not> is_blank (line ! p) then scan_word line (p + 1) else p)"
  by pat_completeness auto
termination
  by (relation "measure (\<lambda>(line, p). length line - p)") auto

declare skip_blanks.simps [simp del] scan_word.simps [simp del]

definition at_end :: "byte list \<Rightarrow> nat \<Rightarrow> bool" where
  "at_end line p \<longleftrightarrow> length line \<le> p \<or> line ! p = 0"

function tokenize_loop ::
  "nat \<Rightarrow> byte list \<Rightarrow> nat option list \<Rightarrow> nat \<Rightarrow> nat \<Rightarrow> byte list \<times> nat option list \<times> nat" where
  "tokenize_loop max_args line args p count =
     (if \<not> at_end line p \<and> count < max_args then
        (let q = skip_blanks line p in
         if at_end line q then (line, args, count)
         else
           (let args = args[count := Some q];
                e = scan_word line q
            in if \<not> at_end line e then tokenize_loop max_args (line[e := 0]) args (e + 1) (count + 1)
               else tokenize_loop max_args line args e (count + 1)))
      else (line, args, count))"
  by pat_completeness auto
termination
  by (relation "measure (\<lambda>(max_args, line, args, p, count). max_args - count)") auto

declare tokenize_loop.simps [simp del]

definition tokenize :: "byte list \<Rightarrow> nat option list \<Rightarrow> nat \<Rightarrow> token_error + nat \<times> byte list \<times> nat option list" where
  "tokenize line args max_args =
     (let (line, args, count) = tokenize_loop max_args line args 0 0
      in if count < length args then Inr (count, line, args[count := None]) else Inl Argv_overflow)"

section \<open>The words of a line\<close>

function words :: "byte list \<Rightarrow> byte list list" where
  "words cs =
     (let r = dropWhile is_blank cs in
      if r = [] then []
      else takeWhile (\<lambda>c. \<not> is_blank c) r # words (dropWhile (\<lambda>c. \<not> is_blank c) r))"
  by pat_completeness auto
termination
proof (relation "measure length")
  fix cs r :: "byte list"
  assume r: "r = dropWhile is_blank cs" "r \<noteq> []"
  then have "\<not> is_blank (hd r)" using hd_dropWhile by blast
  then have "length (dropWhile (\<lambda>c. \<not> is_blank c) r) < length r"
    using r(2) by (cases r) (auto simp: le_imp_less_Suc length_dropWhile_le)
  also have "\<dots> \<le> length cs" unfolding r(1) by (rule length_dropWhile_le)
  finally show "(dropWhile (\<lambda>c. \<not> is_blank c) r, cs) \<in> measure length" by simp
qed simp

declare words.simps [simp del]

text \<open>The C string at an offset of the buffer.\<close>

definition cstr_at :: "byte list \<Rightarrow> nat \<Rightarrow> byte list" where
  "cstr_at line p = takeWhile (\<lambda>c. c \<noteq> 0) (drop p line)"

lemma blank_nonzero: "is_blank c \<Longrightarrow> c \<noteq> 0"
  by (auto simp: is_blank_def)

lemma skip_blanks_eq:
  "0 \<notin> set rest \<Longrightarrow> skip_blanks (pre @ rest @ 0 # pad) (length pre) = length pre + length (takeWhile is_blank rest)"
proof (induction rest arbitrary: pre)
  case Nil
  then show ?case by (subst skip_blanks.simps) (simp add: is_blank_def)
next
  case (Cons c rest)
  from Cons.IH [of "pre @ [c]"] Cons.prems show ?case by (subst skip_blanks.simps) (auto simp: nth_append)
qed

lemma scan_word_eq:
  "0 \<notin> set rest \<Longrightarrow>
    scan_word (pre @ rest @ 0 # pad) (length pre) = length pre + length (takeWhile (\<lambda>c. \<not> is_blank c) rest)"
proof (induction rest arbitrary: pre)
  case Nil
  then show ?case by (subst scan_word.simps) simp
next
  case (Cons c rest)
  from Cons.IH [of "pre @ [c]"] Cons.prems show ?case by (subst scan_word.simps) (auto simp: nth_append)
qed

lemma at_end_suffix: "0 \<notin> set rest \<Longrightarrow> at_end (pre @ rest @ 0 # pad) (length pre) \<longleftrightarrow> rest = []"
  by (cases rest) (auto simp: at_end_def nth_append)

lemma words_blank: "is_blank b \<Longrightarrow> words (b # cs) = words cs"
  by (subst (1 2) words.simps) simp

lemma cstr_at_word:
  "0 \<notin> set word \<Longrightarrow> cstr_at (pre @ word @ 0 # pad) (length pre) = word"
  by (simp add: cstr_at_def takeWhile_append2 takeWhile_append)

text \<open>
  The loop from a position with \<open>rest\<close> still to read: it takes as many words as there are, or
  as the array has room for; what it wrote before stays, and each new pointer refers to its
  word in the final buffer.
\<close>

definition tokenized :: "nat \<Rightarrow> byte list \<Rightarrow> nat option list \<Rightarrow> nat \<Rightarrow> byte list \<Rightarrow> byte list \<Rightarrow>
    byte list \<times> nat option list \<times> nat \<Rightarrow> bool" where
  "tokenized max_args line args count pre rest r \<longleftrightarrow> (case r of (line', args', count') \<Rightarrow>
     count' = count + min (max_args - count) (length (words rest)) \<and>
     length line' = length line \<and> length args' = length args \<and> take (length pre) line' = pre \<and>
     (\<forall>i < count. args' ! i = args ! i) \<and>
     (\<forall>i. count \<le> i \<and> i < count' \<longrightarrow> (\<exists>q. args' ! i = Some q \<and> cstr_at line' q = words rest ! (i - count))))"

lemma tokenized_stop:
  "words rest = [] \<or> max_args \<le> count \<Longrightarrow> take (length pre) line = pre \<Longrightarrow>
    tokenized max_args line args count pre rest (line, args, count)"
  by (auto simp: tokenized_def)

text \<open>A word and its terminator stay intact when the buffer agrees up to behind them.\<close>

lemma cstr_at_prefix:
  assumes "0 \<notin> set word" "take (length (pre @ word @ [0])) line = pre @ word @ [0]"
  shows "cstr_at line (length pre) = word"
proof -
  have "line = pre @ word @ 0 # drop (length (pre @ word @ [0])) line"
    using assms(2) append_take_drop_id [of "length (pre @ word @ [0])" line] by simp
  with cstr_at_word [OF assms(1)] show ?thesis by metis
qed

lemma tokenized_step:
  assumes rest: "words rest = word # words rest'" "0 \<notin> set word"
    and lt: "count < max_args" "count < length args"
    and tail: "tokenized max_args line1 (args[count := Some (length (pre @ bl))]) (count + 1) (pre @ bl @ word @ tm) rest' r"
    and len: "length line1 = length line"
    and stop: "tm = [0] \<or> (words rest' = [] \<and> tm = [] \<and> fst r = pre @ bl @ word @ 0 # pad)"
  shows "tokenized max_args line args count pre rest r"
proof -
  obtain line' args' n where r: "r = (line', args', n)" by (cases r)
  have pre: "take (length pre) line' = pre"
    using tail by (auto simp: tokenized_def r dest: arg_cong [where f = "take (length pre)"])
  have w: "cstr_at line' (length (pre @ bl)) = word"
    using stop
  proof
    assume "tm = [0]"
    then show ?thesis using tail rest(2) cstr_at_prefix [of word "pre @ bl" line'] by (simp add: tokenized_def r)
  next
    assume "words rest' = [] \<and> tm = [] \<and> fst r = pre @ bl @ word @ 0 # pad"
    then show ?thesis using cstr_at_word [OF rest(2), of "pre @ bl" pad] by (simp add: r)
  qed
  have first: "args' ! count = Some (length (pre @ bl))" using tail lt(2) by (simp add: tokenized_def r)
  have "\<exists>q. args' ! i = Some q \<and> cstr_at line' q = (word # words rest') ! (i - count)" if "count \<le> i" "i < n" for i
  proof (cases "i = count")
    case True
    with first w show ?thesis by simp
  next
    case False
    then have "i - count = Suc (i - (count + 1))" "count + 1 \<le> i" using that(1) by simp_all
    then show ?thesis using tail that(2) by (simp add: tokenized_def r)
  qed
  then show ?thesis using tail lt(1) len pre rest(1) by (simp add: tokenized_def r)
qed

text \<open>One round of the loop that finds a word.\<close>

lemma tokenize_round:
  assumes rest: "rest = bl @ word @ rest'" "list_all is_blank bl" "word \<noteq> []" "list_all (\<lambda>c. \<not> is_blank c) word"
    "rest' = [] \<or> is_blank (hd rest')" and nz: "0 \<notin> set rest" and lt: "count < max_args"
  shows "tokenize_loop max_args (pre @ rest @ 0 # pad) args (length pre) count =
    (let args = args[count := Some (length (pre @ bl))] in
     if rest' \<noteq> [] then tokenize_loop max_args (pre @ bl @ word @ 0 # tl rest' @ 0 # pad) args (length (pre @ bl @ word @ [0])) (count + 1)
     else tokenize_loop max_args (pre @ rest @ 0 # pad) args (length (pre @ bl @ word)) (count + 1))"
proof -
  let ?line = "pre @ rest @ 0 # pad"
  have tw: "takeWhile is_blank rest = bl" "takeWhile (\<lambda>c. \<not> is_blank c) (word @ rest') = word"
  proof -
    have "takeWhile is_blank (word @ rest') = []" using rest(3,4) by (cases word) simp_all
    then show "takeWhile is_blank rest = bl"
      using rest(2) unfolding rest(1) by (subst takeWhile_append2) (simp_all add: list_all_iff)
    have "takeWhile (\<lambda>c. \<not> is_blank c) rest' = []" using rest(5) by (cases rest') simp_all
    then show "takeWhile (\<lambda>c. \<not> is_blank c) (word @ rest') = word"
      using rest(4) by (subst takeWhile_append2) (simp_all add: list_all_iff)
  qed
  have nz': "0 \<notin> set (word @ rest')" "0 \<notin> set rest'" using nz rest(1) by auto
  have q: "skip_blanks ?line (length pre) = length (pre @ bl)" using skip_blanks_eq [OF nz] tw(1) by simp
  have lq: "?line = (pre @ bl) @ (word @ rest') @ 0 # pad" by (simp add: rest(1))
  have e: "scan_word ?line (length (pre @ bl)) = length (pre @ bl @ word)"
    unfolding lq using scan_word_eq [OF nz'(1), of "pre @ bl" pad] tw(2) by simp
  have le: "?line = (pre @ bl @ word) @ rest' @ 0 # pad" by (simp add: rest(1))
  have ends: "\<not> at_end ?line (length pre)" "\<not> at_end ?line (length (pre @ bl))"
    "at_end ?line (length (pre @ bl @ word)) \<longleftrightarrow> rest' = []"
    using at_end_suffix [OF nz, of pre pad] at_end_suffix [OF nz'(1), of "pre @ bl" pad] at_end_suffix [OF nz'(2), of "pre @ bl @ word" pad] rest(1,3)
    by (simp_all add: lq le)
  have upd: "rest' \<noteq> [] \<Longrightarrow> ?line[length (pre @ bl @ word) := 0] = pre @ bl @ word @ 0 # tl rest' @ 0 # pad"
    unfolding le using list_update_length [of "pre @ bl @ word" "hd rest'" "tl rest' @ 0 # pad" 0] by (cases rest') simp_all
  have behind: "length (pre @ bl @ word @ [0]) = Suc (length (pre @ bl @ word))" by simp
  show ?thesis
    using lt ends upd by (subst tokenize_loop.simps) (simp add: q e behind Let_def del: append_assoc length_append)
qed

lemma blank_split:
  assumes "dropWhile is_blank rest \<noteq> []"
  obtains bl word rest' where "rest = bl @ word @ rest'" "list_all is_blank bl" "word \<noteq> []"
    "list_all (\<lambda>c. \<not> is_blank c) word" "rest' = [] \<or> is_blank (hd rest')" "words rest = word # words rest'"
proof -
  let ?r = "dropWhile is_blank rest"
  let ?w = "takeWhile (\<lambda>c. \<not> is_blank c) ?r" and ?t = "dropWhile (\<lambda>c. \<not> is_blank c) ?r"
  have "\<not> is_blank (hd ?r)" using assms hd_dropWhile by blast
  then have "?w \<noteq> []" using assms by (cases ?r) auto
  moreover have "?t = [] \<or> is_blank (hd ?t)" using hd_dropWhile [of "\<lambda>c. \<not> is_blank c" ?r] by blast
  moreover have "words rest = ?w # words ?t" using assms by (subst words.simps) (simp add: Let_def)
  ultimately show ?thesis
    by (intro that [of "takeWhile is_blank rest" ?w ?t]) (auto simp: list_all_iff dest: set_takeWhileD)
qed

lemma tokenize_loop_words:
  "0 \<notin> set rest \<Longrightarrow> max_args \<le> length args \<Longrightarrow>
    tokenized max_args (pre @ rest @ 0 # pad) args count pre rest
      (tokenize_loop max_args (pre @ rest @ 0 # pad) args (length pre) count)"
proof (induction "length rest" arbitrary: pre rest args count rule: less_induct)
  case less
  let ?line = "pre @ rest @ 0 # pad"
  have ends: "at_end ?line (length pre) \<longleftrightarrow> rest = []" using less.prems(1) by (rule at_end_suffix)
  show ?case
  proof (cases "rest \<noteq> [] \<and> count < max_args \<and> dropWhile is_blank rest \<noteq> []")
    case False
    have "tokenize_loop max_args ?line args (length pre) count = (?line, args, count)"
    proof (cases "rest \<noteq> [] \<and> count < max_args")
      case True
      then have d: "dropWhile is_blank rest = []" using False by blast
      then have "takeWhile is_blank rest = rest" by (metis append.right_neutral takeWhile_dropWhile_id)
      then have "skip_blanks ?line (length pre) = length (pre @ rest)"
        using skip_blanks_eq [OF less.prems(1), of pre pad] by (metis length_append)
      then have "at_end ?line (skip_blanks ?line (length pre))"
        using at_end_suffix [of "[]" "pre @ rest" pad] by simp
      then show ?thesis by (subst tokenize_loop.simps) (simp add: Let_def)
    qed (use ends in \<open>subst tokenize_loop.simps, auto\<close>)
    moreover have "words rest = [] \<or> max_args \<le> count" using False by (subst words.simps) auto
    ultimately show ?thesis by (simp add: tokenized_stop)
  next
    case True
    obtain bl word rest' where w: "rest = bl @ word @ rest'" "list_all is_blank bl" "word \<noteq> []"
      "list_all (\<lambda>c. \<not> is_blank c) word" "rest' = [] \<or> is_blank (hd rest')" "words rest = word # words rest'"
      using True blank_split [of rest] by metis
    let ?args = "args[count := Some (length (pre @ bl))]"
    have wz: "0 \<notin> set word" using less.prems(1) w(1) by auto
    have c: "count < max_args" "count < length args" using True less.prems(2) by auto
    note round = tokenize_round [OF w(1-5) less.prems(1) c(1), of pre pad args]
    show ?thesis
    proof (cases "rest' = []")
      case True
      have "tokenize_loop max_args ?line ?args (length (pre @ bl @ word)) (count + 1) = (?line, ?args, count + 1)"
        using at_end_suffix [of "[]" "pre @ bl @ word" pad] w(1) True by (subst tokenize_loop.simps) simp
      then have run: "tokenize_loop max_args ?line args (length pre) count = (?line, ?args, count + 1)"
        using round True by (simp add: Let_def)
      have nil: "words rest' = []" using True by (simp add: words.simps)
      have "tokenized max_args ?line ?args (count + 1) (pre @ bl @ word @ []) rest' (?line, ?args, count + 1)"
        using nil by (intro tokenized_stop) (simp_all add: w(1) True)
      then show ?thesis
        unfolding run by (rule tokenized_step [OF w(6) wz c _ refl, where pad = pad]) (use nil in \<open>simp add: w(1) True\<close>)
    next
      case False
      let ?line1 = "pre @ bl @ word @ 0 # tl rest' @ 0 # pad" and ?pre = "pre @ bl @ word @ [0]"
      have b: "rest' = hd rest' # tl rest'" "is_blank (hd rest')" using False w(5) by simp_all
      have ws: "words rest' = words (tl rest')" using words_blank [OF b(2), of "tl rest'"] b(1) by simp
      have "tokenized max_args (?pre @ tl rest' @ 0 # pad) ?args (count + 1) ?pre (tl rest')
          (tokenize_loop max_args (?pre @ tl rest' @ 0 # pad) ?args (length ?pre) (count + 1))"
      proof (rule less.hyps)
        show "length (tl rest') < length rest" using b(1) w(1) by (cases rest') simp_all
        show "0 \<notin> set (tl rest')" using less.prems(1) w(1) b(1) by (metis Un_iff list.set_intros(2) set_append)
      qed (simp add: less.prems(2))
      then have tail: "tokenized max_args ?line1 ?args (count + 1) ?pre (tl rest')
          (tokenize_loop max_args ?line args (length pre) count)"
        using round False by (simp add: Let_def)
      have len: "length ?line1 = length ?line" using b(1) w(1) by (cases rest') simp_all
      show ?thesis by (rule tokenized_step [OF _ wz c tail len]) (simp_all add: ws w(6))
    qed
  qed
qed

section \<open>Tokenising a command line\<close>

lemma tokenize_loop_line:
  assumes "0 \<notin> set str" "length args = 16"
  obtains line' args' where
    "tokenize_loop 16 (str @ 0 # pad) args 0 0 = (line', args', min 16 (length (words str)))"
    "length line' = length (str @ 0 # pad)" "length args' = 16"
    "\<And>i. i < min 16 (length (words str)) \<Longrightarrow> \<exists>q. args' ! i = Some q \<and> cstr_at line' q = words str ! i"
proof -
  obtain line' args' n where r: "tokenize_loop 16 (str @ 0 # pad) args 0 0 = (line', args', n)"
    by (cases "tokenize_loop 16 (str @ 0 # pad) args 0 0")
  have "tokenized 16 (str @ 0 # pad) args 0 [] str (line', args', n)"
    using tokenize_loop_words [of str 16 args "[]" pad 0] assms r by simp
  then show ?thesis using r assms(2) by (intro that [of line' args']) (auto simp: tokenized_def)
qed

lemma tokenize_words_call:
  assumes "0 \<notin> set str" "length args = 16" "length (words str) \<le> 15"
  shows "\<exists>line' args'. tokenize (str @ 0 # pad) args 16 = Inr (length (words str), line', args') \<and>
    length line' = length (str @ 0 # pad) \<and> length args' = 16 \<and> args' ! length (words str) = None \<and>
    (\<forall>i < length (words str). \<exists>q. args' ! i = Some q \<and> cstr_at line' q = words str ! i)"
proof -
  obtain line' args' where r: "tokenize_loop 16 (str @ 0 # pad) args 0 0 = (line', args', min 16 (length (words str)))"
    and l: "length line' = length (str @ 0 # pad)" "length args' = 16"
    and w: "\<And>i. i < min 16 (length (words str)) \<Longrightarrow> \<exists>q. args' ! i = Some q \<and> cstr_at line' q = words str ! i"
    using tokenize_loop_line [OF assms(1,2)] by metis
  have m: "min 16 (length (words str)) = length (words str)" using assms(3) by simp
  show ?thesis
    using r l w assms(3) unfolding m
    by (intro exI [of _ line'] exI [of _ "args'[length (words str) := None]"]) (simp add: tokenize_def)
qed

text \<open>
  C25: tokenising a command line of at most 15 words yields exactly its words: the count is their
  number, each \<open>args[i]\<close> points at the i-th word, terminated in place in the buffer (whose size
  does not change), and the vector ends with NULL, whatever the buffer holds behind the line.
\<close>
theorem tokenize_words:
  assumes "0 \<notin> set str" "length args = 16" "length (words str) \<le> 15"
  shows "\<exists>line' args'. tokenize (str @ 0 # pad) args 16 = Inr (length (words str), line', args') \<and>
    length line' = length (str @ 0 # pad) \<and> length args' = 16 \<and> args' ! length (words str) = None \<and>
    (\<forall>i < length (words str). \<exists>q. args' ! i = Some q \<and> cstr_at line' q = words str ! i)"
  by (rule tokenize_words_call [OF assms])

text \<open>The line \<open>" a b"\<close>.\<close>

lemma words_a_b: "words [32, 97, 32, 98] = [[97], [98]]"
  by (simp add: words.simps is_blank_def)

theorem tokenize_words_witness:
  "\<exists>line' args'. tokenize ([32, 97, 32, 98] @ 0 # [7]) (replicate 16 None) 16 = Inr (2, line', args') \<and>
    args' ! 2 = None \<and> (\<exists>q. args' ! 0 = Some q \<and> cstr_at line' q = [97]) \<and>
    (\<exists>q. args' ! 1 = Some q \<and> cstr_at line' q = [98])"
proof -
  have "0 \<notin> set [32, 97, 32, 98 :: byte]" by simp
  from tokenize_words [OF this, of "replicate 16 None" "[7]"] obtain line' args' where
    t: "tokenize ([32, 97, 32, 98] @ 0 # [7]) (replicate 16 None) 16 = Inr (2, line', args')" "args' ! 2 = None"
    and w: "\<And>i. i < 2 \<Longrightarrow> \<exists>q. args' ! i = Some q \<and> cstr_at line' q = [[97], [98]] ! i"
    by (auto simp: words_a_b numeral_2_eq_2)
  show ?thesis using t w [of 0] w [of 1] by simp
qed

text \<open>
  C38: a line of sixteen or more words makes \<open>tokenize\<close> store its final NULL at
  \<open>args[16]\<close>, one slot behind the 16-element vector, although at most \<open>max_args\<close>
  arguments are taken.
\<close>
theorem tokenize_overflows:
  assumes "0 \<notin> set str" "length args = 16" "16 \<le> length (words str)"
  shows "tokenize (str @ 0 # pad) args 16 = Inl Argv_overflow"
proof -
  obtain line' args' where r: "tokenize_loop 16 (str @ 0 # pad) args 0 0 = (line', args', min 16 (length (words str)))"
    and l: "length args' = 16"
    using tokenize_loop_line [OF assms(1,2)] by metis
  show ?thesis using r l assms(3) by (simp add: tokenize_def)
qed

lemma words_a_times: "words (concat (replicate n [97, 32])) = replicate n [97]"
proof (induction n)
  case (Suc n)
  have "words (97 # 32 # cs) = [97] # words (32 # cs)" for cs
    by (subst words.simps) (simp add: is_blank_def)
  moreover have "is_blank 32" by (simp add: is_blank_def)
  ultimately show ?case using Suc by (simp add: words_blank)
qed (simp add: words.simps)

theorem tokenize_overflows_witness:
  "tokenize (concat (replicate 16 [97, 32]) @ 0 # []) (replicate 16 None) 16 = Inl Argv_overflow"
  by (rule tokenize_overflows) (auto simp: words_a_times)

end
