(* ===== verification/Port_IO.thy ===== *)
theory Port_IO
  imports Prelude
begin

text \<open>
  The CPU's interface to the outside: \<open>arch/x86/cpu/io.s\<close>, \<open>include/arch/x86/io.h\<close>
  and the privileged instructions of \<open>arch/x86/boot/loader.s\<close> and
  \<open>arch/x86/cpu/idt.s\<close>.

  Every port access and every privileged instruction is an event of a trace, newest
  first. What a port read returns, and which interrupt line is raised while the CPU is
  halted, is the hardware's choice: it is a parameter \<open>hardware\<close> that may depend on the
  whole history.
\<close>

datatype io_event =
    Out u16 byte
  | In u16 byte
  | Sti
  | Cli
  | Hlt
  | Lgdt u16 u32
  | Ltr u16
  | Lidt u16 u32
  | Load_CR3 u32
  | Iret_User u32 u32

type_synonym trace = "io_event list"

record hardware =
  port_in :: "trace \<Rightarrow> u16 \<Rightarrow> byte"
  irq_line :: "trace \<Rightarrow> byte option"

definition outb :: "u16 \<Rightarrow> byte \<Rightarrow> trace \<Rightarrow> trace" where
  "outb p v tr = Out p v # tr"

definition inb :: "hardware \<Rightarrow> u16 \<Rightarrow> trace \<Rightarrow> byte \<times> trace" where
  "inb hw p tr = (let v = port_in hw tr p in (v, In p v # tr))"

definition enable_interrupts :: "trace \<Rightarrow> trace" where
  "enable_interrupts tr = Sti # tr"

definition disable_interrupts :: "trace \<Rightarrow> trace" where
  "disable_interrupts tr = Cli # tr"

text \<open>The interrupt flag after a trace: the latest \<open>sti\<close> or \<open>cli\<close> decides.\<close>

fun interrupts_on :: "trace \<Rightarrow> bool" where
  "interrupts_on [] = False"
| "interrupts_on (Sti # tr) = True"
| "interrupts_on (Cli # tr) = False"
| "interrupts_on (_ # tr) = interrupts_on tr"

text \<open>The bytes written to one port, oldest first.\<close>

fun outs :: "u16 \<Rightarrow> trace \<Rightarrow> byte list" where
  "outs p [] = []"
| "outs p (Out q v # tr) = (if p = q then outs p tr @ [v] else outs p tr)"
| "outs p (_ # tr) = outs p tr"

lemma fst_inb [simp]: "fst (inb hw p tr) = port_in hw tr p"
  by (simp add: inb_def Let_def)

lemma snd_inb [simp]: "snd (inb hw p tr) = In p (port_in hw tr p) # tr"
  by (simp add: inb_def Let_def)

lemma outs_outb [simp]: "outs p (outb q v tr) = (if p = q then outs p tr @ [v] else outs p tr)"
  by (simp add: outb_def)

lemma interrupts_on_enable [simp]: "interrupts_on (enable_interrupts tr)"
  by (simp add: enable_interrupts_def)

lemma interrupts_on_disable [simp]: "\<not> interrupts_on (disable_interrupts tr)"
  by (simp add: disable_interrupts_def)

lemma interrupts_on_outb [simp]: "interrupts_on (outb p v tr) = interrupts_on tr"
  by (simp add: outb_def)

lemma outs_append [simp]: "outs p (es @ tr) = outs p tr @ outs p es"
  by (induction p es rule: outs.induct) auto

lemma interrupts_on_append:
  "Sti \<notin> set es \<Longrightarrow> Cli \<notin> set es \<Longrightarrow> interrupts_on (es @ tr) = interrupts_on tr"
proof (induction es)
  case (Cons e es)
  then show ?case by (cases e) auto
qed simp

end
