(* ===== verification/Isr_Table.thy ===== *)
theory Isr_Table
  imports Prelude
begin

text \<open>
  The handler table of \<open>arch/x86/cpu/isr.c\<close>: 256 function pointers, NULL until a driver
  registers its handler. The only functions the kernel registers are the keyboard's and
  the serial port's, so a function pointer is one of the two names below.
\<close>

datatype isr_handler = Keyboard_interrupt_handler | Serial_interrupt_handler

type_synonym handlers = "byte \<Rightarrow> isr_handler option"

definition no_handlers :: handlers where
  "no_handlers = (\<lambda>_. None)"

definition register_interrupt_handler :: "byte \<Rightarrow> isr_handler \<Rightarrow> handlers \<Rightarrow> handlers" where
  "register_interrupt_handler n handler tbl = tbl(n := Some handler)"

lemma register_same [simp]: "register_interrupt_handler n h tbl n = Some h"
  by (simp add: register_interrupt_handler_def)

lemma register_other [simp]: "n \<noteq> k \<Longrightarrow> register_interrupt_handler n h tbl k = tbl k"
  by (simp add: register_interrupt_handler_def)

end
