(* ===== verification/Fifo_Spec.thy ===== *)
theory Fifo_Spec
  imports Main
begin

text \<open>
  The contract between the producers of input characters (the keyboard and serial
  interrupt handlers) and their consumers (\<open>keyboard_read_char\<close>, the read system call):
  a bounded queue that drops what does not fit. The locale states the laws over an
  abstraction \<open>contents\<close>; what the clients need of whole sequences of operations is
  proved once here.
\<close>

primrec drain :: "('q \<Rightarrow> 'a option \<times> 'q) \<Rightarrow> nat \<Rightarrow> 'q \<Rightarrow> 'a list \<times> 'q" where
  "drain get 0 q = ([], q)"
| "drain get (Suc n) q =
     (case get q of
        (None, q') \<Rightarrow> ([], q')
      | (Some x, q') \<Rightarrow> (let (xs, q'') = drain get n q' in (x # xs, q'')))"

locale bounded_fifo =
  fixes inv :: "'q \<Rightarrow> bool"
    and contents :: "'q \<Rightarrow> 'a list"
    and cap :: nat
    and put :: "'a \<Rightarrow> 'q \<Rightarrow> 'q"
    and get :: "'q \<Rightarrow> 'a option \<times> 'q"
  assumes inv_put: "inv q \<Longrightarrow> inv (put x q)"
    and inv_get: "inv q \<Longrightarrow> inv (snd (get q))"
    and bounded: "inv q \<Longrightarrow> length (contents q) \<le> cap"
    and contents_put: "inv q \<Longrightarrow> contents (put x q) =
          (if length (contents q) < cap then contents q @ [x] else contents q)"
    and get_empty: "inv q \<Longrightarrow> contents q = [] \<Longrightarrow> get q = (None, q)"
    and get_first: "inv q \<Longrightarrow> contents q = x # xs \<Longrightarrow>
          fst (get q) = Some x \<and> contents (snd (get q)) = xs"
begin

lemma inv_put_all: "inv q \<Longrightarrow> inv (fold put xs q)"
  by (induction xs arbitrary: q) (auto simp: inv_put)

lemma contents_put_all:
  "inv q \<Longrightarrow> contents (fold put xs q) = contents q @ take (cap - length (contents q)) xs"
proof (induction xs arbitrary: q)
  case Nil
  then show ?case by simp
next
  case (Cons x xs)
  from Cons.IH [OF inv_put [OF Cons.prems]] show ?case
    using bounded [OF Cons.prems]
    by (cases "length (contents q) < cap")
      (auto simp: contents_put [OF Cons.prems] take_Cons' diff_Suc split: nat.splits)
qed

lemma drain_contents:
  "inv q \<Longrightarrow> n \<le> length (contents q) \<Longrightarrow>
    fst (drain get n q) = take n (contents q) \<and> contents (snd (drain get n q)) = drop n (contents q)
      \<and> inv (snd (drain get n q))"
proof (induction n arbitrary: q)
  case 0
  then show ?case by simp
next
  case (Suc n)
  then obtain x xs where xs: "contents q = x # xs" by (cases "contents q") auto
  obtain q' where g: "get q = (Some x, q')" and c: "contents q' = xs"
    using get_first [OF Suc.prems(1) xs] by (cases "get q") auto
  have "inv q'" using inv_get [OF Suc.prems(1)] g by simp
  with Suc.IH [of q'] Suc.prems(2) c xs show ?case
    by (auto simp: g split: prod.splits)
qed

text \<open>Characters come out in the order they went in; only what exceeds the capacity is lost.\<close>

lemma put_then_drain:
  assumes "inv q" and "contents q = []"
  shows "fst (drain get (min cap (length xs)) (fold put xs q)) = take cap xs"
proof -
  have c: "contents (fold put xs q) = take cap xs"
    using contents_put_all [OF assms(1), of xs] assms(2) by simp
  have "min cap (length xs) \<le> length (contents (fold put xs q))" by (simp add: c)
  from drain_contents [OF inv_put_all [OF assms(1)] this] show ?thesis
    by (simp add: c) (metis length_take take_all_iff take_take min.commute min.cobounded1)
qed

end

end
