(* ===== verification/Keyboard.thy ===== *)
theory Keyboard
  imports Port_IO Isr_Table Fifo_Spec
begin

text \<open>
  \<open>drivers/keyboard.c\<close>: the PS/2 keyboard driver. Its static variables are the record
  \<open>kbd_state\<close>; the interrupt handler decodes scancode set 1 and enqueues characters into
  a 256-byte ring buffer, from which the rest of the kernel reads. The ring buffer is
  shown to be a bounded FIFO (the interpretation \<open>kbd\<close> of the locale
  \<open>bounded_fifo\<close>), so its clients reason about a list of pending characters.
\<close>

definition KBD_DATA_PORT :: u16 where "KBD_DATA_PORT = 0x60"
definition KBD_STATUS_PORT :: u16 where "KBD_STATUS_PORT = 0x64"
abbreviation KBD_BUFFER_SIZE :: u32 where "KBD_BUFFER_SIZE \<equiv> 256"

record kbd_state =
  shift_active :: bool
  kbd_buffer :: "byte list"
  kbd_buf_head :: u32
  kbd_buf_tail :: u32
  kbd_buf_count :: u32

definition kbd_bss :: kbd_state where
  "kbd_bss = \<lparr>shift_active = False, kbd_buffer = replicate 256 0,
     kbd_buf_head = 0, kbd_buf_tail = 0, kbd_buf_count = 0\<rparr>"

definition kbd_us_ascii :: "byte list" where
  "kbd_us_ascii =
     [0, 27] @ str_bytes ''1234567890-='' @ [8] @
     [9] @
     str_bytes ''qwertyuiop[]'' @ [10] @
     [0] @
     str_bytes ''asdfghjkl;'' @ [39, 96] @
     [0] @
     [92] @ str_bytes ''zxcvbnm,./'' @
     [0] @
     [42] @
     [0] @
     [32] @
     [0] @
     replicate 10 0 @
     [0] @
     [0] @
     [0, 0, 0, 45, 0, 0, 0, 43, 0, 0, 0, 0, 0, 0, 0, 0, 0, 0, 0] @
     replicate 38 0"

definition kbd_us_ascii_shift :: "byte list" where
  "kbd_us_ascii_shift =
     [0, 27] @ str_bytes ''!@#$%^&*()_+'' @ [8] @
     [9] @
     str_bytes ''QWERTYUIOP{}'' @ [10] @
     [0] @
     str_bytes ''ASDFGHJKL:'' @ [34, 126] @
     [0] @
     [124] @ str_bytes ''ZXCVBNM<>?'' @
     [0] @
     [42] @
     [0] @
     [32] @
     [0] @
     replicate 10 0 @
     [0] @
     [0] @
     [0, 0, 0, 45, 0, 0, 0, 43, 0, 0, 0, 0, 0, 0, 0, 0, 0, 0, 0] @
     replicate 38 0"

definition read_scan_code :: "hardware \<Rightarrow> trace \<Rightarrow> byte \<times> trace" where
  "read_scan_code hw tr = inb hw KBD_DATA_PORT tr"

definition keyboard_put_char :: "byte \<Rightarrow> kbd_state \<Rightarrow> kbd_state" where
  "keyboard_put_char c s =
     (if kbd_buf_count s < KBD_BUFFER_SIZE
      then s\<lparr>kbd_buffer := (kbd_buffer s)[unat (kbd_buf_tail s) := c],
             kbd_buf_tail := (kbd_buf_tail s + 1) mod KBD_BUFFER_SIZE,
             kbd_buf_count := kbd_buf_count s + 1\<rparr>
      else s)"

definition keyboard_has_char :: "kbd_state \<Rightarrow> bool" where
  "keyboard_has_char s \<longleftrightarrow> kbd_buf_count s > 0"

definition keyboard_getchar :: "kbd_state \<Rightarrow> int \<times> kbd_state" where
  "keyboard_getchar s =
     (if kbd_buf_count s = 0 then (-1, s)
      else (let c = kbd_buffer s ! unat (kbd_buf_head s)
            in (uint c,
                s\<lparr>kbd_buf_head := (kbd_buf_head s + 1) mod KBD_BUFFER_SIZE,
                  kbd_buf_count := kbd_buf_count s - 1\<rparr>)))"

definition keyboard_interrupt_handler :: "hardware \<Rightarrow> kbd_state \<times> trace \<Rightarrow> kbd_state \<times> trace" where
  "keyboard_interrupt_handler hw = (\<lambda>(s, tr).
     let (scancode, tr) = read_scan_code hw tr in
     if scancode = 0x2A \<or> scancode = 0x36 then (s\<lparr>shift_active := True\<rparr>, tr)
     else if scancode = 0xAA \<or> scancode = 0xB6 then (s\<lparr>shift_active := False\<rparr>, tr)
     else if scancode AND 0x80 \<noteq> 0 then (s, tr)
     else if scancode < 128 then
       (let c = (if shift_active s then kbd_us_ascii_shift ! unat scancode
                 else kbd_us_ascii ! unat scancode)
        in if c \<noteq> 0 then (keyboard_put_char c s, tr) else (s, tr))
     else (s, tr))"

partial_function (option) kbd_flush :: "hardware \<Rightarrow> trace \<Rightarrow> trace option" where
  "kbd_flush hw tr =
     (if fst (inb hw KBD_STATUS_PORT tr) AND 1 \<noteq> 0
      then kbd_flush hw (snd (inb hw KBD_DATA_PORT (snd (inb hw KBD_STATUS_PORT tr))))
      else Some (snd (inb hw KBD_STATUS_PORT tr)))"

definition keyboard_init ::
  "hardware \<Rightarrow> kbd_state \<times> handlers \<times> trace \<Rightarrow> (kbd_state \<times> handlers \<times> trace) option" where
  "keyboard_init hw = (\<lambda>(s, tbl, tr).
     let s' = s\<lparr>kbd_buf_head := 0, kbd_buf_tail := 0, kbd_buf_count := 0\<rparr>;
         tbl' = register_interrupt_handler 33 Keyboard_interrupt_handler tbl
     in map_option (\<lambda>tr'. (s', tbl', tr')) (kbd_flush hw tr))"

section \<open>The ring buffer is a bounded FIFO\<close>

definition kbd_inv :: "kbd_state \<Rightarrow> bool" where
  "kbd_inv s \<longleftrightarrow> length (kbd_buffer s) = 256 \<and> unat (kbd_buf_head s) < 256 \<and>
     unat (kbd_buf_count s) \<le> 256 \<and>
     unat (kbd_buf_tail s) = (unat (kbd_buf_head s) + unat (kbd_buf_count s)) mod 256"

definition kbd_pending :: "kbd_state \<Rightarrow> byte list" where
  "kbd_pending s =
     map (\<lambda>i. kbd_buffer s ! ((unat (kbd_buf_head s) + i) mod 256)) [0..<unat (kbd_buf_count s)]"

text \<open>\<open>keyboard_getchar\<close> with its sentinel \<open>-1\<close> read as "no character".\<close>

definition kbd_get :: "kbd_state \<Rightarrow> byte option \<times> kbd_state" where
  "kbd_get s = (let (c, s') = keyboard_getchar s in (if c = -1 then None else Some (word_of_int c), s'))"

lemma length_kbd_pending [simp]: "length (kbd_pending s) = unat (kbd_buf_count s)"
  by (simp add: kbd_pending_def)

lemma kbd_inv_bss: "kbd_inv kbd_bss"
  by (simp add: kbd_inv_def kbd_bss_def)

lemma ring_next: "unat (x :: u32) < 256 \<Longrightarrow> unat ((x + 1) mod 256) = (unat x + 1) mod 256"
  by (simp add: unat_mod unat_add_u32)

lemma kbd_inv_put [inv_intros]:
  assumes "kbd_inv s"
  shows "kbd_inv (keyboard_put_char c s)"
proof (cases "kbd_buf_count s < 256")
  case True
  then have "unat (kbd_buf_count s) < 256" by (simp add: u32_nat)
  moreover have "unat (kbd_buf_tail s) < 256" using assms by (simp add: kbd_inv_def)
  ultimately show ?thesis
    using assms by (simp add: kbd_inv_def keyboard_put_char_def True ring_next unat_add_u32)
      (metis add.assoc mod_Suc_eq Suc_eq_plus1)
next
  case False
  with assms show ?thesis by (simp add: keyboard_put_char_def)
qed

lemma ring_index_distinct: "i < n \<Longrightarrow> n < 256 \<Longrightarrow> (h + i) mod 256 \<noteq> (h + n) mod (256 :: nat)"
proof
  assume "i < n" "n < 256" "(h + i) mod 256 = (h + n) mod (256 :: nat)"
  then have "(h + n - (h + i)) mod 256 = 0" by (metis mod_eq_dvd_iff_nat add_le_cancel_left
        dvd_imp_mod_0 less_imp_le)
  with \<open>i < n\<close> \<open>n < 256\<close> show False by simp
qed

lemma kbd_pending_put:
  assumes "kbd_inv s"
  shows "kbd_pending (keyboard_put_char c s) =
    (if length (kbd_pending s) < 256 then kbd_pending s @ [c] else kbd_pending s)"
proof (cases "kbd_buf_count s < 256")
  case True
  then have n: "unat (kbd_buf_count s) < 256" by (simp add: u32_nat)
  have t: "unat (kbd_buf_tail s) = (unat (kbd_buf_head s) + unat (kbd_buf_count s)) mod 256"
    and l: "length (kbd_buffer s) = 256"
    using assms by (simp_all add: kbd_inv_def)
  show ?thesis
    using n ring_index_distinct [OF _ n, THEN not_sym]
    by (auto simp: kbd_pending_def keyboard_put_char_def True unat_add_u32 t l nth_list_update)
next
  case False
  then show ?thesis by (simp add: keyboard_put_char_def u32_nat)
qed

lemma ring_shift: "1 \<le> n \<Longrightarrow> (h + n) mod 256 = ((h + 1) mod 256 + (n - 1)) mod (256 :: nat)"
  by (simp only: mod_add_left_eq) simp

lemma kbd_getchar_empty: "kbd_buf_count s = 0 \<Longrightarrow> keyboard_getchar s = (-1, s)"
  by (simp add: keyboard_getchar_def)

lemma kbd_inv_getchar [inv_intros]:
  assumes "kbd_inv s"
  shows "kbd_inv (snd (keyboard_getchar s))"
proof (cases "kbd_buf_count s = 0")
  case True
  with assms show ?thesis by (simp add: keyboard_getchar_def)
next
  case False
  then have n: "1 \<le> unat (kbd_buf_count s)" by (simp add: u32_nat)
  then have d: "unat (kbd_buf_count s - 1) = unat (kbd_buf_count s) - 1"
    by (simp add: unat_sub u32_nat)
  have "unat (kbd_buf_head s) < 256" using assms by (simp add: kbd_inv_def)
  then show ?thesis
    using assms ring_shift [OF n, of "unat (kbd_buf_head s)"]
    by (auto simp: kbd_inv_def keyboard_getchar_def False Let_def ring_next d)
qed

lemma kbd_getchar_first:
  assumes "kbd_inv s" and "kbd_pending s = c # cs"
  shows "fst (keyboard_getchar s) = uint c \<and> kbd_pending (snd (keyboard_getchar s)) = cs"
proof -
  have n: "unat (kbd_buf_count s) = Suc (length cs)" using assms(2) length_kbd_pending [of s] by simp
  then have nz: "kbd_buf_count s \<noteq> 0" by auto
  have d: "unat (kbd_buf_count s - 1) = length cs" using n by (simp add: unat_sub u32_nat)
  have h: "unat (kbd_buf_head s) < 256" using assms(1) by (simp add: kbd_inv_def)
  let ?at = "\<lambda>i. kbd_buffer s ! ((unat (kbd_buf_head s) + i) mod 256)"
  have "kbd_pending s = map ?at (0 # map Suc [0..<length cs])"
    unfolding kbd_pending_def n by (simp only: map_Suc_upt upt_conv_Cons zero_less_Suc)
  with assms(2) have "?at 0 = c" and "map (\<lambda>i. ?at (Suc i)) [0..<length cs] = cs"
    by (simp_all add: o_def)
  with h show ?thesis
    by (simp add: kbd_pending_def keyboard_getchar_def nz Let_def d ring_next mod_simps)
qed

lemma uint_byte_neq_minus_1 [simp]: "uint (c :: byte) \<noteq> -1"
  using uint_ge_0 [of c] by linarith

interpretation kbd: bounded_fifo kbd_inv kbd_pending 256 keyboard_put_char kbd_get
proof unfold_locales
  fix q :: kbd_state and c :: byte and cs
  assume inv: "kbd_inv q"
  show "kbd_inv (keyboard_put_char c q)" using inv by (rule kbd_inv_put)
  show "kbd_inv (snd (kbd_get q))"
    using kbd_inv_getchar [OF inv] by (simp add: kbd_get_def split_def Let_def)
  show "length (kbd_pending q) \<le> 256" using inv by (simp add: kbd_inv_def)
  show "kbd_pending (keyboard_put_char c q) =
      (if length (kbd_pending q) < 256 then kbd_pending q @ [c] else kbd_pending q)"
    using inv by (rule kbd_pending_put)
  show "kbd_get q = (None, q)" if "kbd_pending q = []"
  proof -
    from that have "kbd_buf_count q = 0" using length_kbd_pending [of q] by (simp add: u32_nat)
    then show ?thesis by (simp add: kbd_get_def kbd_getchar_empty)
  qed
  show "fst (kbd_get q) = Some c \<and> kbd_pending (snd (kbd_get q)) = cs" if "kbd_pending q = c # cs"
    using kbd_getchar_first [OF inv that] by (simp add: kbd_get_def split_def Let_def)
qed

section \<open>Flushing the controller\<close>

text \<open>The trace after \<open>n\<close> rounds of the flush loop (status read, data read).\<close>

primrec kbd_rounds :: "hardware \<Rightarrow> nat \<Rightarrow> trace \<Rightarrow> trace" where
  "kbd_rounds hw 0 tr = tr"
| "kbd_rounds hw (Suc n) tr =
     kbd_rounds hw n (snd (inb hw KBD_DATA_PORT (snd (inb hw KBD_STATUS_PORT tr))))"

lemma kbd_flush_returns:
  "port_in hw (kbd_rounds hw n tr) KBD_STATUS_PORT AND 1 = 0 \<Longrightarrow>
    \<exists>k v. kbd_flush hw tr = Some (In KBD_STATUS_PORT v # kbd_rounds hw k tr) \<and> v AND 1 = 0"
proof (induction n arbitrary: tr)
  case 0
  then have "kbd_flush hw tr = Some (In KBD_STATUS_PORT (port_in hw tr KBD_STATUS_PORT) # kbd_rounds hw 0 tr)"
    by (subst kbd_flush.simps) simp
  with 0 show ?case by fastforce
next
  case (Suc n)
  let ?tr = "snd (inb hw KBD_DATA_PORT (snd (inb hw KBD_STATUS_PORT tr)))"
  show ?case
  proof (cases "port_in hw tr KBD_STATUS_PORT AND 1 = 0")
    case True
    then have "kbd_flush hw tr = Some (In KBD_STATUS_PORT (port_in hw tr KBD_STATUS_PORT) # kbd_rounds hw 0 tr)"
      by (subst kbd_flush.simps) simp
    with True show ?thesis by fastforce
  next
    case False
    then have step: "kbd_flush hw tr = kbd_flush hw ?tr"
      by (subst kbd_flush.simps) simp
    obtain k v where "kbd_flush hw ?tr = Some (In KBD_STATUS_PORT v # kbd_rounds hw k ?tr)" "v AND 1 = 0"
      using Suc.IH [of ?tr] Suc.prems by auto
    then have "kbd_flush hw tr = Some (In KBD_STATUS_PORT v # kbd_rounds hw (Suc k) tr) \<and> v AND 1 = 0"
      using step by simp
    then show ?thesis by blast
  qed
qed

section \<open>Properties of the driver\<close>

text \<open>
  C15: Whatever sequence of characters the interrupt handlers put into an empty ring
  buffer, repeated \<open>keyboard_getchar\<close> returns exactly the first 256 of them, in order:
  the circular indices never mix characters up, and only what exceeds the capacity of the
  buffer is dropped.
\<close>

theorem keyboard_fifo_order:
  assumes "kbd_inv s" and "kbd_pending s = []"
  shows "fst (drain kbd_get (min 256 (length cs)) (fold keyboard_put_char cs s)) = take 256 cs"
  using assms by (rule kbd.put_then_drain)

theorem keyboard_fifo_order_witness:
  "kbd_inv kbd_bss \<and> kbd_pending kbd_bss = [] \<and>
   fst (drain kbd_get (min 256 (length [104, 105 :: byte])) (fold keyboard_put_char [104, 105] kbd_bss)) =
     take 256 [104, 105]"
proof -
  have p: "kbd_pending kbd_bss = []" by (simp add: kbd_pending_def kbd_bss_def)
  show ?thesis using keyboard_fifo_order [OF kbd_inv_bss p, of "[104, 105]"] kbd_inv_bss p by blast
qed

lemma and_0x80: "(sc :: byte) AND 0x80 \<noteq> 0 \<longleftrightarrow> bit sc 7"
  using and_single_neq_0 [of 7 sc] by simp

lemma bit7_unat: "bit (sc :: byte) 7 \<longleftrightarrow> 128 \<le> unat sc"
proof -
  have "bit sc 7 \<longleftrightarrow> odd (unat sc div 128)"
    using bit_iff_odd [of "unat sc" 7] by (simp add: bit_unsigned_iff)
  moreover have "unat sc < 256" using unsigned_less [of sc] by simp
  then have "unat sc div 128 = (if 128 \<le> unat sc then 1 else 0)"
    by (auto intro: div_nat_eqI)
  ultimately show ?thesis by simp
qed

lemma keyboard_interrupt_effect:
  assumes inv: "kbd_inv s" and sc: "port_in hw tr KBD_DATA_PORT = sc"
    and run: "keyboard_interrupt_handler hw (s, tr) = (s', tr')"
  shows "tr' = In KBD_DATA_PORT sc # tr \<and> kbd_inv s' \<and>
    shift_active s' =
      (if sc = 0x2A \<or> sc = 0x36 then True else if sc = 0xAA \<or> sc = 0xB6 then False else shift_active s) \<and>
    (let c = (if shift_active s then kbd_us_ascii_shift else kbd_us_ascii) ! unat sc in
     kbd_pending s' =
       (if 128 \<le> unat sc \<or> c = 0 \<or> length (kbd_pending s) = 256 then kbd_pending s
        else kbd_pending s @ [c]))"
proof -
  have shift: "kbd_us_ascii_shift ! 42 = 0" "kbd_us_ascii ! 42 = 0"
    "kbd_us_ascii_shift ! 54 = 0" "kbd_us_ascii ! 54 = 0"
    by (simp_all add: kbd_us_ascii_shift_def kbd_us_ascii_def str_bytes_def)
  have full: "length (kbd_pending s) < 256 \<longleftrightarrow> length (kbd_pending s) \<noteq> 256"
    using kbd.bounded [OF inv] by auto
  have keep: "kbd_pending (s\<lparr>shift_active := b\<rparr>) = kbd_pending s" "kbd_inv (s\<lparr>shift_active := b\<rparr>)" for b
    using inv by (simp_all add: kbd_pending_def kbd_inv_def)
  have "shift_active (keyboard_put_char c s) = shift_active s" for c
    by (simp add: keyboard_put_char_def)
  then show ?thesis
    using run sc inv full kbd_inv_put [OF inv]
    by (auto simp: keyboard_interrupt_handler_def read_scan_code_def inb_def Let_def and_0x80 bit7_unat
        shift keep kbd_pending_put word_less_nat_alt split: if_splits)
qed

text \<open>
  C33: One keyboard interrupt: the handler reads one scancode and nothing else. Shift make
  and break codes set and clear the shift state; any other key release is ignored; a key
  press appends the character of the table selected by the shift state, unless that entry
  is 0 or the buffer is full. The ring-buffer invariant is kept.
\<close>

theorem keyboard_interrupt_spec:
  assumes inv: "kbd_inv s" and sc: "port_in hw tr KBD_DATA_PORT = sc"
    and run: "keyboard_interrupt_handler hw (s, tr) = (s', tr')"
  shows "tr' = In KBD_DATA_PORT sc # tr \<and> kbd_inv s' \<and>
    shift_active s' =
      (if sc = 0x2A \<or> sc = 0x36 then True else if sc = 0xAA \<or> sc = 0xB6 then False else shift_active s) \<and>
    (let c = (if shift_active s then kbd_us_ascii_shift else kbd_us_ascii) ! unat sc in
     kbd_pending s' =
       (if 128 \<le> unat sc \<or> c = 0 \<or> length (kbd_pending s) = 256 then kbd_pending s
        else kbd_pending s @ [c]))"
  by (rule keyboard_interrupt_effect [OF assms])

text \<open>A quiet machine: every port reads as the same byte, no interrupt line is raised.\<close>

definition const_hw :: "byte \<Rightarrow> hardware" where
  "const_hw b = \<lparr>port_in = (\<lambda>_ _. b), irq_line = (\<lambda>_. None)\<rparr>"

lemma port_in_const_hw [simp]: "port_in (const_hw b) tr p = b"
  by (simp add: const_hw_def)

theorem keyboard_interrupt_spec_witness:
  "\<exists>s' tr'. keyboard_interrupt_handler (const_hw 0x1E) (kbd_bss, []) = (s', tr') \<and>
     tr' = [In KBD_DATA_PORT 0x1E] \<and> kbd_pending s' = [97]"
proof -
  obtain s' tr' where run: "keyboard_interrupt_handler (const_hw 0x1E) (kbd_bss, []) = (s', tr')"
    by fastforce
  have "kbd_us_ascii ! 30 = 97" by (simp add: kbd_us_ascii_def str_bytes_def)
  moreover have "kbd_pending kbd_bss = []" "\<not> shift_active kbd_bss"
    by (simp_all add: kbd_pending_def kbd_bss_def)
  ultimately show ?thesis
    using keyboard_interrupt_spec [OF kbd_inv_bss port_in_const_hw run] run by (simp add: Let_def)
qed

text \<open>
  \<open>keyboard_init\<close> returns as soon as the controller's output buffer can be emptied by
  finitely many reads. Then the ring buffer is empty and well formed, the last status byte
  read had its "output buffer full" bit clear, vector 33 (IRQ 1) has the keyboard handler
  and every other table entry is unchanged.
\<close>

lemma keyboard_init_returns:
  assumes "length (kbd_buffer s) = 256"
    and "port_in hw (kbd_rounds hw n tr) KBD_STATUS_PORT AND 1 = 0"
  shows "\<exists>s' tbl' v tr'. keyboard_init hw (s, tbl, tr) = Some (s', tbl', In KBD_STATUS_PORT v # tr') \<and>
    kbd_inv s' \<and> kbd_pending s' = [] \<and> shift_active s' = shift_active s \<and> v AND 1 = 0 \<and>
    tbl' = tbl(33 := Some Keyboard_interrupt_handler)"
  using kbd_flush_returns [OF assms(2)] assms(1)
  by (auto simp: keyboard_init_def Let_def kbd_inv_def kbd_pending_def register_interrupt_handler_def)

text \<open>
  The two scancode tables agree with each other: both have 128 entries, the same
  entries are unassigned, and every lower-case letter of the plain table is the matching
  upper-case letter of the shifted one.
\<close>

lemma keyboard_tables_agree:
  "length kbd_us_ascii = 128 \<and> length kbd_us_ascii_shift = 128 \<and>
   list_all2 (\<lambda>u s. (u = 0) = (s = 0) \<and> (if 97 \<le> u \<and> u \<le> 122 then s = u - 32 else True))
     kbd_us_ascii kbd_us_ascii_shift"
  by code_simp

end
