(* ===== verification/Serial.thy ===== *)
theory Serial
  imports Keyboard
begin

text \<open>
  \<open>drivers/serial.c\<close>: the 16550 UART driver of COM1. Transmission polls the line status
  register before every byte; the poll loops are \<open>partial_function (option)\<close>, so a UART that never
  gets ready is the value \<open>None\<close>. The receive interrupt drains the UART into the ring
  buffer of the keyboard driver. Ports are computed in 32 bits and cut to 16, as the calls
  of \<open>outb\<close> and \<open>inb\<close> do.
\<close>

definition SERIAL_COM1_BASE :: u32 where "SERIAL_COM1_BASE = 0x3F8"
definition SERIAL_DATA_PORT :: "u32 \<Rightarrow> u16" where "SERIAL_DATA_PORT base = ucast base"
definition SERIAL_INT_ENABLE_PORT :: "u32 \<Rightarrow> u16" where "SERIAL_INT_ENABLE_PORT base = ucast (base + 1)"
definition SERIAL_FIFO_COMMAND_PORT :: "u32 \<Rightarrow> u16" where "SERIAL_FIFO_COMMAND_PORT base = ucast (base + 2)"
definition SERIAL_LINE_COMMAND_PORT :: "u32 \<Rightarrow> u16" where "SERIAL_LINE_COMMAND_PORT base = ucast (base + 3)"
definition SERIAL_MODEM_COMMAND_PORT :: "u32 \<Rightarrow> u16" where "SERIAL_MODEM_COMMAND_PORT base = ucast (base + 4)"
definition SERIAL_LINE_STATUS_PORT :: "u32 \<Rightarrow> u16" where "SERIAL_LINE_STATUS_PORT base = ucast (base + 5)"
definition SERIAL_LINE_ENABLED_DLAB :: byte where "SERIAL_LINE_ENABLED_DLAB = 0x80"

lemmas serial_port_defs = SERIAL_COM1_BASE_def SERIAL_DATA_PORT_def SERIAL_INT_ENABLE_PORT_def
  SERIAL_FIFO_COMMAND_PORT_def SERIAL_LINE_COMMAND_PORT_def SERIAL_MODEM_COMMAND_PORT_def
  SERIAL_LINE_STATUS_PORT_def

definition serial_divisor :: "u32 \<Rightarrow> u16" where
  "serial_divisor baud_rate =
     (if baud_rate \<ge> 110 then ucast (115200 div baud_rate) else if baud_rate = 0 then 1 else ucast baud_rate)"

definition serial_config_baud_rate :: "u32 \<Rightarrow> u32 \<Rightarrow> trace \<Rightarrow> trace" where
  "serial_config_baud_rate base baud_rate tr =
     (let divisor = serial_divisor baud_rate in
      outb (ucast (base + 1)) (ucast (drop_bit 8 divisor AND 0xFF))
       (outb (SERIAL_DATA_PORT base) (ucast (divisor AND 0xFF))
        (outb (SERIAL_LINE_COMMAND_PORT base) SERIAL_LINE_ENABLED_DLAB tr)))"

definition serial_config_line :: "u16 \<Rightarrow> trace \<Rightarrow> trace" where
  "serial_config_line com tr = outb (SERIAL_LINE_COMMAND_PORT (ucast com)) 0x03 tr"

definition serial_config_buffers :: "u16 \<Rightarrow> trace \<Rightarrow> trace" where
  "serial_config_buffers com tr = outb (SERIAL_FIFO_COMMAND_PORT (ucast com)) 0x07 tr"

definition serial_config_modem :: "u16 \<Rightarrow> trace \<Rightarrow> trace" where
  "serial_config_modem com tr = outb (SERIAL_MODEM_COMMAND_PORT (ucast com)) 0x0B tr"

definition serial_init :: "handlers \<times> trace \<Rightarrow> handlers \<times> trace" where
  "serial_init = (\<lambda>(tbl, tr).
     let tr = serial_config_baud_rate SERIAL_COM1_BASE 115200 tr;
         tr = serial_config_line (ucast SERIAL_COM1_BASE) tr;
         tr = serial_config_buffers (ucast SERIAL_COM1_BASE) tr;
         tr = serial_config_modem (ucast SERIAL_COM1_BASE) tr;
         tr = outb (SERIAL_INT_ENABLE_PORT SERIAL_COM1_BASE) 0x01 tr
     in (register_interrupt_handler 36 Serial_interrupt_handler tbl, tr))"

definition serial_is_transmit_fifo_empty :: "hardware \<Rightarrow> u32 \<Rightarrow> trace \<Rightarrow> byte \<times> trace" where
  "serial_is_transmit_fifo_empty hw com tr =
     (let (v, tr) = inb hw (SERIAL_LINE_STATUS_PORT com) tr in (v AND 0x20, tr))"

text \<open>The loop \<open>while (serial_is_transmit_fifo_empty(com) == 0);\<close>.\<close>

partial_function (option) serial_wait_transmit :: "hardware \<Rightarrow> u32 \<Rightarrow> trace \<Rightarrow> trace option" where
  "serial_wait_transmit hw com tr =
     (if fst (serial_is_transmit_fifo_empty hw com tr) = 0
      then serial_wait_transmit hw com (snd (serial_is_transmit_fifo_empty hw com tr))
      else Some (snd (serial_is_transmit_fifo_empty hw com tr)))"

definition serial_write_char :: "hardware \<Rightarrow> u32 \<Rightarrow> byte \<Rightarrow> trace \<Rightarrow> (u32 \<times> trace) option" where
  "serial_write_char hw com c tr =
     Option.bind (serial_wait_transmit hw com tr) (\<lambda>tr. Some (1, outb (SERIAL_DATA_PORT com) c tr))"

fun serial_write_bytes :: "hardware \<Rightarrow> u32 \<Rightarrow> byte list \<Rightarrow> trace \<Rightarrow> trace option" where
  "serial_write_bytes hw com [] tr = Some tr"
| "serial_write_bytes hw com (c # buf) tr =
     Option.bind (serial_wait_transmit hw com tr)
       (\<lambda>tr. serial_write_bytes hw com buf (outb (SERIAL_DATA_PORT com) c tr))"

definition serial_write :: "hardware \<Rightarrow> u32 \<Rightarrow> byte list \<Rightarrow> trace \<Rightarrow> (u32 \<times> trace) option" where
  "serial_write hw com buf tr =
     Option.bind (serial_write_bytes hw com buf tr) (\<lambda>tr. Some (word_of_nat (length buf), tr))"

definition serial_receive :: "hardware \<Rightarrow> u32 \<Rightarrow> trace \<Rightarrow> byte \<times> trace" where
  "serial_receive hw com tr =
     (let (v, tr) = inb hw (SERIAL_LINE_STATUS_PORT com) tr in (v AND 1, tr))"

definition serial_read_char :: "hardware \<Rightarrow> u32 \<Rightarrow> trace \<Rightarrow> int \<times> trace" where
  "serial_read_char hw com tr =
     (let (ready, tr) = serial_receive hw com tr
      in if ready \<noteq> 0 then (let (v, tr) = inb hw (SERIAL_DATA_PORT com) tr in (uint v, tr))
         else (-1, tr))"

text \<open>One round of the loop of the receive interrupt, and the loop.\<close>

definition serial_receive_round :: "hardware \<Rightarrow> kbd_state \<times> trace \<Rightarrow> kbd_state \<times> trace" where
  "serial_receive_round hw = (\<lambda>(s, tr).
     let (c, tr) = serial_read_char hw SERIAL_COM1_BASE tr
     in (if c \<noteq> -1 then keyboard_put_char (word_of_int c) s else s, tr))"

partial_function (option) serial_interrupt_handler ::
  "hardware \<Rightarrow> kbd_state \<times> trace \<Rightarrow> (kbd_state \<times> trace) option" where
  "serial_interrupt_handler hw st =
     (if fst (serial_receive hw SERIAL_COM1_BASE (snd st)) \<noteq> 0
      then serial_interrupt_handler hw
             (serial_receive_round hw (fst st, snd (serial_receive hw SERIAL_COM1_BASE (snd st))))
      else Some (fst st, snd (serial_receive hw SERIAL_COM1_BASE (snd st))))"

lemma serial_status_simps [simp]:
  "fst (serial_is_transmit_fifo_empty hw com tr) = port_in hw tr (SERIAL_LINE_STATUS_PORT com) AND 0x20"
  "snd (serial_is_transmit_fifo_empty hw com tr) =
     In (SERIAL_LINE_STATUS_PORT com) (port_in hw tr (SERIAL_LINE_STATUS_PORT com)) # tr"
  "fst (serial_receive hw com tr) = port_in hw tr (SERIAL_LINE_STATUS_PORT com) AND 1"
  "snd (serial_receive hw com tr) =
     In (SERIAL_LINE_STATUS_PORT com) (port_in hw tr (SERIAL_LINE_STATUS_PORT com)) # tr"
  by (simp_all add: serial_is_transmit_fifo_empty_def serial_receive_def inb_def Let_def)

section \<open>Transmission\<close>

text \<open>
  The transmitter drains: from every point on, polling the line status register long enough
  shows the transmitter holding register empty (bit 5).
\<close>

primrec status_polls :: "hardware \<Rightarrow> u32 \<Rightarrow> nat \<Rightarrow> trace \<Rightarrow> trace" where
  "status_polls hw com 0 tr = tr"
| "status_polls hw com (Suc n) tr = status_polls hw com n (snd (serial_is_transmit_fifo_empty hw com tr))"

definition transmitter_drains :: "hardware \<Rightarrow> u32 \<Rightarrow> bool" where
  "transmitter_drains hw com \<longleftrightarrow>
     (\<forall>tr. \<exists>n. port_in hw (status_polls hw com n tr) (SERIAL_LINE_STATUS_PORT com) AND 0x20 \<noteq> 0)"

text \<open>
  A trace is paced when every byte put into the data register directly follows a status read
  that showed the register empty.
\<close>

fun paced :: "u32 \<Rightarrow> trace \<Rightarrow> bool" where
  "paced com [] \<longleftrightarrow> True"
| "paced com (Out p v # es) \<longleftrightarrow> paced com es \<and> (p = SERIAL_DATA_PORT com \<longrightarrow>
     (case es of In q s # _ \<Rightarrow> q = SERIAL_LINE_STATUS_PORT com \<and> s AND 0x20 \<noteq> 0 | _ \<Rightarrow> False))"
| "paced com (_ # es) \<longleftrightarrow> paced com es"

fun serial_event :: "u32 \<Rightarrow> io_event \<Rightarrow> bool" where
  "serial_event com (In p v) \<longleftrightarrow> p = SERIAL_LINE_STATUS_PORT com"
| "serial_event com (Out p v) \<longleftrightarrow> p = SERIAL_DATA_PORT com"
| "serial_event com _ \<longleftrightarrow> False"

lemma serial_events_frame:
  assumes "list_all (serial_event com) es"
  shows "p \<noteq> SERIAL_DATA_PORT com \<Longrightarrow> outs p es = []" "Sti \<notin> set es" "Cli \<notin> set es"
proof -
  show "p \<noteq> SERIAL_DATA_PORT com \<Longrightarrow> outs p es = []"
    using assms by (induction p es rule: outs.induct) auto
  show "Sti \<notin> set es" "Cli \<notin> set es" using assms by (auto simp: list_all_iff)
qed

lemma paced_append: "paced com es \<Longrightarrow> paced com fs \<Longrightarrow> paced com (fs @ es)"
proof (induction fs)
  case (Cons f fs)
  then show ?case by (cases f; cases fs) (auto split: list.splits io_event.splits)
qed simp

lemma serial_wait_transmit_returns:
  "port_in hw (status_polls hw com n tr) (SERIAL_LINE_STATUS_PORT com) AND 0x20 \<noteq> 0 \<Longrightarrow>
    \<exists>es v. serial_wait_transmit hw com tr = Some (In (SERIAL_LINE_STATUS_PORT com) v # es @ tr) \<and>
      v AND 0x20 \<noteq> 0 \<and> list_all (serial_event com) es \<and> (\<forall>p. outs p es = []) \<and> paced com es"
proof (induction n arbitrary: tr)
  case 0
  then have "serial_wait_transmit hw com tr =
      Some (In (SERIAL_LINE_STATUS_PORT com) (port_in hw tr (SERIAL_LINE_STATUS_PORT com)) # [] @ tr)"
    by (subst serial_wait_transmit.simps) simp
  with 0 show ?case by (intro exI [of _ "[]"]) simp
next
  case (Suc n)
  let ?e = "In (SERIAL_LINE_STATUS_PORT com) (port_in hw tr (SERIAL_LINE_STATUS_PORT com))"
  show ?case
  proof (cases "port_in hw tr (SERIAL_LINE_STATUS_PORT com) AND 0x20 = 0")
    case True
    then have step: "serial_wait_transmit hw com tr = serial_wait_transmit hw com (?e # tr)"
      by (subst serial_wait_transmit.simps) simp
    obtain es v where "serial_wait_transmit hw com (?e # tr) = Some (In (SERIAL_LINE_STATUS_PORT com) v # es @ ?e # tr)"
      "v AND 0x20 \<noteq> 0" "list_all (serial_event com) es" "\<forall>p. outs p es = []" "paced com es"
      using Suc.IH [of "?e # tr"] Suc.prems by auto
    with step show ?thesis
      by (intro exI [of _ "es @ [?e]"] exI [of _ v]) (auto intro: paced_append)
  next
    case False
    then have "serial_wait_transmit hw com tr = Some (?e # [] @ tr)"
      by (subst serial_wait_transmit.simps) simp
    with False show ?thesis by (intro exI [of _ "[]"]) simp
  qed
qed

lemma serial_write_bytes_returns:
  assumes "transmitter_drains hw com"
  shows "\<exists>es. serial_write_bytes hw com buf tr = Some (es @ tr) \<and> list_all (serial_event com) es \<and>
    outs (SERIAL_DATA_PORT com) es = buf \<and> paced com es"
proof (induction buf arbitrary: tr)
  case Nil
  show ?case by simp
next
  case (Cons c buf)
  obtain n where n: "port_in hw (status_polls hw com n tr) (SERIAL_LINE_STATUS_PORT com) AND 0x20 \<noteq> 0"
    using assms by (auto simp: transmitter_drains_def)
  obtain es v where w: "serial_wait_transmit hw com tr = Some (In (SERIAL_LINE_STATUS_PORT com) v # es @ tr)"
    "v AND 0x20 \<noteq> 0" "list_all (serial_event com) es" "\<forall>p. outs p es = []" "paced com es"
    using serial_wait_transmit_returns [OF n] by blast
  let ?es = "Out (SERIAL_DATA_PORT com) c # In (SERIAL_LINE_STATUS_PORT com) v # es"
  obtain fs where f: "serial_write_bytes hw com buf (?es @ tr) = Some (fs @ ?es @ tr)"
    "list_all (serial_event com) fs" "outs (SERIAL_DATA_PORT com) fs = buf" "paced com fs"
    using Cons.IH by blast
  have "serial_write_bytes hw com (c # buf) tr = Some ((fs @ ?es) @ tr)"
    using w(1) f(1) by (simp add: outb_def)
  moreover have "paced com (fs @ ?es)" using f(4) w(2,5) by (intro paced_append) simp_all
  ultimately show ?case
    using f(2,3) w(3,4) by (intro exI [of _ "fs @ ?es"]) simp
qed

text \<open>
  C34: Transmission over the serial port, on a UART whose transmitter drains:
  \<open>serial_write\<close> returns the length, the bytes arrive at the data register exactly and in
  order, none before a status read showed the holding register empty, and nothing else is
  written to any port.
\<close>

theorem serial_write_transmits:
  assumes "transmitter_drains hw com"
  shows "\<exists>es. serial_write hw com buf tr = Some (word_of_nat (length buf), es @ tr) \<and>
    outs (SERIAL_DATA_PORT com) (es @ tr) = outs (SERIAL_DATA_PORT com) tr @ buf \<and>
    (\<forall>p. p \<noteq> SERIAL_DATA_PORT com \<longrightarrow> outs p (es @ tr) = outs p tr) \<and> paced com es"
proof -
  obtain es where es: "serial_write_bytes hw com buf tr = Some (es @ tr)" "list_all (serial_event com) es"
    "outs (SERIAL_DATA_PORT com) es = buf" "paced com es"
    using serial_write_bytes_returns [OF assms] by blast
  then show ?thesis
    using serial_events_frame(1) [OF es(2)] by (intro exI [of _ es]) (simp add: serial_write_def)
qed

theorem serial_write_transmits_witness:
  "\<exists>es. serial_write (const_hw 0x20) SERIAL_COM1_BASE (str_bytes ''ok'') [] = Some (2, es) \<and>
     outs 0x3F8 es = str_bytes ''ok''"
proof -
  have d: "transmitter_drains (const_hw 0x20) SERIAL_COM1_BASE"
    unfolding transmitter_drains_def by (intro allI exI [of _ 0]) (simp add: const_hw_def)
  have len: "word_of_nat (length (str_bytes ''ok'')) = (2 :: u32)" by (simp add: str_bytes_def)
  have p: "SERIAL_DATA_PORT SERIAL_COM1_BASE = 0x3F8" by (simp add: serial_port_defs)
  from serial_write_transmits [OF d, of "str_bytes ''ok''" "[]"] show ?thesis
    unfolding len p by auto
qed

section \<open>Reception\<close>

text \<open>
  The receiver of the UART as its data sheet has it: it holds a queue \<open>rx\<close> of received bytes,
  bit 0 of the line status register says whether one is there, a read of the data register
  delivers and removes the first, and a status read removes none. Bytes that arrive while
  the interrupt handler runs belong to the queue from the start.
\<close>

definition uart_receiver :: "hardware \<Rightarrow> u32 \<Rightarrow> (trace \<Rightarrow> byte list) \<Rightarrow> bool" where
  "uart_receiver hw com rx \<longleftrightarrow>
     (\<forall>tr. (port_in hw tr (SERIAL_LINE_STATUS_PORT com) AND 1 \<noteq> 0 \<longleftrightarrow> rx tr \<noteq> []) \<and>
       (\<forall>v. rx (In (SERIAL_LINE_STATUS_PORT com) v # tr) = rx tr) \<and>
       (rx tr \<noteq> [] \<longrightarrow> port_in hw tr (SERIAL_DATA_PORT com) = hd (rx tr)) \<and>
       (\<forall>v. rx (In (SERIAL_DATA_PORT com) v # tr) = tl (rx tr)))"

text \<open>The events of one round on a waiting byte: two status reads and the data read.\<close>

lemma serial_receive_round_byte:
  assumes "uart_receiver hw SERIAL_COM1_BASE rx" "rx tr = c # cs"
  shows "\<exists>tr'. serial_receive_round hw (s, tr) = (keyboard_put_char c s, tr') \<and> rx tr' = cs"
  using assms by (auto simp: uart_receiver_def serial_receive_round_def serial_read_char_def Let_def split_def)

lemma serial_interrupt_handler_drains:
  assumes u: "uart_receiver hw SERIAL_COM1_BASE rx"
  shows "rx tr = cs \<Longrightarrow> \<exists>tr'. serial_interrupt_handler hw (s, tr) = Some (fold keyboard_put_char cs s, tr') \<and> rx tr' = []"
proof (induction cs arbitrary: s tr)
  case Nil
  then have "\<not> port_in hw tr (SERIAL_LINE_STATUS_PORT SERIAL_COM1_BASE) AND 1 \<noteq> 0"
    using u by (simp add: uart_receiver_def)
  then show ?case
    using u Nil by (subst serial_interrupt_handler.simps) (simp add: uart_receiver_def)
next
  case (Cons c cs)
  let ?t = "snd (serial_receive hw SERIAL_COM1_BASE tr)"
  have t: "rx ?t = c # cs" using u Cons.prems by (simp add: uart_receiver_def)
  obtain tr' where r: "serial_receive_round hw (s, ?t) = (keyboard_put_char c s, tr')" "rx tr' = cs"
    using serial_receive_round_byte [OF u t] by blast
  have "port_in hw tr (SERIAL_LINE_STATUS_PORT SERIAL_COM1_BASE) AND 1 \<noteq> 0"
    using u Cons.prems by (simp add: uart_receiver_def)
  then have "serial_interrupt_handler hw (s, tr) = serial_interrupt_handler hw (keyboard_put_char c s, tr')"
    using r(1) by (subst serial_interrupt_handler.simps) simp
  with Cons.IH [OF r(2)] show ?case by simp
qed

text \<open>
  C28: The receive interrupt returns with the UART's queue empty; every received byte has
  been appended, in order, to the pending characters of the keyboard buffer, up to the
  buffer's capacity of 256.
\<close>

theorem serial_interrupt_drains:
  assumes "uart_receiver hw SERIAL_COM1_BASE rx" and "kbd_inv s"
  shows "\<exists>s' tr'. serial_interrupt_handler hw (s, tr) = Some (s', tr') \<and> rx tr' = [] \<and> kbd_inv s' \<and>
    kbd_pending s' = take 256 (kbd_pending s @ rx tr)"
proof -
  obtain tr' where h: "serial_interrupt_handler hw (s, tr) = Some (fold keyboard_put_char (rx tr) s, tr')" "rx tr' = []"
    using serial_interrupt_handler_drains [OF assms(1) refl] by blast
  moreover have "kbd_pending (fold keyboard_put_char (rx tr) s) = take 256 (kbd_pending s @ rx tr)"
    using kbd.contents_put_all [OF assms(2)] kbd.bounded [OF assms(2)] by simp
  ultimately show ?thesis using kbd.inv_put_all [OF assms(2)] by blast
qed

text \<open>A UART with the bytes \<open>input\<close> in its receiver and an idle transmitter.\<close>

fun data_reads :: "u32 \<Rightarrow> trace \<Rightarrow> nat" where
  "data_reads com [] = 0"
| "data_reads com (In p v # tr) = (if p = SERIAL_DATA_PORT com then Suc (data_reads com tr) else data_reads com tr)"
| "data_reads com (_ # tr) = data_reads com tr"

definition uart_hw :: "byte list \<Rightarrow> hardware" where
  "uart_hw input =
     \<lparr>port_in = (\<lambda>tr p.
        let q = drop (data_reads SERIAL_COM1_BASE tr) input in
        if p = SERIAL_LINE_STATUS_PORT SERIAL_COM1_BASE then (if q = [] then 0x20 else 0x21)
        else if p = SERIAL_DATA_PORT SERIAL_COM1_BASE \<and> q \<noteq> [] then hd q else 0),
      irq_line = (\<lambda>tr. if data_reads SERIAL_COM1_BASE tr < length input then Some 36 else None)\<rparr>"

lemma uart_hw_receiver:
  "uart_receiver (uart_hw input) SERIAL_COM1_BASE (\<lambda>tr. drop (data_reads SERIAL_COM1_BASE tr) input)"
  unfolding uart_receiver_def
  by (auto simp: uart_hw_def serial_port_defs Let_def drop_Suc tl_drop)

lemma uart_hw_drains: "transmitter_drains (uart_hw input) SERIAL_COM1_BASE"
  unfolding transmitter_drains_def by (intro allI exI [of _ 0]) (simp add: uart_hw_def Let_def)

theorem serial_interrupt_drains_witness:
  "\<exists>s' tr'. serial_interrupt_handler (uart_hw (str_bytes ''ls'')) (kbd_bss, []) = Some (s', tr') \<and>
     kbd_pending s' = str_bytes ''ls''"
proof -
  have k: "kbd_inv kbd_bss" "kbd_pending kbd_bss = []" by (simp_all add: kbd_inv_def kbd_bss_def kbd_pending_def)
  have "take 256 (str_bytes ''ls'') = str_bytes ''ls''" by (simp add: str_bytes_def)
  with serial_interrupt_drains [OF uart_hw_receiver k(1), of "str_bytes ''ls''" "[]"] k(2) show ?thesis by auto
qed

section \<open>Configuration\<close>

text \<open>
  The registers of the UART after a trace: writes to the first two ports go to the divisor
  latch while bit 7 of the line control register (DLAB) is set, and to the data and
  interrupt enable registers otherwise.
\<close>

record uart_regs =
  u_dll :: byte
  u_dlm :: byte
  u_ier :: byte
  u_fcr :: byte
  u_lcr :: byte
  u_mcr :: byte

fun uart_step :: "u32 \<Rightarrow> io_event \<Rightarrow> uart_regs \<Rightarrow> uart_regs" where
  "uart_step com (Out p v) r =
     (if p = SERIAL_DATA_PORT com then (if bit (u_lcr r) 7 then r\<lparr>u_dll := v\<rparr> else r)
      else if p = SERIAL_INT_ENABLE_PORT com then (if bit (u_lcr r) 7 then r\<lparr>u_dlm := v\<rparr> else r\<lparr>u_ier := v\<rparr>)
      else if p = SERIAL_FIFO_COMMAND_PORT com then r\<lparr>u_fcr := v\<rparr>
      else if p = SERIAL_LINE_COMMAND_PORT com then r\<lparr>u_lcr := v\<rparr>
      else if p = SERIAL_MODEM_COMMAND_PORT com then r\<lparr>u_mcr := v\<rparr> else r)"
| "uart_step com _ r = r"

definition uart_after :: "u32 \<Rightarrow> trace \<Rightarrow> uart_regs \<Rightarrow> uart_regs" where
  "uart_after com tr r = foldr (uart_step com) tr r"

text \<open>
  \<open>serial_init\<close>, from any state of the UART: the divisor latch holds 1 (115200 baud),
  the line is 8N1 with the latch closed, the FIFOs are enabled and cleared, DTR, RTS and
  OUT2 are set, only the receive interrupt is enabled, and the driver's handler is
  registered for vector 36 and no other.
\<close>

lemma serial_init_configures:
  "case serial_init (tbl, tr) of (tbl', tr') \<Rightarrow>
     uart_after SERIAL_COM1_BASE tr' r =
       \<lparr>u_dll = 1, u_dlm = 0, u_ier = 0x01, u_fcr = 0x07, u_lcr = 0x03, u_mcr = 0x0B\<rparr> \<and>
     tbl' = tbl(36 := Some Serial_interrupt_handler)"
  unfolding serial_init_def uart_after_def serial_config_baud_rate_def serial_config_line_def
    serial_config_buffers_def serial_config_modem_def serial_divisor_def outb_def
  by (simp add: serial_port_defs register_interrupt_handler_def Let_def SERIAL_LINE_ENABLED_DLAB_def)

end
