(* ===== verification/Framebuffer.thy ===== *)
theory Framebuffer
  imports Port_IO
begin

text \<open>
  \<open>drivers/framebuffer.c\<close>: the VGA text console. The state is the driver's static
  variables and the video memory it points to, as a function from the byte offset (a
  \<open>uint32_t\<close>) to the byte; the hardware cursor is programmed through the CRT controller
  ports. Buffers are passed as the list of their bytes.

  The driver is shown to refine an abstract terminal, a grid of cells with a cursor row
  and column, and never to write outside the 4000 bytes of the visible page.
\<close>

section \<open>The driver\<close>

definition FB_COMMAND_PORT :: u16 where "FB_COMMAND_PORT = 0x3D4"
definition FB_DATA_PORT :: u16 where "FB_DATA_PORT = 0x3D5"
definition FB_HIGH_BYTE_COMMAND :: byte where "FB_HIGH_BYTE_COMMAND = 14"
definition FB_LOW_BYTE_COMMAND :: byte where "FB_LOW_BYTE_COMMAND = 15"

abbreviation (input) FB_NUM_COLS :: "'a::numeral" where "FB_NUM_COLS \<equiv> 80"
abbreviation (input) FB_NUM_ROWS :: "'a::numeral" where "FB_NUM_ROWS \<equiv> 25"

abbreviation (input) FB_BLACK :: byte where "FB_BLACK \<equiv> 0"
abbreviation (input) FB_LIGHT_GREEN :: byte where "FB_LIGHT_GREEN \<equiv> 10"
abbreviation (input) FB_LIGHT_CYAN :: byte where "FB_LIGHT_CYAN \<equiv> 11"
abbreviation (input) FB_LIGHT_RED :: byte where "FB_LIGHT_RED \<equiv> 12"
abbreviation (input) FB_LIGHT_MAGENTA :: byte where "FB_LIGHT_MAGENTA \<equiv> 13"
abbreviation (input) FB_LIGHT_BROWN :: byte where "FB_LIGHT_BROWN \<equiv> 14"
abbreviation (input) FB_WHITE :: byte where "FB_WHITE \<equiv> 15"

record fb_state =
  fb :: "u32 \<Rightarrow> byte"
  cursor_pos :: u16
  current_fg :: byte
  current_bg :: byte

definition fb_attr :: "byte \<Rightarrow> byte \<Rightarrow> byte" where
  "fb_attr fg bg = push_bit 4 (bg AND 0x0F) OR (fg AND 0x0F)"

definition fb_write_cell :: "u32 \<Rightarrow> byte \<Rightarrow> byte \<Rightarrow> byte \<Rightarrow> fb_state \<Rightarrow> fb_state" where
  "fb_write_cell offset c fg bg s =
     s\<lparr>fb := (fb s)(offset := c, offset + 1 := fb_attr fg bg)\<rparr>"

definition fb_move_cursor :: "u16 \<Rightarrow> trace \<Rightarrow> trace" where
  "fb_move_cursor pos tr =
     outb FB_DATA_PORT (ucast (pos AND 0x00FF))
      (outb FB_COMMAND_PORT FB_LOW_BYTE_COMMAND
       (outb FB_DATA_PORT (ucast (drop_bit 8 pos AND 0x00FF))
        (outb FB_COMMAND_PORT FB_HIGH_BYTE_COMMAND tr)))"

definition fb_scroll :: "fb_state \<Rightarrow> fb_state" where
  "fb_scroll s =
     (let move_bytes = (FB_NUM_ROWS - 1) * FB_NUM_COLS * 2;
          moved = fold (\<lambda>i f. f(word_of_nat i := f (word_of_nat i + FB_NUM_COLS * 2))) [0..<move_bytes] (fb s);
          last_row_start = (FB_NUM_ROWS - 1) * FB_NUM_COLS * 2;
          total_bytes = FB_NUM_ROWS * FB_NUM_COLS * 2;
          cleared = for_by2 last_row_start total_bytes
            (\<lambda>i f. f(word_of_nat i := 32, word_of_nat i + 1 := fb_attr (current_fg s) (current_bg s))) moved
      in s\<lparr>fb := cleared, cursor_pos := (FB_NUM_ROWS - 1) * FB_NUM_COLS\<rparr>)"

definition fb_clear :: "fb_state \<times> trace \<Rightarrow> fb_state \<times> trace" where
  "fb_clear = (\<lambda>(s, tr).
     let total_bytes = FB_NUM_ROWS * FB_NUM_COLS * 2;
         cleared = for_by2 0 total_bytes
           (\<lambda>i f. f(word_of_nat i := 32, word_of_nat i + 1 := fb_attr (current_fg s) (current_bg s))) (fb s)
     in (s\<lparr>fb := cleared, cursor_pos := 0\<rparr>, fb_move_cursor 0 tr))"

definition fb_set_color :: "byte \<Rightarrow> byte \<Rightarrow> fb_state \<Rightarrow> fb_state" where
  "fb_set_color fg bg s = s\<lparr>current_fg := fg, current_bg := bg\<rparr>"

text \<open>The cases of \<open>fb_put_char\<close> before the scroll check, and the whole function.\<close>

definition fb_place_char :: "byte \<Rightarrow> fb_state \<Rightarrow> fb_state" where
  "fb_place_char c s =
     (if c = 10 then s\<lparr>cursor_pos := (cursor_pos s div FB_NUM_COLS + 1) * FB_NUM_COLS\<rparr>
      else if c = 13 then s\<lparr>cursor_pos := (cursor_pos s div FB_NUM_COLS) * FB_NUM_COLS\<rparr>
      else if c = 9 then s\<lparr>cursor_pos := (cursor_pos s + 8) AND NOT (8 - 1)\<rparr>
      else if c = 8 then
        (if cursor_pos s > 0
         then fb_write_cell (ucast (cursor_pos s - 1) * 2) 32 (current_fg s) (current_bg s)
                (s\<lparr>cursor_pos := cursor_pos s - 1\<rparr>)
         else s)
      else (fb_write_cell (ucast (cursor_pos s) * 2) c (current_fg s) (current_bg s) s)
             \<lparr>cursor_pos := cursor_pos s + 1\<rparr>)"

definition fb_put_char :: "byte \<Rightarrow> fb_state \<times> trace \<Rightarrow> fb_state \<times> trace" where
  "fb_put_char c = (\<lambda>(s, tr).
     let s1 = fb_place_char c s;
         s2 = (if cursor_pos s1 \<ge> FB_NUM_COLS * FB_NUM_ROWS then fb_scroll s1 else s1)
     in (s2, fb_move_cursor (cursor_pos s2) tr))"

text \<open>\<open>fb_write\<close> returns its length argument together with the new state.\<close>

definition fb_write :: "byte list \<Rightarrow> fb_state \<times> trace \<Rightarrow> u32 \<times> (fb_state \<times> trace)" where
  "fb_write buf st = (word_of_nat (length buf), fold fb_put_char buf st)"

definition fb_std_write :: "byte list \<Rightarrow> fb_state \<times> trace \<Rightarrow> u32 \<times> (fb_state \<times> trace)" where
  "fb_std_write buf st = fb_write buf st"

abbreviation fb_out :: "byte list \<Rightarrow> fb_state \<times> trace \<Rightarrow> fb_state \<times> trace" where
  "fb_out buf st \<equiv> snd (fb_write buf st)"

section \<open>Closed forms\<close>

lemma fb_scroll_eq:
  "fb_scroll s = s\<lparr>fb := (\<lambda>w. if unat w < 3840 then fb s (w + 160)
       else if unat w < 4000 then if even (unat w) then 32 else fb_attr (current_fg s) (current_bg s)
       else fb s w), cursor_pos := 1920\<rparr>"
  by (auto simp: fb_scroll_def Let_def shift_loop pair_loop fun_eq_iff)

lemma fb_clear_eq:
  "fb_clear (s, tr) = (s\<lparr>fb := (\<lambda>w. if unat w < 4000
       then if even (unat w) then 32 else fb_attr (current_fg s) (current_bg s)
       else fb s w), cursor_pos := 0\<rparr>, fb_move_cursor 0 tr)"
  by (auto simp: fb_clear_def Let_def pair_loop)

section \<open>Invariant\<close>

definition fb_inv :: "fb_state \<Rightarrow> bool" where
  "fb_inv s \<longleftrightarrow> unat (cursor_pos s) < 2000"

lemma unat_lt_u16 [simp]: "unat (x :: u16) < 65536"
  using unsigned_less [of x] by simp

lemma next_row_unat:
  "unat (p :: u16) < 2000 \<Longrightarrow> unat ((p div 80 + 1) * 80) = (unat p div 80 + 1) * 80"
proof -
  assume "unat p < 2000"
  then have d: "unat p div 80 < 25" by (simp add: less_mult_imp_div_less)
  have "unat (p div 80 + 1) = unat p div 80 + 1"
    using d by (simp add: unat_word_ariths unat_div)
  then show ?thesis using d by (simp add: unat_word_ariths)
qed

lemma row_start_unat: "unat ((p :: u16) div 80 * 80) = unat p div 80 * 80"
proof -
  have "unat p div 80 * 80 \<le> unat p" by simp
  also have "\<dots> < 65536" by simp
  finally show ?thesis by (simp add: unat_word_ariths unat_div)
qed

lemma tab_stop_unat:
  assumes "unat (p :: u16) < 2000"
  shows "unat ((p + 8) AND NOT (8 - 1)) = (unat p div 8 + 1) * 8"
proof -
  have "(p + 8) AND NOT (8 - 1) = (p + 8) AND NOT (mask 3)" by (simp add: mask_eq_exp_minus_1)
  also have "\<dots> = push_bit 3 (drop_bit 3 (p + 8))"
    by (rule bit_word_eqI) (auto simp: bit_simps)
  also have "\<dots> = (p + 8) div 8 * 8"
    by (simp add: push_bit_eq_mult drop_bit_eq_div)
  finally have "(p + 8) AND NOT (8 - 1) = (p + 8) div 8 * 8" .
  moreover have "unat (p + 8) = unat p + 8" using assms by (simp add: unat_word_ariths)
  moreover have "(unat p + 8) div 8 = unat p div 8 + 1" by simp
  ultimately show ?thesis using assms by (simp only: unat_word_ariths unat_div) simp
qed

text \<open>Where a character leaves the cursor, before scrolling, as a number.\<close>

definition place_pos :: "byte \<Rightarrow> nat \<Rightarrow> nat" where
  "place_pos c p =
     (if c = 10 then (p div 80 + 1) * 80 else if c = 13 then p div 80 * 80
      else if c = 9 then (p div 8 + 1) * 8 else if c = 8 then p - 1 else p + 1)"

lemma place_pos_le: "p < 2000 \<Longrightarrow> place_pos c p \<le> 2000"
  by (simp add: place_pos_def) linarith

lemma cursor_place:
  assumes "fb_inv s"
  shows "unat (cursor_pos (fb_place_char c s)) = place_pos c (unat (cursor_pos s))"
proof -
  have p: "unat (cursor_pos s) < 2000" using assms by (simp add: fb_inv_def)
  have prev: "cursor_pos s > 0 \<Longrightarrow> unat (cursor_pos s - 1) = unat (cursor_pos s) - 1"
    by (simp add: unat_sub word_le_nat_alt word_less_nat_alt)
  show ?thesis
    using p prev tab_stop_unat [OF p]
    by (auto simp: fb_place_char_def place_pos_def fb_write_cell_def next_row_unat row_start_unat
        unat_word_ariths word_less_nat_alt simp del: One_nat_def)
qed

lemma fb_put_char_cursor:
  assumes "fb_inv s"
  shows "unat (cursor_pos (fst (fb_put_char c (s, tr)))) =
    (if place_pos c (unat (cursor_pos s)) = 2000 then 1920 else place_pos c (unat (cursor_pos s)))"
proof -
  have "place_pos c (unat (cursor_pos s)) \<le> 2000"
    using assms by (intro place_pos_le) (simp add: fb_inv_def)
  then show ?thesis
    using cursor_place [OF assms, of c]
    by (auto simp: fb_put_char_def Let_def word_le_nat_alt fb_scroll_eq)
qed

lemma fb_inv_put_char [inv_intros]: "fb_inv s \<Longrightarrow> fb_inv (fst (fb_put_char c (s, tr)))"
  using fb_put_char_cursor [of s c tr] place_pos_le [of "unat (cursor_pos s)" c]
  by (auto simp: fb_inv_def split: if_splits)

lemma fb_inv_clear [inv_intros]: "fb_inv (fst (fb_clear (s, tr)))"
  by (simp add: fb_clear_eq fb_inv_def)

lemma fb_inv_set_color [inv_intros]: "fb_inv s \<Longrightarrow> fb_inv (fb_set_color fg bg s)"
  by (simp add: fb_set_color_def fb_inv_def)

lemma fb_inv_fold: "fb_inv (fst st) \<Longrightarrow> fb_inv (fst (fold fb_put_char buf st))"
  by (rule fold_invariant [where P = "\<lambda>st. fb_inv (fst st)"]) (auto intro: inv_intros)

lemma fb_inv_write [inv_intros]: "fb_inv (fst st) \<Longrightarrow> fb_inv (fst (fb_out buf st))"
  by (simp add: fb_write_def fb_inv_fold)

section \<open>Writes stay inside the visible page\<close>

text \<open>The offsets of the character and the attribute byte of cell \<open>n\<close>.\<close>

definition cell_lo :: "nat \<Rightarrow> u32" where "cell_lo n = word_of_nat (2 * n)"
definition cell_hi :: "nat \<Rightarrow> u32" where "cell_hi n = word_of_nat (2 * n + 1)"

lemma unat_cell: "n < 2000 \<Longrightarrow> unat (cell_lo n) = 2 * n" "n < 2000 \<Longrightarrow> unat (cell_hi n) = 2 * n + 1"
  by (simp_all only: cell_lo_def cell_hi_def unat_of_nat_u32)

lemma cell_eq_iff:
  assumes "m < 2000" "n < 2000"
  shows "cell_lo m = cell_lo n \<longleftrightarrow> m = n" "cell_hi m = cell_hi n \<longleftrightarrow> m = n"
    "cell_lo m \<noteq> cell_hi n" "cell_hi m \<noteq> cell_lo n"
proof -
  have "2 * m \<noteq> 2 * n + 1" "2 * m + 1 \<noteq> 2 * n" by presburger+
  then show "cell_lo m \<noteq> cell_hi n" "cell_hi m \<noteq> cell_lo n"
    using assms by (metis unat_cell)+
  show "cell_lo m = cell_lo n \<longleftrightarrow> m = n" "cell_hi m = cell_hi n \<longleftrightarrow> m = n"
    using assms by (metis unat_cell mult_cancel_left add_right_cancel zero_neq_numeral)+
qed

lemma cell_offset:
  fixes p :: u16
  shows "ucast p * 2 = cell_lo (unat p)" "cell_lo (unat p) + 1 = cell_hi (unat p)"
proof -
  have "(ucast p :: u32) = word_of_nat (unat p)" by simp
  then show "ucast p * 2 = cell_lo (unat p)" by (simp add: mult.commute cell_lo_def)
  show "cell_lo (unat p) + 1 = cell_hi (unat p)" by (simp add: cell_lo_def cell_hi_def)
qed

lemma cell_scrolled: "cell_lo n + 160 = cell_lo (n + 80)" "cell_hi n + 160 = cell_hi (n + 80)"
  by (simp_all add: cell_lo_def cell_hi_def)

lemma fb_write_cell_eq:
  "fb_write_cell (ucast (p :: u16) * 2) c fg bg s =
     s\<lparr>fb := (fb s)(cell_lo (unat p) := c, cell_hi (unat p) := fb_attr fg bg)\<rparr>"
  by (simp add: fb_write_cell_def cell_offset)

lemma fb_write_cell_frame:
  assumes "unat (p :: u16) < 2000" and "4000 \<le> unat w"
  shows "fb (fb_write_cell (ucast p * 2) c fg bg s) w = fb s w"
  using assms unat_cell [of "unat p"] by (auto simp: fb_write_cell_eq)

lemma fb_place_frame:
  assumes "fb_inv s" and "4000 \<le> unat w"
  shows "fb (fb_place_char c s) w = fb s w"
proof -
  have "unat (cursor_pos s) < 2000" "unat (cursor_pos s - 1) < 2000" if "cursor_pos s > 0"
    using assms that by (simp_all add: fb_inv_def unat_sub word_le_nat_alt word_less_nat_alt)
  then show ?thesis
    using assms fb_write_cell_frame [OF _ assms(2)] by (simp add: fb_place_char_def fb_inv_def)
qed

lemma fb_put_char_frame:
  "fb_inv s \<Longrightarrow> 4000 \<le> unat w \<Longrightarrow> fb (fst (fb_put_char c (s, tr))) w = fb s w"
  by (simp add: fb_put_char_def Let_def fb_scroll_eq fb_place_frame)

section \<open>Cells\<close>

definition fb_cell :: "(u32 \<Rightarrow> byte) \<Rightarrow> nat \<Rightarrow> byte \<times> byte" where
  "fb_cell f n = (f (cell_lo n), f (cell_hi n))"

lemma fb_cell_write:
  assumes "unat (p :: u16) < 2000" and "n < 2000"
  shows "fb_cell (fb (fb_write_cell (ucast p * 2) c fg bg s)) n =
    (if n = unat p then (c, fb_attr fg bg) else fb_cell (fb s) n)"
  using assms by (simp add: fb_cell_def fb_write_cell_eq cell_eq_iff)

lemma fb_cell_scroll:
  assumes "n < 2000"
  shows "fb_cell (fb (fb_scroll s)) n =
    (if n < 1920 then fb_cell (fb s) (n + 80) else (32, fb_attr (current_fg s) (current_bg s)))"
  using assms by (simp add: fb_cell_def fb_scroll_eq unat_cell cell_scrolled)

lemma fb_cell_clear:
  assumes "n < 2000"
  shows "fb_cell (fb (fst (fb_clear (s, tr)))) n = (32, fb_attr (current_fg s) (current_bg s))"
  using assms by (simp add: fb_cell_def fb_clear_eq unat_cell)

lemma fb_cell_place:
  assumes "fb_inv s" and "n < 2000"
  shows "fb_cell (fb (fb_place_char c s)) n =
    (if c \<noteq> 10 \<and> c \<noteq> 13 \<and> c \<noteq> 9 \<and> c \<noteq> 8 \<and> n = unat (cursor_pos s) then (c, fb_attr (current_fg s) (current_bg s))
     else if c = 8 \<and> Suc n = unat (cursor_pos s) then (32, fb_attr (current_fg s) (current_bg s))
     else fb_cell (fb s) n)"
proof -
  have "unat (cursor_pos s) < 2000" using assms by (simp add: fb_inv_def)
  moreover have "unat (cursor_pos s - 1) = unat (cursor_pos s) - 1 \<and> 0 < unat (cursor_pos s)"
    if "cursor_pos s > 0"
    using that by (simp add: unat_sub word_le_nat_alt word_less_nat_alt)
  ultimately show ?thesis
    using assms(2) by (auto simp: fb_place_char_def fb_cell_write word_less_nat_alt)
qed

section \<open>The abstract terminal\<close>

text \<open>
  What the driver implements: a 25 by 80 grid of cells (character and attribute), a cursor
  row and column, and a current attribute. Line feed goes to the start of the next row,
  carriage return to the start of the row, tab to the next multiple of eight, backspace
  one cell back, erasing it; anything else is written and the cursor moves on. Leaving the
  last row scrolls the grid up by one line.
\<close>

record terminal =
  t_cell :: "nat \<Rightarrow> nat \<Rightarrow> byte \<times> byte"
  t_row :: nat
  t_col :: nat
  t_attr :: byte

definition term_goto :: "nat \<Rightarrow> nat \<Rightarrow> terminal \<Rightarrow> terminal" where
  "term_goto r c t = (if c < 80 then t\<lparr>t_row := r, t_col := c\<rparr> else t\<lparr>t_row := r + 1, t_col := 0\<rparr>)"

definition term_set :: "nat \<Rightarrow> nat \<Rightarrow> byte \<Rightarrow> terminal \<Rightarrow> terminal" where
  "term_set r c ch t =
     t\<lparr>t_cell := (\<lambda>i j. if i = r \<and> j = c then (ch, t_attr t) else t_cell t i j)\<rparr>"

definition term_scroll :: "terminal \<Rightarrow> terminal" where
  "term_scroll t =
     t\<lparr>t_cell := (\<lambda>i j. if i < 24 then t_cell t (i + 1) j
                      else if i = 24 \<and> j < 80 then (32, t_attr t) else t_cell t i j),
       t_row := 24, t_col := 0\<rparr>"

definition term_place :: "byte \<Rightarrow> terminal \<Rightarrow> terminal" where
  "term_place ch t =
     (if ch = 10 then t\<lparr>t_row := t_row t + 1, t_col := 0\<rparr>
      else if ch = 13 then t\<lparr>t_col := 0\<rparr>
      else if ch = 9 then term_goto (t_row t) ((t_col t div 8 + 1) * 8) t
      else if ch = 8 then
        (if t_col t > 0 then term_set (t_row t) (t_col t - 1) 32 (t\<lparr>t_col := t_col t - 1\<rparr>)
         else if t_row t > 0 then term_set (t_row t - 1) 79 32 (t\<lparr>t_row := t_row t - 1, t_col := 79\<rparr>)
         else t)
      else term_goto (t_row t) (t_col t + 1) (term_set (t_row t) (t_col t) ch t))"

definition term_put :: "byte \<Rightarrow> terminal \<Rightarrow> terminal" where
  "term_put ch t = (let t' = term_place ch t in if t_row t' = 25 then term_scroll t' else t')"

definition term_clear :: "terminal \<Rightarrow> terminal" where
  "term_clear t = t\<lparr>t_cell := (\<lambda>i j. if i < 25 \<and> j < 80 then (32, t_attr t) else t_cell t i j),
     t_row := 0, t_col := 0\<rparr>"

definition fb_abs :: "fb_state \<Rightarrow> terminal" where
  "fb_abs s = \<lparr>t_cell = (\<lambda>i j. if i < 25 \<and> j < 80 then fb_cell (fb s) (80 * i + j) else (0, 0)),
     t_row = unat (cursor_pos s) div 80, t_col = unat (cursor_pos s) mod 80,
     t_attr = fb_attr (current_fg s) (current_bg s)\<rparr>"

lemma terminal_eqI:
  "(\<And>i j. t_cell s i j = t_cell t i j) \<Longrightarrow> t_row s = t_row t \<Longrightarrow> t_col s = t_col t \<Longrightarrow>
    t_attr s = t_attr t \<Longrightarrow> s = (t :: terminal)"
  by (cases s, cases t) (simp add: fun_eq_iff)

lemma grid_eq_iff: "j < 80 \<Longrightarrow> 80 * i + j = p \<longleftrightarrow> i = p div 80 \<and> j = p mod (80 :: nat)"
  by auto

lemma grid_bound: "i < 25 \<Longrightarrow> j < 80 \<Longrightarrow> 80 * i + j < (2000 :: nat)"
  by simp

lemma colours_place [simp]:
  "current_fg (fb_place_char c s) = current_fg s" "current_bg (fb_place_char c s) = current_bg s"
  by (simp_all add: fb_place_char_def fb_write_cell_def)

lemma row_col_step:
  fixes p :: nat
  shows "Suc p div 80 = (if Suc (p mod 80) = 80 then Suc (p div 80) else p div 80)"
    and "Suc p mod 80 = (if Suc (p mod 80) = 80 then 0 else Suc (p mod 80))"
  by (auto simp: div_Suc mod_Suc)

lemma row_col_tab:
  fixes p :: nat
  shows "((p div 8 + 1) * 8) div 80 = (if (p mod 80 div 8 + 1) * 8 < 80 then p div 80 else Suc (p div 80))"
    and "((p div 8 + 1) * 8) mod 80 = (if (p mod 80 div 8 + 1) * 8 < 80 then (p mod 80 div 8 + 1) * 8 else 0)"
proof -
  define r where "r = p div 80"
  define q where "q = p mod 80 div 8"
  have "q < 10" unfolding q_def by (simp add: less_mult_imp_div_less)
  have "p div 8 = 10 * r + q"
  proof -
    have "p = 80 * r + p mod 80" by (simp add: r_def)
    then have "p div 8 = (8 * (10 * r) + p mod 80) div 8" by simp
    then show ?thesis unfolding q_def by (simp only: div_mult_self4)
  qed
  then have e: "(p div 8 + 1) * 8 = 80 * r + (q + 1) * 8" by simp
  from \<open>q < 10\<close> consider "q < 9" | "q = 9" by linarith
  then show "((p div 8 + 1) * 8) div 80 = (if (p mod 80 div 8 + 1) * 8 < 80 then p div 80 else Suc (p div 80))"
    and "((p div 8 + 1) * 8) mod 80 = (if (p mod 80 div 8 + 1) * 8 < 80 then (p mod 80 div 8 + 1) * 8 else 0)"
    unfolding e q_def [symmetric] r_def [symmetric] by (cases; simp)+
qed

lemma row_col_prev:
  fixes p :: nat
  assumes "0 < p"
  shows "(p - 1) div 80 = (if p mod 80 = 0 then p div 80 - 1 else p div 80)"
    and "(p - 1) mod 80 = (if p mod 80 = 0 then 79 else p mod 80 - 1)"
proof -
  obtain q where p: "p = Suc q" using assms by (cases p) auto
  show "(p - 1) div 80 = (if p mod 80 = 0 then p div 80 - 1 else p div 80)"
    and "(p - 1) mod 80 = (if p mod 80 = 0 then 79 else p mod 80 - 1)"
    unfolding p by (simp_all add: div_Suc mod_Suc)
qed

lemma term_place_cell:
  "t_cell (term_place c t) i j =
    (if c \<noteq> 10 \<and> c \<noteq> 13 \<and> c \<noteq> 9 \<and> c \<noteq> 8 \<and> i = t_row t \<and> j = t_col t then (c, t_attr t)
     else if c = 8 \<and> (if t_col t > 0 then i = t_row t \<and> j = t_col t - 1
                       else t_row t > 0 \<and> i = t_row t - 1 \<and> j = 79) then (32, t_attr t)
     else t_cell t i j)"
  by (simp add: term_place_def term_goto_def term_set_def)

lemma grid_prev_iff:
  fixes p :: nat
  assumes "j < 80"
  shows "Suc (80 * i + j) = p \<longleftrightarrow>
    (if p mod 80 > 0 then i = p div 80 \<and> j = p mod 80 - 1 else p div 80 > 0 \<and> i = p div 80 - 1 \<and> j = 79)"
proof (cases "p = 0")
  case False
  then have "Suc (80 * i + j) = p \<longleftrightarrow> 80 * i + j = p - 1" by auto
  also have "\<dots> \<longleftrightarrow> i = (p - 1) div 80 \<and> j = (p - 1) mod 80" by (rule grid_eq_iff [OF assms])
  also have "\<dots> \<longleftrightarrow> (if p mod 80 > 0 then i = p div 80 \<and> j = p mod 80 - 1
      else p div 80 > 0 \<and> i = p div 80 - 1 \<and> j = 79)"
    using False row_col_prev [of p] by auto
  finally show ?thesis .
qed simp

lemma fb_abs_place:
  assumes "fb_inv s"
  shows "fb_abs (fb_place_char c s) = term_place c (fb_abs s)"
proof (rule terminal_eqI)
  let ?p = "unat (cursor_pos s)"
  have p: "?p < 2000" "?p div 80 < 25" using assms by (simp_all add: fb_inv_def less_mult_imp_div_less)
  show "t_row (fb_abs (fb_place_char c s)) = t_row (term_place c (fb_abs s))"
    using row_col_prev(1) [of ?p] row_col_tab(1) [of ?p]
    by (auto simp: fb_abs_def cursor_place [OF assms] place_pos_def term_place_def term_goto_def term_set_def
        row_col_step)
  show "t_col (fb_abs (fb_place_char c s)) = t_col (term_place c (fb_abs s))"
    using row_col_prev(2) [of ?p] row_col_tab(2) [of ?p]
    by (auto simp: fb_abs_def cursor_place [OF assms] place_pos_def term_place_def term_goto_def term_set_def
        row_col_step)
  show "t_attr (fb_abs (fb_place_char c s)) = t_attr (term_place c (fb_abs s))"
    by (simp add: fb_abs_def term_place_def term_goto_def term_set_def)
  show "t_cell (fb_abs (fb_place_char c s)) i j = t_cell (term_place c (fb_abs s)) i j" for i j
  proof (cases "i < 25 \<and> j < 80")
    case True
    then have ij: "i < 25" "j < 80" by simp_all
    show ?thesis
      by (simp only: fb_abs_def term_place_cell terminal.simps fb_cell_place [OF assms grid_bound [OF ij]]
          grid_eq_iff [OF ij(2)] grid_prev_iff [OF ij(2)] ij simp_thms if_True)
  next
    case False
    with p have "\<not> (i = ?p div 80 \<and> j = ?p mod 80)" "\<not> (i = ?p div 80 \<and> j = ?p mod 80 - 1)"
      "\<not> (i = ?p div 80 - 1 \<and> j = 79)"
      by auto
    with False have "t_cell (term_place c (fb_abs s)) i j = t_cell (fb_abs s) i j"
      by (simp only: fb_abs_def term_place_cell terminal.simps simp_thms if_False split: if_split)
    with False show ?thesis by (simp only: fb_abs_def terminal.simps if_False)
  qed
qed

lemma fb_abs_scroll: "fb_abs (fb_scroll s) = term_scroll (fb_abs s)"
proof (rule terminal_eqI)
  show "t_cell (fb_abs (fb_scroll s)) i j = t_cell (term_scroll (fb_abs s)) i j" for i j
    using fb_cell_scroll [OF grid_bound, of i j s]
    by (auto simp: fb_abs_def term_scroll_def algebra_simps)
qed (simp_all add: fb_abs_def term_scroll_def fb_scroll_eq)

lemma fb_abs_put_char:
  assumes "fb_inv s"
  shows "fb_abs (fst (fb_put_char c (s, tr))) = term_put c (fb_abs s)"
proof -
  let ?s = "fb_place_char c s"
  have le: "unat (cursor_pos ?s) \<le> 2000"
    using place_pos_le assms by (simp add: cursor_place fb_inv_def)
  have full: "t_row (fb_abs ?s) = 25 \<longleftrightarrow> cursor_pos ?s \<ge> 80 * 25"
  proof -
    have "unat (cursor_pos ?s) div 80 = 25 \<longleftrightarrow> 2000 \<le> unat (cursor_pos ?s)"
      using le by auto
    then show ?thesis by (simp add: fb_abs_def word_le_nat_alt)
  qed
  show ?thesis
    using full
    by (simp add: fb_put_char_def term_put_def Let_def fb_abs_place [OF assms, symmetric] fb_abs_scroll)
qed

lemma fb_abs_fold:
  "fb_inv (fst st) \<Longrightarrow> fb_abs (fst (fold fb_put_char buf st)) = fold term_put buf (fb_abs (fst st))"
proof (induction buf arbitrary: st)
  case (Cons c buf)
  then show ?case
    using fb_abs_put_char [of "fst st" c "snd st"] fb_inv_put_char [of "fst st" c "snd st"] by simp
qed simp

lemma fb_fold_frame:
  "fb_inv (fst st) \<Longrightarrow> 4000 \<le> unat w \<Longrightarrow> fb (fst (fold fb_put_char buf st)) w = fb (fst st) w"
proof (induction buf arbitrary: st)
  case (Cons c buf)
  then show ?case
    using fb_put_char_frame [of "fst st" w c "snd st"] fb_inv_put_char [of "fst st" c "snd st"] by simp
qed simp

section \<open>The hardware cursor\<close>

text \<open>
  The CRT controller as its documentation describes it: a write to the command port
  selects a register, a write to the data port stores into the selected one; registers 14
  and 15 are the high and low byte of the cursor location.
\<close>

fun crtc_index :: "trace \<Rightarrow> byte" where
  "crtc_index [] = 0"
| "crtc_index (Out p v # tr) = (if p = FB_COMMAND_PORT then v else crtc_index tr)"
| "crtc_index (_ # tr) = crtc_index tr"

fun crtc_reg :: "byte \<Rightarrow> trace \<Rightarrow> byte" where
  "crtc_reg r [] = 0"
| "crtc_reg r (Out p v # tr) = (if p = FB_DATA_PORT \<and> crtc_index tr = r then v else crtc_reg r tr)"
| "crtc_reg r (_ # tr) = crtc_reg r tr"

definition vga_cursor :: "trace \<Rightarrow> u16" where
  "vga_cursor tr = push_bit 8 (ucast (crtc_reg 14 tr)) OR ucast (crtc_reg 15 tr)"

lemma split_u16: "push_bit 8 (ucast (ucast (drop_bit 8 pos AND 0x00FF) :: byte)) OR ucast (ucast (pos AND 0x00FF) :: byte) = (pos :: u16)"
proof -
  have m: "(0x00FF :: u16) = mask 8" by (simp add: mask_eq_exp_minus_1)
  show ?thesis unfolding m by (rule bit_word_eqI) (auto simp: bit_simps)
qed

lemma vga_cursor_move: "vga_cursor (fb_move_cursor pos tr) = pos"
  by (simp add: vga_cursor_def fb_move_cursor_def outb_def FB_COMMAND_PORT_def FB_DATA_PORT_def
      FB_HIGH_BYTE_COMMAND_def FB_LOW_BYTE_COMMAND_def split_u16)

lemma vga_cursor_put_char: "vga_cursor (snd (fb_put_char c st)) = cursor_pos (fst (fb_put_char c st))"
  by (simp add: fb_put_char_def Let_def split_def vga_cursor_move)

lemma outs_move_cursor [frame_simps]:
  "p \<noteq> FB_COMMAND_PORT \<Longrightarrow> p \<noteq> FB_DATA_PORT \<Longrightarrow> outs p (fb_move_cursor pos tr) = outs p tr"
  by (simp add: fb_move_cursor_def)

lemma outs_fb_fold:
  "p \<noteq> FB_COMMAND_PORT \<Longrightarrow> p \<noteq> FB_DATA_PORT \<Longrightarrow> outs p (snd (fold fb_put_char buf st)) = outs p (snd st)"
  by (induction buf arbitrary: st) (simp_all add: fb_put_char_def Let_def split_def frame_simps)

lemma outs_fb_out [frame_simps]:
  "p \<noteq> FB_COMMAND_PORT \<Longrightarrow> p \<noteq> FB_DATA_PORT \<Longrightarrow> outs p (snd (fb_out buf st)) = outs p (snd st)"
  by (simp add: fb_write_def outs_fb_fold)

lemma outs_fb_clear [frame_simps]:
  "p \<noteq> FB_COMMAND_PORT \<Longrightarrow> p \<noteq> FB_DATA_PORT \<Longrightarrow> outs p (snd (fb_clear st)) = outs p (snd st)"
  by (simp add: fb_clear_def Let_def split_def frame_simps)

section \<open>Properties of the driver\<close>

definition fb_bss :: fb_state where
  "fb_bss = \<lparr>fb = (\<lambda>_. 0), cursor_pos = 0, current_fg = FB_WHITE, current_bg = FB_BLACK\<rparr>"

lemma fb_inv_bss: "fb_inv fb_bss"
  by (simp add: fb_inv_def fb_bss_def)

text \<open>
  C12: The linear driver implements the abstract terminal: writing a buffer with
  \<open>fb_write\<close> changes the 80 by 25 grid, the cursor row and column exactly as putting its
  characters one after the other on the terminal does, control characters, line wrap and
  scrolling included. No byte beyond the 4000 bytes of the visible page is touched, and the
  cursor is on screen again afterwards.
\<close>

theorem fb_write_refines_terminal:
  assumes "fb_inv s"
  shows "fb_abs (fst (fb_out buf (s, tr))) = fold term_put buf (fb_abs s) \<and> fb_inv (fst (fb_out buf (s, tr))) \<and>
    (\<forall>w. 4000 \<le> unat w \<longrightarrow> fb (fst (fb_out buf (s, tr))) w = fb s w)"
  using fb_abs_fold [of "(s, tr)"] fb_fold_frame [of "(s, tr)" _ buf] fb_inv_fold [of "(s, tr)" buf] assms
  by (simp add: fb_write_def)

theorem fb_write_refines_terminal_witness:
  "fb_inv fb_bss \<and>
   fb_abs (fst (fb_out (str_bytes ''ok'' @ [10]) (fb_bss, []))) =
     fold term_put (str_bytes ''ok'' @ [10]) (fb_abs fb_bss) \<and>
   fb (fst (fb_out (replicate 3000 65) (fb_bss, []))) 4000 = fb fb_bss 4000"
proof -
  have "4000 \<le> unat (4000 :: u32)" by simp
  then show ?thesis
    using fb_write_refines_terminal [OF fb_inv_bss, of "str_bytes ''ok'' @ [10]" "[]"]
      fb_write_refines_terminal [OF fb_inv_bss, of "replicate 3000 65" "[]"] fb_inv_bss by blast
qed

text \<open>
  After any non-empty \<open>fb_write\<close>, and after \<open>fb_clear\<close>, the cursor location held by
  the CRT controller registers is the driver's \<open>cursor_pos\<close>.
\<close>

lemma fb_cursor_synchronised:
  assumes "buf \<noteq> []"
  shows "vga_cursor (snd (fb_out buf st)) = cursor_pos (fst (fb_out buf st)) \<and>
    vga_cursor (snd (fb_clear st)) = cursor_pos (fst (fb_clear st))"
proof -
  obtain cs c where "buf = cs @ [c]" using assms by (metis rev_exhaust)
  then show ?thesis
    by (cases st) (simp add: fb_write_def vga_cursor_put_char fb_clear_eq vga_cursor_move)
qed

text \<open>
  \<open>fb_clear\<close> blanks all 2000 cells with the current attribute, homes the cursor and
  leaves the bytes after the page alone.
\<close>

lemma fb_clear_blanks:
  "fb_abs (fst (fb_clear (s, tr))) = term_clear (fb_abs s) \<and>
   fb (fst (fb_clear (s, tr))) w =
     (if unat w < 4000 then if even (unat w) then 32 else fb_attr (current_fg s) (current_bg s) else fb s w)"
proof
  show "fb_abs (fst (fb_clear (s, tr))) = term_clear (fb_abs s)"
  proof (rule terminal_eqI)
    show "t_cell (fb_abs (fst (fb_clear (s, tr)))) i j = t_cell (term_clear (fb_abs s)) i j" for i j
      using fb_cell_clear [OF grid_bound, of i j s tr] by (simp add: fb_abs_def term_clear_def)
  qed (simp_all add: fb_abs_def term_clear_def fb_clear_eq)
qed (simp add: fb_clear_eq)

end
