(* ===== verification/Pic.thy ===== *)
theory Pic
  imports Port_IO
begin

text \<open>
  \<open>drivers/pic.c\<close>: the driver of the two cascaded 8259 interrupt controllers, and the
  controllers' own behaviour (initialisation words, mask register, end of interrupt) as a
  function of the port writes, against which the driver is checked.
\<close>

definition PIC1_PORT_A :: u16 where "PIC1_PORT_A = 0x20"
definition PIC1_PORT_B :: u16 where "PIC1_PORT_B = 0x21"
definition PIC2_PORT_A :: u16 where "PIC2_PORT_A = 0xA0"
definition PIC2_PORT_B :: u16 where "PIC2_PORT_B = 0xA1"
definition PIC1_START_INTERRUPT :: byte where "PIC1_START_INTERRUPT = 0x20"
definition PIC2_START_INTERRUPT :: byte where "PIC2_START_INTERRUPT = 0x28"
definition PIC2_END_INTERRUPT :: byte where "PIC2_END_INTERRUPT = PIC2_START_INTERRUPT + 7"
definition PIC_ACK :: byte where "PIC_ACK = 0x20"

lemmas pic_const_defs = PIC1_PORT_A_def PIC1_PORT_B_def PIC2_PORT_A_def PIC2_PORT_B_def
  PIC1_START_INTERRUPT_def PIC2_START_INTERRUPT_def PIC2_END_INTERRUPT_def PIC_ACK_def

definition pic_ack :: "byte \<Rightarrow> trace \<Rightarrow> trace" where
  "pic_ack irq tr =
     (if irq < PIC1_START_INTERRUPT \<or> irq > PIC2_END_INTERRUPT then tr
      else outb PIC1_PORT_A PIC_ACK
             (if irq \<ge> PIC2_START_INTERRUPT then outb PIC2_PORT_A PIC_ACK tr else tr))"

definition pic_set_mask :: "byte \<Rightarrow> byte \<Rightarrow> trace \<Rightarrow> trace" where
  "pic_set_mask mask1 mask2 tr = outb PIC2_PORT_B mask2 (outb PIC1_PORT_B mask1 tr)"

definition pic_remap :: "trace \<Rightarrow> trace" where
  "pic_remap tr =
     (let tr = outb PIC1_PORT_A 0x11 tr;
          tr = outb PIC2_PORT_A 0x11 tr;
          tr = outb PIC1_PORT_B PIC1_START_INTERRUPT tr;
          tr = outb PIC2_PORT_B PIC2_START_INTERRUPT tr;
          tr = outb PIC1_PORT_B 0x04 tr;
          tr = outb PIC2_PORT_B 0x02 tr;
          tr = outb PIC1_PORT_B 0x01 tr;
          tr = outb PIC2_PORT_B 0x01 tr
      in pic_set_mask 0xED 0xFF tr)"

section \<open>The 8259 controller\<close>

text \<open>
  One controller: the mask and in-service registers, the vector base, the cascade and mode
  words, and which initialisation word the data port takes next.
\<close>

datatype pic_phase = Ready | Want_ICW2 | Want_ICW3 | Want_ICW4

record pic_chip =
  p_imr :: byte
  p_isr :: byte
  p_base :: byte
  p_cascade :: byte
  p_mode :: byte
  p_icw1 :: byte
  p_phase :: pic_phase

definition pic_command :: "byte \<Rightarrow> pic_chip \<Rightarrow> pic_chip" where
  "pic_command v c =
     (if bit v 4 then c\<lparr>p_icw1 := v, p_imr := 0, p_isr := 0, p_phase := Want_ICW2\<rparr>
      else if v AND 0xF8 = 0x20 then c\<lparr>p_isr := p_isr c AND (p_isr c - 1)\<rparr>
      else c)"

definition pic_data :: "byte \<Rightarrow> pic_chip \<Rightarrow> pic_chip" where
  "pic_data v c = (case p_phase c of
       Want_ICW2 \<Rightarrow> c\<lparr>p_base := v AND 0xF8,
                      p_phase := if \<not> bit (p_icw1 c) 1 then Want_ICW3 else if bit (p_icw1 c) 0 then Want_ICW4 else Ready\<rparr>
     | Want_ICW3 \<Rightarrow> c\<lparr>p_cascade := v, p_phase := if bit (p_icw1 c) 0 then Want_ICW4 else Ready\<rparr>
     | Want_ICW4 \<Rightarrow> c\<lparr>p_mode := v, p_phase := Ready\<rparr>
     | Ready \<Rightarrow> c\<lparr>p_imr := v\<rparr>)"

fun pic_step :: "u16 \<Rightarrow> u16 \<Rightarrow> io_event \<Rightarrow> pic_chip \<Rightarrow> pic_chip" where
  "pic_step pa pb (Out p v) c = (if p = pa then pic_command v c else if p = pb then pic_data v c else c)"
| "pic_step pa pb _ c = c"

definition pic_master :: "trace \<Rightarrow> pic_chip \<Rightarrow> pic_chip" where
  "pic_master tr c = foldr (pic_step PIC1_PORT_A PIC1_PORT_B) tr c"

definition pic_slave :: "trace \<Rightarrow> pic_chip \<Rightarrow> pic_chip" where
  "pic_slave tr c = foldr (pic_step PIC2_PORT_A PIC2_PORT_B) tr c"

text \<open>The vector the CPU sees for input line \<open>i\<close> of a controller.\<close>

definition pic_vector :: "pic_chip \<Rightarrow> nat \<Rightarrow> nat" where
  "pic_vector c i = unat (p_base c) + i"

lemma pic_chips_after_remap:
  "pic_master (pic_remap tr) c =
     \<lparr>p_imr = 0xED, p_isr = 0, p_base = 0x20, p_cascade = 0x04, p_mode = 0x01, p_icw1 = 0x11, p_phase = Ready\<rparr>"
  "pic_slave (pic_remap tr) c =
     \<lparr>p_imr = 0xFF, p_isr = 0, p_base = 0x28, p_cascade = 0x02, p_mode = 0x01, p_icw1 = 0x11, p_phase = Ready\<rparr>"
  unfolding pic_master_def pic_slave_def pic_remap_def pic_set_mask_def outb_def
  by (simp_all add: pic_const_defs pic_command_def pic_data_def Let_def bit_numeral_rec)

lemma less_8_cases: "i < (8::nat) \<Longrightarrow> i \<in> {0, 1, 2, 3, 4, 5, 6, 7}"
  by auto

text \<open>
  \<open>pic_remap\<close>, from any state of the two controllers: both complete their
  initialisation sequence and are ready, the lines of the master arrive at vectors 32 to 39
  and those of the slave at 40 to 47, the slave hangs on the master's line 2, both are in
  8086 mode, and the only unmasked lines are the master's lines 1 and 4, that is the
  vectors 33 and 36.
\<close>

lemma pic_remap_programs:
  "let m = pic_master (pic_remap tr) c1; s = pic_slave (pic_remap tr) c2 in
     p_phase m = Ready \<and> p_phase s = Ready \<and> p_cascade m = 2 ^ unat (p_cascade s) \<and>
     p_mode m = 0x01 \<and> p_mode s = 0x01 \<and>
     {pic_vector m i | i. i < 8} = {32..<40} \<and> {pic_vector s i | i. i < 8} = {40..<48} \<and>
     {pic_vector m i | i. i < 8 \<and> \<not> bit (p_imr m) i} = {33, 36} \<and>
     {pic_vector s i | i. i < 8 \<and> \<not> bit (p_imr s) i} = {}"
proof -
  let ?m = "pic_master (pic_remap tr) c1" and ?s = "pic_slave (pic_remap tr) c2"
  have lines: "{base + i | i. i < 8} = {base..<base + 8}" for base :: nat
    by (force simp: le_iff_add)
  have m: "i < 8 \<and> \<not> bit (0xED :: byte) i \<longleftrightarrow> i = 1 \<or> i = 4" for i
    using less_8_cases [of i] by (auto simp: bit_numeral_rec)
  have s: "\<not> (i < 8 \<and> \<not> bit (0xFF :: byte) i)" for i
    using less_8_cases [of i] by (auto simp: bit_numeral_rec)
  have "{pic_vector ?m i | i. i < 8 \<and> \<not> bit (p_imr ?m) i} = {33, 36}"
    unfolding pic_chips_after_remap pic_vector_def pic_chip.select_convs m by auto
  moreover have "{pic_vector ?s i | i. i < 8 \<and> \<not> bit (p_imr ?s) i} = {}"
    unfolding pic_chips_after_remap using s by auto
  moreover have "{pic_vector ?m i | i. i < 8} = {32..<40}" "{pic_vector ?s i | i. i < 8} = {40..<48}"
    unfolding pic_chips_after_remap pic_vector_def using lines [of 32] lines [of 40] by simp_all
  ultimately show ?thesis unfolding Let_def by (simp add: pic_chips_after_remap)
qed

text \<open>
  \<open>pic_ack\<close> on controllers that are not being initialised: for a vector of the master
  exactly the master's highest-priority in-service line is cleared, for a vector of the
  slave those of both controllers, and for every other number nothing happens at all.
\<close>

lemma pic_ack_ends_interrupt:
  "pic_master (pic_ack irq tr) c1 = (let m = pic_master tr c1 in
     if irq \<in> {32..47} then m\<lparr>p_isr := p_isr m AND (p_isr m - 1)\<rparr> else m) \<and>
   pic_slave (pic_ack irq tr) c2 = (let s = pic_slave tr c2 in
     if irq \<in> {40..47} then s\<lparr>p_isr := p_isr s AND (p_isr s - 1)\<rparr> else s) \<and>
   (irq \<notin> {32..47} \<longrightarrow> pic_ack irq tr = tr)"
proof -
  have cmd: "pic_command 0x20 c = c\<lparr>p_isr := p_isr c AND (p_isr c - 1)\<rparr>" for c :: pic_chip
    by (simp add: pic_command_def bit_numeral_rec)
  have "(irq < 32 \<or> 47 < irq) \<longleftrightarrow> irq \<notin> {32..47}" by auto
  moreover have "40 \<le> irq \<Longrightarrow> \<not> irq < 32" using order_trans [of 32 40 irq] by (auto simp: not_less)
  ultimately show ?thesis
    unfolding pic_ack_def pic_master_def pic_slave_def outb_def
    by (auto simp: pic_const_defs cmd Let_def)
qed

end
