(* ===== verification/Isr.thy ===== *)
theory Isr
  imports Serial Framebuffer Pic
begin

text \<open>
  \<open>arch/x86/cpu/isr.c\<close>: the common interrupt handler, on the state of the running kernel
  (\<open>kernel\<close>: the static variables of the drivers, the memory system calls refer to, and the
  hardware trace). Handlers may loop, so they return an \<open>option\<close>. Waiting for interrupts with
  \<open>hlt\<close> and \<open>keyboard_read_char\<close> of \<open>drivers/keyboard.c\<close> are here too, since what they do
  depends on the interrupts delivered.
\<close>

record kernel =
  k_fb :: fb_state
  k_kbd :: kbd_state
  k_tbl :: handlers
  k_mem :: memory
  k_tr :: trace

definition with_fb :: "(fb_state \<times> trace \<Rightarrow> fb_state \<times> trace) \<Rightarrow> kernel \<Rightarrow> kernel" where
  "with_fb f k = (let (s, tr) = f (k_fb k, k_tr k) in k\<lparr>k_fb := s, k_tr := tr\<rparr>)"

abbreviation k_fb_write :: "byte list \<Rightarrow> kernel \<Rightarrow> kernel" where
  "k_fb_write buf \<equiv> with_fb (fb_out buf)"

abbreviation k_set_color :: "byte \<Rightarrow> byte \<Rightarrow> kernel \<Rightarrow> kernel" where
  "k_set_color fg bg \<equiv> with_fb (\<lambda>(s, tr). (fb_set_color fg bg s, tr))"

definition k_serial_write :: "hardware \<Rightarrow> byte list \<Rightarrow> kernel \<Rightarrow> kernel option" where
  "k_serial_write hw buf k =
     Option.bind (serial_write hw SERIAL_COM1_BASE buf (k_tr k)) (\<lambda>(_, tr). Some (k\<lparr>k_tr := tr\<rparr>))"

text \<open>The call through the function pointer of the handler table.\<close>

definition run_handler :: "hardware \<Rightarrow> isr_handler \<Rightarrow> kernel \<Rightarrow> kernel option" where
  "run_handler hw h k = (case h of
       Keyboard_interrupt_handler \<Rightarrow>
         (let (s, tr) = keyboard_interrupt_handler hw (k_kbd k, k_tr k) in Some (k\<lparr>k_kbd := s, k_tr := tr\<rparr>))
     | Serial_interrupt_handler \<Rightarrow>
         Option.bind (serial_interrupt_handler hw (k_kbd k, k_tr k)) (\<lambda>(s, tr). Some (k\<lparr>k_kbd := s, k_tr := tr\<rparr>)))"

definition exception_message :: "byte list" where
  "exception_message = 10 # str_bytes ''[EXCEPTION] Unhandled CPU Exception: ''"

definition report_exception :: "u32 \<Rightarrow> kernel \<Rightarrow> kernel" where
  "report_exception interrupt k =
     (let k = k_set_color FB_LIGHT_RED FB_BLACK k;
          k = with_fb (\<lambda>st. snd (fb_std_write (take 37 exception_message) st)) k
      in if interrupt \<ge> 10
         then with_fb (\<lambda>st. snd (fb_std_write [48 + ucast (interrupt div 10), 48 + ucast (interrupt mod 10), 10] st)) k
         else with_fb (\<lambda>st. snd (fb_std_write [48 + ucast interrupt, 10] st)) k)"

definition interrupt_handler :: "hardware \<Rightarrow> u32 \<Rightarrow> kernel \<Rightarrow> kernel option" where
  "interrupt_handler hw interrupt k =
     Option.bind
       (case (if interrupt < 256 then k_tbl k (ucast interrupt) else None) of
          Some h \<Rightarrow> run_handler hw h k
        | None \<Rightarrow> Some (if interrupt < 32 then report_exception interrupt k else k))
       (\<lambda>k. Some (if interrupt \<ge> 32 \<and> interrupt \<le> 47 then k\<lparr>k_tr := pic_ack (ucast interrupt) (k_tr k)\<rparr> else k))"

section \<open>Waiting for interrupts\<close>

text \<open>
  A place in the code at which interrupts are enabled: the hardware may raise one
  interrupt there or none. The instruction \<open>hlt\<close> stops the processor until one arrives; if
  none ever does, it does not return.
\<close>

definition irq_point :: "hardware \<Rightarrow> kernel \<Rightarrow> kernel option" where
  "irq_point hw k =
     (if interrupts_on (k_tr k) then
        (case irq_line hw (k_tr k) of None \<Rightarrow> Some k | Some v \<Rightarrow> interrupt_handler hw (ucast v) k)
      else Some k)"

definition cpu_hlt :: "hardware \<Rightarrow> kernel \<Rightarrow> kernel option" where
  "cpu_hlt hw k =
     (let k = k\<lparr>k_tr := Hlt # k_tr k\<rparr> in
      if interrupts_on (k_tr k) then
        (case irq_line hw (k_tr k) of None \<Rightarrow> None | Some v \<Rightarrow> interrupt_handler hw (ucast v) k)
      else None)"

partial_function (option) kbd_wait :: "hardware \<Rightarrow> kernel \<Rightarrow> kernel option" where
  "kbd_wait hw k =
     (if \<not> keyboard_has_char (k_kbd k)
      then Option.bind (irq_point hw k) (\<lambda>k. Option.bind (cpu_hlt hw k) (kbd_wait hw))
      else Some k)"

definition keyboard_read_char :: "hardware \<Rightarrow> kernel \<Rightarrow> (byte \<times> kernel) option" where
  "keyboard_read_char hw k =
     Option.bind (kbd_wait hw (k\<lparr>k_tr := enable_interrupts (k_tr k)\<rparr>))
       (\<lambda>k. let (c, s) = keyboard_getchar (k_kbd k) in Some (word_of_int c, k\<lparr>k_kbd := s\<rparr>))"

section \<open>What handlers leave alone\<close>

lemma with_fb_simps [simp]:
  "k_kbd (with_fb f k) = k_kbd k" "k_tbl (with_fb f k) = k_tbl k" "k_mem (with_fb f k) = k_mem k"
  "k_fb (with_fb f k) = fst (f (k_fb k, k_tr k))" "k_tr (with_fb f k) = snd (f (k_fb k, k_tr k))"
  by (simp_all add: with_fb_def split_def Let_def)

definition only_reads :: "trace \<Rightarrow> bool" where
  "only_reads es \<longleftrightarrow> (\<forall>e \<in> set es. \<exists>p v. e = In p v)"

lemma only_reads_simps [simp]:
  "only_reads []" "only_reads (In p v # es) \<longleftrightarrow> only_reads es" "only_reads (es @ fs) \<longleftrightarrow> only_reads es \<and> only_reads fs"
  by (auto simp: only_reads_def)

lemma only_reads_frame:
  assumes "only_reads es"
  shows "outs p es = []" "Sti \<notin> set es" "Cli \<notin> set es"
proof -
  show "outs p es = []" using assms by (induction p es rule: outs.induct) (auto simp: only_reads_def)
qed (use assms in \<open>auto simp: only_reads_def\<close>)

lemma keyboard_interrupt_reads:
  "\<exists>es. snd (keyboard_interrupt_handler hw (s, tr)) = es @ tr \<and> only_reads es"
  by (rule exI [of _ "[In KBD_DATA_PORT (port_in hw tr KBD_DATA_PORT)]"])
    (simp add: keyboard_interrupt_handler_def read_scan_code_def split_def Let_def)

lemma serial_receive_round_reads:
  "\<exists>es. snd (serial_receive_round hw (s, tr)) = es @ tr \<and> only_reads es"
proof -
  obtain es where "snd (serial_read_char hw SERIAL_COM1_BASE tr) = es @ tr" "only_reads es"
  proof (cases "port_in hw tr (SERIAL_LINE_STATUS_PORT SERIAL_COM1_BASE) AND 1 = 0")
    case True
    then show ?thesis
      by (intro that [of "[In (SERIAL_LINE_STATUS_PORT SERIAL_COM1_BASE) (port_in hw tr (SERIAL_LINE_STATUS_PORT SERIAL_COM1_BASE))]"])
        (simp_all add: serial_read_char_def split_def Let_def)
  next
    case False
    let ?e = "In (SERIAL_LINE_STATUS_PORT SERIAL_COM1_BASE) (port_in hw tr (SERIAL_LINE_STATUS_PORT SERIAL_COM1_BASE))"
    from False show ?thesis
      by (intro that [of "[In (SERIAL_DATA_PORT SERIAL_COM1_BASE) (port_in hw (?e # tr) (SERIAL_DATA_PORT SERIAL_COM1_BASE)), ?e]"])
        (simp_all add: serial_read_char_def split_def Let_def)
  qed
  then show ?thesis by (simp add: serial_receive_round_def split_def Let_def)
qed

definition frame_step :: "kbd_state \<times> trace \<Rightarrow> kbd_state \<times> trace \<Rightarrow> bool" where
  "frame_step st st' \<longleftrightarrow> (kbd_inv (fst st) \<longrightarrow> kbd_inv (fst st')) \<and> (\<exists>es. snd st' = es @ snd st \<and> only_reads es)"

lemma frame_step_trans: "frame_step a b \<Longrightarrow> frame_step b c \<Longrightarrow> frame_step a c"
  unfolding frame_step_def by (metis append.assoc only_reads_simps(3))

lemma frame_step_read: "frame_step (s, tr) (s, In p v # tr)"
  unfolding frame_step_def by (auto intro: exI [of _ "[In p v]"])

lemma frame_step_round: "frame_step st (serial_receive_round hw st)"
  using serial_receive_round_reads [of hw "fst st" "snd st"]
  by (auto simp: frame_step_def serial_receive_round_def split_def Let_def kbd_inv_put)

lemma serial_interrupt_frame:
  assumes "serial_interrupt_handler hw st = Some st'"
  shows "frame_step st st'"
proof (rule serial_interrupt_handler.raw_induct [where P = "\<lambda>hw. frame_step", OF _ assms])
  fix rec and hw :: hardware and st st' :: "kbd_state \<times> trace"
  let ?r = "serial_receive hw SERIAL_COM1_BASE (snd st)"
  assume IH: "\<And>hw st st'. rec hw st = Some st' \<Longrightarrow> frame_step st st'"
    and body: "(if fst ?r \<noteq> 0 then rec hw (serial_receive_round hw (fst st, snd ?r)) else Some (fst st, snd ?r)) = Some st'"
  have read: "frame_step st (fst st, snd ?r)" using frame_step_read by (cases st) simp
  show "frame_step st st'"
  proof (cases "fst ?r = 0")
    case True
    with body read show ?thesis by (simp split: if_splits)
  next
    case False
    then have "rec hw (serial_receive_round hw (fst st, snd ?r)) = Some st'" using body by (simp split: if_splits)
    from frame_step_trans [OF frame_step_trans [OF read frame_step_round] IH [OF this]] show ?thesis .
  qed
qed

lemma keyboard_interrupt_frame: "frame_step st (keyboard_interrupt_handler hw st)"
  using keyboard_interrupt_reads [of hw "fst st" "snd st"]
  by (auto simp: frame_step_def keyboard_interrupt_handler_def split_def Let_def kbd_inv_put) (simp add: kbd_inv_def)+

lemma run_handler_frame:
  assumes "run_handler hw h k = Some k'"
  shows "\<exists>s tr. k' = k\<lparr>k_kbd := s, k_tr := tr\<rparr> \<and> frame_step (k_kbd k, k_tr k) (s, tr)"
proof (cases h)
  case Keyboard_interrupt_handler
  obtain s tr where r: "keyboard_interrupt_handler hw (k_kbd k, k_tr k) = (s, tr)" by fastforce
  with assms Keyboard_interrupt_handler have "k' = k\<lparr>k_kbd := s, k_tr := tr\<rparr>" by (simp add: run_handler_def)
  moreover have "frame_step (k_kbd k, k_tr k) (s, tr)" using keyboard_interrupt_frame [of "(k_kbd k, k_tr k)" hw] r by simp
  ultimately show ?thesis by blast
next
  case Serial_interrupt_handler
  with assms obtain s tr where r: "serial_interrupt_handler hw (k_kbd k, k_tr k) = Some (s, tr)" "k' = k\<lparr>k_kbd := s, k_tr := tr\<rparr>"
    by (cases "serial_interrupt_handler hw (k_kbd k, k_tr k)") (auto simp: run_handler_def)
  with serial_interrupt_frame [OF r(1)] show ?thesis by blast
qed

section \<open>Properties of the dispatcher\<close>

lemma vector_byte: "n < 256 \<Longrightarrow> unat (ucast (n :: u32) :: byte) = unat n"
  by (simp add: u32_nat unsigned_ucast_eq take_bit_nat_eq_self)

lemma irq_body:
  assumes "interrupt_handler hw n k = Some k'" and n: "32 \<le> n" "n \<le> 47"
  obtains s tr where "k' = k\<lparr>k_kbd := s, k_tr := pic_ack (ucast n) tr\<rparr>" "frame_step (k_kbd k, k_tr k) (s, tr)"
proof -
  have "\<not> n < 32" "n < 256" using n by (simp_all add: u32_nat)
  with assms obtain k1 where k1: "k' = k1\<lparr>k_tr := pic_ack (ucast n) (k_tr k1)\<rparr>"
    "case k_tbl k (ucast n) of Some h \<Rightarrow> run_handler hw h k = Some k1 | None \<Rightarrow> k1 = k"
    by (auto simp: interrupt_handler_def bind_eq_Some_conv split: option.splits)
  show ?thesis
  proof (cases "k_tbl k (ucast n)")
    case None
    have "frame_step (k_kbd k, k_tr k) (k_kbd k, k_tr k)" by (simp add: frame_step_def)
    with None k1 show ?thesis by (intro that [where s = "k_kbd k" and tr = "k_tr k"]) simp_all
  next
    case (Some h)
    with k1 run_handler_frame [of hw h k k1] show ?thesis by (auto intro: that)
  qed
qed

text \<open>
  C21: Every hardware interrupt is acknowledged exactly once: whatever handler is
  registered for vectors 32 to 47, or none, when \<open>interrupt_handler\<close> returns it has written
  one end-of-interrupt command to the master controller, one to the slave as well exactly
  for vectors from 40, the ring buffer is still well formed, and screen, handler table and
  user memory are untouched.
\<close>

theorem interrupt_acknowledged:
  assumes "interrupt_handler hw n k = Some k'" and "32 \<le> n" and "n \<le> 47"
  shows "outs PIC1_PORT_A (k_tr k') = outs PIC1_PORT_A (k_tr k) @ [PIC_ACK] \<and>
    outs PIC2_PORT_A (k_tr k') = outs PIC2_PORT_A (k_tr k) @ (if 40 \<le> n then [PIC_ACK] else []) \<and>
    (kbd_inv (k_kbd k) \<longrightarrow> kbd_inv (k_kbd k')) \<and>
    k_fb k' = k_fb k \<and> k_tbl k' = k_tbl k \<and> k_mem k' = k_mem k"
proof -
  obtain s tr where k': "k' = k\<lparr>k_kbd := s, k_tr := pic_ack (ucast n) tr\<rparr>" "frame_step (k_kbd k, k_tr k) (s, tr)"
    using irq_body [OF assms] by metis
  obtain es where es: "tr = es @ k_tr k" "only_reads es" using k'(2) by (auto simp: frame_step_def)
  have "n < 256" using assms(3) by (simp add: u32_nat)
  from vector_byte [OF this] have "\<not> (ucast n :: byte) < 32" "\<not> (47 :: byte) < ucast n" "(40 :: byte) \<le> ucast n \<longleftrightarrow> 40 \<le> n"
    using assms(2,3) by (simp_all add: word_less_nat_alt word_le_nat_alt)
  then have "outs p (k_tr k') = outs p (k_tr k) @ (if p = PIC2_PORT_A \<and> 40 \<le> n then [PIC_ACK] else if p = PIC1_PORT_A then [PIC_ACK] else [])" for p
    using k'(1) es only_reads_frame(1) [OF es(2)] by (simp add: pic_ack_def pic_const_defs)
  with k' show ?thesis by (simp add: pic_const_defs frame_step_def)
qed

lemma fb_out_append: "fb_out b (fb_out a st) = fb_out (a @ b) st"
  by (simp add: fb_write_def)

lemma with_fb_comp: "with_fb f (with_fb g k) = with_fb (\<lambda>st. f (g st)) k"
  by (simp add: with_fb_def split_def Let_def)

lemma small_decimal:
  assumes "n < 100"
  shows "numeral_in 10 n = (if n < 10 then [48 + word_of_nat n] else [48 + word_of_nat (n div 10), 48 + word_of_nat (n mod 10)])"
proof -
  have "n div 10 < 10" using assms by (simp add: div_less_iff_less_mult)
  then show ?thesis by (simp add: numeral_in.simps [of 10 n] numeral_in.simps [of 10 "n div 10"] digit_def)
qed

text \<open>
  C37: A CPU exception (vector below 32) without a registered handler is reported on the
  screen in light red, with the vector in decimal, and is not acknowledged to the
  interrupt controllers. The length 37 passed to \<open>write\<close> cuts the last character of the
  38-byte message, so the number follows the colon without the space.
\<close>

theorem exception_reported:
  assumes "n < 32" and "k_tbl k (ucast n) = None"
  shows "\<exists>k'. interrupt_handler hw n k = Some k' \<and>
    (k_fb k', k_tr k') = fb_out ([10] @ str_bytes ''[EXCEPTION] Unhandled CPU Exception:'' @ numeral_in 10 (unat n) @ [10])
      (fb_set_color FB_LIGHT_RED FB_BLACK (k_fb k), k_tr k) \<and>
    outs PIC1_PORT_A (k_tr k') = outs PIC1_PORT_A (k_tr k) \<and> outs PIC2_PORT_A (k_tr k') = outs PIC2_PORT_A (k_tr k)"
proof -
  have n: "n < 256" "\<not> 32 \<le> n" "unat n < 32" using assms(1) by (simp_all add: u32_nat)
  have t: "take 37 exception_message = [10] @ str_bytes ''[EXCEPTION] Unhandled CPU Exception:''"
    by (simp add: exception_message_def str_bytes_def)
  have d: "(if 10 \<le> n then [48 + ucast (n div 10), 48 + ucast (n mod 10), 10] else [48 + ucast n, 10 :: byte]) =
      numeral_in 10 (unat n) @ [10]"
  proof -
    have u: "unat n div 10 = unat (n div 10)" "unat n mod 10 = unat (n mod 10)" by (simp_all add: unat_div unat_mod)
    have "unat n < 100" using n(3) by simp
    then show ?thesis unfolding small_decimal [OF \<open>unat n < 100\<close>] u by (auto simp: u32_nat)
  qed
  let ?k = "with_fb (fb_out (numeral_in 10 (unat n) @ [10])) (with_fb (fb_out (take 37 exception_message))
      (with_fb (\<lambda>(s, tr). (fb_set_color FB_LIGHT_RED FB_BLACK s, tr)) k))"
  have "report_exception n k = ?k"
    unfolding report_exception_def Let_def fb_std_write_def d [symmetric] by simp
  then have run: "interrupt_handler hw n k = Some ?k"
    using assms n by (simp add: interrupt_handler_def)
  moreover have "(k_fb ?k, k_tr ?k) = fb_out ([10] @ str_bytes ''[EXCEPTION] Unhandled CPU Exception:'' @ numeral_in 10 (unat n) @ [10])
      (fb_set_color FB_LIGHT_RED FB_BLACK (k_fb k), k_tr k)"
    by (simp add: t fb_out_append)
  moreover have "outs p (k_tr ?k) = outs p (k_tr k)" if "p = PIC1_PORT_A \<or> p = PIC2_PORT_A" for p
    using that by (auto simp: fb_out_append outs_fb_out pic_const_defs FB_COMMAND_PORT_def FB_DATA_PORT_def)
  ultimately show ?thesis by blast
qed

definition kernel_up :: kernel where
  "kernel_up = \<lparr>k_fb = fb_bss, k_kbd = kbd_bss,
     k_tbl = register_interrupt_handler 36 Serial_interrupt_handler
               (register_interrupt_handler 33 Keyboard_interrupt_handler no_handlers),
     k_mem = (\<lambda>_. 0), k_tr = []\<rparr>"

lemma kernel_up_simps [simp]:
  "k_fb kernel_up = fb_bss" "k_kbd kernel_up = kbd_bss" "k_mem kernel_up = (\<lambda>_. 0)" "k_tr kernel_up = []"
  "k_tbl kernel_up 33 = Some Keyboard_interrupt_handler" "k_tbl kernel_up 36 = Some Serial_interrupt_handler"
  by (simp_all add: kernel_up_def)

lemma keyboard_irq_returns:
  assumes "k_tbl k 33 = Some Keyboard_interrupt_handler"
  shows "interrupt_handler hw 33 k = Some (k\<lparr>k_kbd := fst (keyboard_interrupt_handler hw (k_kbd k, k_tr k)),
    k_tr := pic_ack 33 (snd (keyboard_interrupt_handler hw (k_kbd k, k_tr k)))\<rparr>)"
  using assms by (simp add: interrupt_handler_def run_handler_def split_def Let_def)

theorem interrupt_acknowledged_witness:
  "\<exists>k'. interrupt_handler (const_hw 0x1E) 33 kernel_up = Some k' \<and> outs 0x20 (k_tr k') = [0x20]"
proof -
  obtain k' where r: "interrupt_handler (const_hw 0x1E) 33 kernel_up = Some k'"
    using keyboard_irq_returns [of kernel_up "const_hw 0x1E"] by auto
  have "(32 :: u32) \<le> 33" "(33 :: u32) \<le> 47" by simp_all
  from interrupt_acknowledged [OF r this] r show ?thesis by (simp add: PIC1_PORT_A_def PIC_ACK_def)
qed

theorem exception_reported_witness:
  "\<exists>k'. interrupt_handler (const_hw 0) 13 kernel_up = Some k' \<and>
     (k_fb k', k_tr k') = fb_out ([10] @ str_bytes ''[EXCEPTION] Unhandled CPU Exception:'' @ [49, 51, 10])
       (fb_set_color FB_LIGHT_RED FB_BLACK fb_bss, [])"
proof -
  have a: "(13 :: u32) < 32" "k_tbl kernel_up (ucast (13 :: u32)) = None"
    by (simp_all add: kernel_up_def register_interrupt_handler_def no_handlers_def)
  have "numeral_in 10 (unat (13 :: u32)) @ [10] = [49, 51, 10]" by (simp add: small_decimal)
  with exception_reported [OF a, of "const_hw 0"] show ?thesis by auto
qed

text \<open>
  \<open>keyboard_read_char\<close> on an empty buffer halts the CPU with interrupts enabled; when
  the key press that wakes it stands for a character, that character is returned, the
  buffer is empty again and the interrupt has been acknowledged once.
\<close>

lemma keyboard_read_char_wakes:
  assumes "kbd_inv (k_kbd k)" and "kbd_pending (k_kbd k) = []"
    and "k_tbl k 33 = Some Keyboard_interrupt_handler"
    and "irq_line hw (Sti # k_tr k) = None" and "irq_line hw (Hlt # Sti # k_tr k) = Some 33"
    and "port_in hw (Hlt # Sti # k_tr k) KBD_DATA_PORT = sc" and "unat sc < 128"
    and "c = (if shift_active (k_kbd k) then kbd_us_ascii_shift else kbd_us_ascii) ! unat sc" and "c \<noteq> 0"
  shows "\<exists>k'. keyboard_read_char hw k = Some (c, k') \<and> kbd_pending (k_kbd k') = [] \<and> kbd_inv (k_kbd k') \<and>
    outs PIC1_PORT_A (k_tr k') = outs PIC1_PORT_A (k_tr k) @ [PIC_ACK]"
proof -
  let ?k = "k\<lparr>k_tr := Hlt # Sti # k_tr k\<rparr>"
  obtain s tr where h: "keyboard_interrupt_handler hw (k_kbd k, Hlt # Sti # k_tr k) = (s, tr)" by fastforce
  note e = keyboard_interrupt_effect [OF assms(1,6) h]
  have s: "kbd_pending s = [c]" "kbd_inv s" "tr = In KBD_DATA_PORT sc # Hlt # Sti # k_tr k"
    using e assms(2,7-9) by (simp_all add: Let_def)
  have irq: "interrupt_handler hw 33 ?k = Some (k\<lparr>k_kbd := s, k_tr := pic_ack 33 tr\<rparr>)"
    using keyboard_irq_returns [of ?k hw] assms(3) h by simp
  have has: "keyboard_has_char x \<longleftrightarrow> kbd_pending x \<noteq> []" if "kbd_inv x" for x
    by (simp add: keyboard_has_char_def kbd_pending_def word_less_nat_alt)
  have done_wait: "kbd_wait hw (k\<lparr>k_kbd := s, k_tr := t\<rparr>) = Some (k\<lparr>k_kbd := s, k_tr := t\<rparr>)" for t
    using has [OF s(2)] s(1) by (simp add: kbd_wait.simps)
  have "kbd_wait hw (k\<lparr>k_tr := enable_interrupts (k_tr k)\<rparr>) = Some (k\<lparr>k_kbd := s, k_tr := pic_ack 33 tr\<rparr>)"
    using irq has [OF assms(1)] assms(2,4,5) done_wait
    by (subst kbd_wait.simps) (simp add: irq_point_def cpu_hlt_def enable_interrupts_def Let_def)
  then have "keyboard_read_char hw k = Some (c, k\<lparr>k_kbd := snd (keyboard_getchar s), k_tr := pic_ack 33 tr\<rparr>)"
    using kbd_getchar_first [OF s(2,1)] by (simp add: keyboard_read_char_def split_def Let_def)
  moreover have "kbd_pending (snd (keyboard_getchar s)) = []" "kbd_inv (snd (keyboard_getchar s))"
    using kbd_getchar_first [OF s(2,1)] kbd_inv_getchar [OF s(2)] by simp_all
  moreover have "outs PIC1_PORT_A (pic_ack 33 tr) = outs PIC1_PORT_A (k_tr k) @ [PIC_ACK]"
    by (simp add: s(3) pic_ack_def pic_const_defs)
  ultimately show ?thesis by auto
qed

text \<open>A machine on which the key with scancode \<open>0x1E\<close> is pressed once the CPU halts.\<close>

definition key_hw :: hardware where
  "key_hw = \<lparr>port_in = (\<lambda>_ _. 0x1E), irq_line = (\<lambda>tr. if tr \<noteq> [] \<and> hd tr = Hlt then Some 33 else None)\<rparr>"

lemma keyboard_read_char_wakes_witness:
  "\<exists>k'. keyboard_read_char key_hw kernel_up = Some (97, k')"
proof -
  have a: "kbd_inv (k_kbd kernel_up)" "kbd_pending (k_kbd kernel_up) = []" "k_tbl kernel_up 33 = Some Keyboard_interrupt_handler"
    "irq_line key_hw (Sti # k_tr kernel_up) = None" "irq_line key_hw (Hlt # Sti # k_tr kernel_up) = Some 33"
    "port_in key_hw (Hlt # Sti # k_tr kernel_up) KBD_DATA_PORT = 0x1E" "unat (0x1E :: byte) < 128"
    using kbd_inv_bss by (simp_all add: kbd_pending_def kbd_bss_def key_hw_def)
  have c: "97 = (if shift_active (k_kbd kernel_up) then kbd_us_ascii_shift else kbd_us_ascii) ! unat (0x1E :: byte)"
    by (simp add: kbd_bss_def kbd_us_ascii_def str_bytes_def)
  from keyboard_read_char_wakes [OF a c] show ?thesis by auto
qed

end
