(* ===== verification/Typist.thy ===== *)
theory Typist
  imports Isr
begin

text \<open>
  A person at the keyboard, as an environment of the kernel: the scancodes that will be
  typed, each announced by one interrupt on IRQ 1 and handed over by one read of the data
  port. The characters that wait in the ring buffer together with those the remaining
  scancodes stand for are the \<open>input\<close> of the kernel, and a keyboard interrupt moves a
  character from the second part to the first without changing the whole. The readers of
  input are then specified by \<open>input\<close>, whichever of the model's interrupt points (\<open>irq_point\<close>,
  \<open>cpu_hlt\<close>) the keys arrive at; each point takes at most one. Arrivals inside
  \<open>keyboard_getchar\<close> are the subject of \<open>Kbd_Race\<close>.
\<close>

section \<open>Scancodes as text\<close>

definition shift_after :: "bool \<Rightarrow> byte \<Rightarrow> bool" where
  "shift_after sh sc \<longleftrightarrow> (if sc = 0x2A \<or> sc = 0x36 then True else if sc = 0xAA \<or> sc = 0xB6 then False else sh)"

definition key_char :: "bool \<Rightarrow> byte \<Rightarrow> byte list" where
  "key_char sh sc =
     (let c = (if sh then kbd_us_ascii_shift else kbd_us_ascii) ! unat sc
      in if 128 \<le> unat sc \<or> c = 0 then [] else [c])"

primrec keys_text :: "bool \<Rightarrow> byte list \<Rightarrow> byte list" where
  "keys_text sh [] = []"
| "keys_text sh (sc # scs) = key_char sh sc @ keys_text (shift_after sh sc) scs"

text \<open>How many scancodes the kernel has taken from the controller.\<close>

fun keys_read :: "trace \<Rightarrow> nat" where
  "keys_read [] = 0"
| "keys_read (In p v # tr) = (if p = KBD_DATA_PORT then Suc (keys_read tr) else keys_read tr)"
| "keys_read (_ # tr) = keys_read tr"

lemma keys_read_append: "keys_read (es @ tr) = keys_read es + keys_read tr"
  by (induction es rule: keys_read.induct) auto

lemma keys_read_outb [simp]: "keys_read (outb p v tr) = keys_read tr"
  by (simp add: outb_def)

lemma keys_read_pic_ack [simp]: "keys_read (pic_ack n tr) = keys_read tr"
  by (simp add: pic_ack_def)

lemma keys_read_enable [simp]: "keys_read (enable_interrupts tr) = keys_read tr"
  by (simp add: enable_interrupts_def)

text \<open>Output does not take keys, and does not touch the interrupt flag.\<close>

definition only_output :: "trace \<Rightarrow> trace \<Rightarrow> bool" where
  "only_output tr tr' \<longleftrightarrow> keys_read tr' = keys_read tr \<and> interrupts_on tr' = interrupts_on tr"

lemma only_output_refl [simp]: "only_output tr tr"
  by (simp add: only_output_def)

lemma only_output_trans: "only_output a b \<Longrightarrow> only_output b c \<Longrightarrow> only_output a c"
  by (simp add: only_output_def)

lemma only_output_serial:
  assumes "list_all (serial_event SERIAL_COM1_BASE) es"
  shows "only_output tr (es @ tr)"
proof -
  have "keys_read es = 0"
    using assms by (induction es rule: keys_read.induct) (auto simp: KBD_DATA_PORT_def serial_port_defs)
  then show ?thesis
    using serial_events_frame(2,3) [OF assms] by (simp add: only_output_def keys_read_append interrupts_on_append)
qed

lemma only_output_cursor: "only_output tr (fb_move_cursor pos tr)"
  by (simp add: only_output_def fb_move_cursor_def)

lemma only_output_fb_out: "only_output (snd st) (snd (fb_out buf st))"
proof -
  have "only_output (snd st) (snd (fold fb_put_char buf st))"
  proof (induction buf arbitrary: st)
    case (Cons c buf)
    have "only_output (snd st) (snd (fb_put_char c st))"
      by (simp add: fb_put_char_def Let_def split_def only_output_cursor)
    from only_output_trans [OF this Cons.IH] show ?case by simp
  qed simp
  then show ?thesis by (simp add: fb_write_def)
qed

lemma only_output_fb_clear: "only_output (snd st) (snd (fb_clear st))"
  by (cases st) (simp add: fb_clear_eq only_output_cursor)

section \<open>The environment\<close>

text \<open>
  The machine's only interrupts are those of the keys still to come, which may or may not be
  raised when the code reaches an interrupt point; a halted processor is woken as long as there are keys; the data port hands the
  keys over in order; and no character arrives over the serial line meanwhile. One thing is
  required of the timing: the last key of all does not come between a read of a device and
  the \<open>hlt\<close> that may follow, since nothing would wake the processor after it.
\<close>

definition typist :: "hardware \<Rightarrow> byte list \<Rightarrow> bool" where
  "typist hw keys \<longleftrightarrow>
     (\<forall>tr v. irq_line hw tr = Some v \<longrightarrow> v = 33 \<and> keys_read tr < length keys) \<and>
     (\<forall>p b tr v. irq_line hw (In p b # tr) = Some v \<longrightarrow> Suc (keys_read (In p b # tr)) < length keys) \<and>
     (\<forall>tr. keys_read tr < length keys \<longrightarrow>
        irq_line hw (Hlt # tr) = Some 33 \<and> port_in hw tr KBD_DATA_PORT = keys ! keys_read tr \<and>
        port_in hw tr (SERIAL_LINE_STATUS_PORT SERIAL_COM1_BASE) AND 1 = 0)"

text \<open>A machine with quiet interrupt lines is one at which nobody types.\<close>

lemma typist_Nil: "typist hw [] \<longleftrightarrow> (\<forall>tr. irq_line hw tr = None)"
  by (auto simp: typist_def)

lemma typist_window:
  "typist hw keys \<Longrightarrow> irq_line hw (In p b # tr) = Some v \<Longrightarrow> Suc (keys_read (In p b # tr)) < length keys"
  unfolding typist_def by blast

definition keys_left :: "byte list \<Rightarrow> kernel \<Rightarrow> byte list" where
  "keys_left keys k = drop (keys_read (k_tr k)) keys"

definition input :: "byte list \<Rightarrow> kernel \<Rightarrow> byte list" where
  "input keys k = kbd_pending (k_kbd k) @ keys_text (shift_active (k_kbd k)) (keys_left keys k)"

text \<open>The kernel is ready for the next key: handler registered, room in the ring buffer.\<close>

definition listening :: "byte list \<Rightarrow> kernel \<Rightarrow> bool" where
  "listening keys k \<longleftrightarrow> kbd_inv (k_kbd k) \<and>
     (keys_left keys k \<noteq> [] \<longrightarrow>
        k_tbl k 33 = Some Keyboard_interrupt_handler \<and> length (kbd_pending (k_kbd k)) < 256)"

lemma input_Nil [simp]: "input [] k = kbd_pending (k_kbd k)"
  by (simp add: input_def keys_left_def)

lemma listening_Nil [simp]: "listening [] k = kbd_inv (k_kbd k)"
  by (simp add: listening_def keys_left_def)

lemma input_cong: "k_kbd k' = k_kbd k \<Longrightarrow> keys_read (k_tr k') = keys_read (k_tr k) \<Longrightarrow> input keys k' = input keys k"
  by (simp add: input_def keys_left_def)

lemma listening_cong:
  "k_kbd k' = k_kbd k \<Longrightarrow> keys_read (k_tr k') = keys_read (k_tr k) \<Longrightarrow> k_tbl k' = k_tbl k \<Longrightarrow>
    listening keys k' = listening keys k"
  by (simp add: listening_def keys_left_def)

lemma input_mem [simp]: "input keys (k\<lparr>k_mem := m\<rparr>) = input keys k"
  and listening_mem [simp]: "listening keys (k\<lparr>k_mem := m\<rparr>) = listening keys k"
  by (simp_all add: input_def listening_def keys_left_def)

section \<open>One key\<close>

text \<open>
  What keyboard interrupts do to the kernel, apart from the position in the text: input and
  interrupt flag stay, and so do screen, handlers, memory and the bytes written to any port
  but that of the interrupt controller.
\<close>

definition heard :: "byte list \<Rightarrow> kernel \<Rightarrow> kernel \<Rightarrow> bool" where
  "heard keys k k' \<longleftrightarrow> input keys k' = input keys k \<and> (kbd_inv (k_kbd k) \<longrightarrow> kbd_inv (k_kbd k')) \<and>
     k_fb k' = k_fb k \<and> k_tbl k' = k_tbl k \<and> k_mem k' = k_mem k \<and>
     interrupts_on (k_tr k') = interrupts_on (k_tr k) \<and>
     (\<forall>p. p \<noteq> PIC1_PORT_A \<longrightarrow> outs p (k_tr k') = outs p (k_tr k))"

lemma heard_refl: "k_kbd k' = k_kbd k \<Longrightarrow> k_fb k' = k_fb k \<Longrightarrow> k_tbl k' = k_tbl k \<Longrightarrow> k_mem k' = k_mem k \<Longrightarrow>
    k_tr k' = es @ k_tr k \<Longrightarrow> keys_read es = 0 \<Longrightarrow> (\<And>p. outs p es = []) \<Longrightarrow> Sti \<notin> set es \<Longrightarrow> Cli \<notin> set es \<Longrightarrow>
    heard keys k k'"
  by (simp add: heard_def input_def keys_left_def keys_read_append interrupts_on_append)

lemma heard_trans: "heard keys k k1 \<Longrightarrow> heard keys k1 k2 \<Longrightarrow> heard keys k k2"
  by (simp add: heard_def)

lemma key_interrupt:
  assumes ty: "typist hw keys" and left: "keys_left keys k \<noteq> []" and li: "listening keys k"
  obtains k' where "interrupt_handler hw 33 k = Some k'" "heard keys k k'"
    "keys_left keys k' = tl (keys_left keys k)" "length (kbd_pending (k_kbd k')) \<le> Suc (length (kbd_pending (k_kbd k)))"
    "k_tr k' = pic_ack 33 (In KBD_DATA_PORT (hd (keys_left keys k)) # k_tr k)"
proof -
  let ?n = "keys_read (k_tr k)"
  have n: "?n < length keys" using left by (simp add: keys_left_def)
  have inv: "kbd_inv (k_kbd k)" and tbl: "k_tbl k 33 = Some Keyboard_interrupt_handler"
    and room: "length (kbd_pending (k_kbd k)) \<noteq> 256"
    using li left by (auto simp: listening_def)
  have port: "port_in hw (k_tr k) KBD_DATA_PORT = keys ! ?n" using ty n by (simp add: typist_def)
  obtain s tr where h: "keyboard_interrupt_handler hw (k_kbd k, k_tr k) = (s, tr)" by fastforce
  note e = keyboard_interrupt_effect [OF inv port h]
  have tr: "tr = In KBD_DATA_PORT (keys ! ?n) # k_tr k" and s: "kbd_inv s"
    "shift_active s = shift_after (shift_active (k_kbd k)) (keys ! ?n)"
    "kbd_pending s = kbd_pending (k_kbd k) @ key_char (shift_active (k_kbd k)) (keys ! ?n)"
    using e room by (auto simp: shift_after_def key_char_def Let_def)
  let ?k = "k\<lparr>k_kbd := s, k_tr := pic_ack 33 tr\<rparr>"
  have run: "interrupt_handler hw 33 k = Some ?k" using keyboard_irq_returns [of k hw] tbl h by simp
  have l: "keys_left keys ?k = tl (keys_left keys k)"
    by (simp add: keys_left_def tr drop_Suc tl_drop)
  have d: "keys_left keys k = keys ! ?n # tl (keys_left keys k)"
    using n by (simp add: keys_left_def Cons_nth_drop_Suc tl_drop flip: drop_Suc)
  then have "hd (keys_left keys k) = keys ! ?n" by (metis list.sel(1))
  moreover have "input keys ?k = input keys k"
    using d l s by (simp add: input_def) (metis keys_text.simps(2))
  moreover have "interrupts_on (pic_ack 33 tr) = interrupts_on (k_tr k)" by (simp add: tr pic_ack_def)
  moreover have "outs p (pic_ack 33 tr) = outs p (k_tr k)" if "p \<noteq> PIC1_PORT_A" for p
    using that by (simp add: tr pic_ack_def pic_const_defs)
  moreover have "length (key_char b c) \<le> 1" for b c by (simp add: key_char_def Let_def)
  ultimately show ?thesis using s tr by (intro that [OF run _ l]) (simp_all add: heard_def)
qed

section \<open>Points where keys may arrive\<close>

lemma typist_irq_point:
  assumes ty: "typist hw keys" and li: "listening keys k"
  obtains k' where "irq_point hw k = Some k'" "heard keys k k'"
    "length (keys_left keys k') \<le> length (keys_left keys k)"
    "length (kbd_pending (k_kbd k')) \<le> Suc (length (kbd_pending (k_kbd k)))"
    "\<exists>p b tr. k_tr k = In p b # tr \<Longrightarrow> keys_left keys k \<noteq> [] \<Longrightarrow> keys_left keys k' \<noteq> []"
    "k_tr k' = k_tr k \<or> (\<exists>v. k_tr k' = pic_ack 33 (In KBD_DATA_PORT v # k_tr k))"
proof (cases "interrupts_on (k_tr k) \<and> irq_line hw (k_tr k) \<noteq> None")
  case False
  then have "irq_point hw k = Some k" by (auto simp: irq_point_def)
  then show ?thesis by (intro that [of k]) (simp_all add: heard_def)
next
  case True
  then obtain v where v: "irq_line hw (k_tr k) = Some v" by blast
  then have "v = 33" and n: "keys_read (k_tr k) < length keys" using ty by (simp_all add: typist_def)
  then have left: "keys_left keys k \<noteq> []" by (simp add: keys_left_def)
  obtain k' where k': "interrupt_handler hw 33 k = Some k'" "heard keys k k'"
    "keys_left keys k' = tl (keys_left keys k)" "length (kbd_pending (k_kbd k')) \<le> Suc (length (kbd_pending (k_kbd k)))"
    "\<exists>v. k_tr k' = pic_ack 33 (In KBD_DATA_PORT v # k_tr k)"
    using key_interrupt [OF ty left li] by metis
  have "irq_point hw k = Some k'" using True v \<open>v = 33\<close> k'(1) by (simp add: irq_point_def)
  moreover have "keys_left keys k' \<noteq> []" if "\<exists>p b tr. k_tr k = In p b # tr"
  proof -
    have "Suc (keys_read (k_tr k)) < length keys" using that v typist_window [OF ty] by metis
    moreover have "length (keys_left keys k') = length keys - Suc (keys_read (k_tr k))"
      unfolding k'(3) by (simp add: keys_left_def)
    ultimately show ?thesis by auto
  qed
  ultimately show ?thesis using k' by (intro that [of k']) simp_all
qed

lemma typist_hlt:
  assumes ty: "typist hw keys" and li: "listening keys k" and left: "keys_left keys k \<noteq> []"
    and on: "interrupts_on (k_tr k)"
  obtains k' where "cpu_hlt hw k = Some k'" "heard keys k k'" "keys_left keys k' = tl (keys_left keys k)"
    "length (kbd_pending (k_kbd k')) \<le> Suc (length (kbd_pending (k_kbd k)))"
proof -
  let ?k = "k\<lparr>k_tr := Hlt # k_tr k\<rparr>"
  have same: "listening keys ?k" "keys_left keys ?k = keys_left keys k"
    using li by (simp_all add: listening_def keys_left_def)
  have "irq_line hw (Hlt # k_tr k) = Some 33" using ty left by (simp add: typist_def keys_left_def)
  moreover obtain k' where k': "interrupt_handler hw 33 ?k = Some k'" "heard keys ?k k'"
    "keys_left keys k' = tl (keys_left keys ?k)" "length (kbd_pending (k_kbd k')) \<le> Suc (length (kbd_pending (k_kbd ?k)))"
    using key_interrupt [OF ty _ same(1)] left same(2) by metis
  moreover have "heard keys k ?k" by (rule heard_refl [where es = "[Hlt]"]) simp_all
  ultimately show ?thesis
    using on by (intro that [of k']) (auto simp: cpu_hlt_def same(2) intro: heard_trans)
qed

end
