(* ===== verification/Idt.thy ===== *)
theory Idt
  imports Port_IO
begin

text \<open>
  \<open>arch/x86/cpu/idt.c\<close>: the interrupt descriptor table. The address of \<open>idt\<close> and the 48
  entry points of \<open>isr_stub_table\<close> (assembly, \<open>arch/x86/cpu/isr.s\<close>) are parameters.
\<close>

record idt_entry =
  offset_lowerbits :: u16
  selector :: u16
  zero :: byte
  type_attr :: byte
  offset_higherbits :: u16

record idt_state =
  idt :: "idt_entry list"
  idtr_limit :: u16
  idtr_base :: u32

abbreviation (input) IDT_ENTRIES :: "'a::numeral" where "IDT_ENTRIES \<equiv> 256"
abbreviation (input) SIZEOF_IDT_ENTRY :: "'a::numeral" where "SIZEOF_IDT_ENTRY \<equiv> 8"

definition idt_set_gate :: "byte \<Rightarrow> u32 \<Rightarrow> u16 \<Rightarrow> byte \<Rightarrow> idt_state \<Rightarrow> idt_state" where
  "idt_set_gate num base sel flags s =
     s\<lparr>idt := (idt s)[unat num :=
        \<lparr>offset_lowerbits = ucast (base AND 0xFFFF), selector = sel, zero = 0, type_attr = flags,
         offset_higherbits = ucast (drop_bit 16 base AND 0xFFFF)\<rparr>]\<rparr>"

definition idt_init :: "u32 \<Rightarrow> u32 list \<Rightarrow> idt_state \<times> trace \<Rightarrow> idt_state \<times> trace" where
  "idt_init idt_addr isr_stub_table = (\<lambda>(s, tr).
     let s = s\<lparr>idtr_limit := ucast (SIZEOF_IDT_ENTRY * IDT_ENTRIES - 1 :: u32), idtr_base := idt_addr\<rparr>;
         s = fold (\<lambda>i. idt_set_gate (word_of_nat i) 0 0 0) [0..<IDT_ENTRIES] s;
         s = fold (\<lambda>i. idt_set_gate (word_of_nat i) (isr_stub_table ! i) 0x08 0x8E) [0..<48] s
     in (s, Lidt (idtr_limit s) (idtr_base s) # tr))"

section \<open>How the processor reads a gate\<close>

definition gate_offset :: "idt_entry \<Rightarrow> u32" where
  "gate_offset e = ucast (offset_lowerbits e) OR push_bit 16 (ucast (offset_higherbits e))"

definition gate_present :: "idt_entry \<Rightarrow> bool" where "gate_present e \<longleftrightarrow> bit (type_attr e) 7"
definition gate_dpl :: "idt_entry \<Rightarrow> nat" where "gate_dpl e = unat (drop_bit 5 (type_attr e) AND 3)"

text \<open>A 32-bit interrupt gate: the processor clears the interrupt flag on entry.\<close>

definition gate_is_interrupt32 :: "idt_entry \<Rightarrow> bool" where
  "gate_is_interrupt32 e \<longleftrightarrow> type_attr e AND 0x1F = 0x0E"

text \<open>Software at privilege level \<open>cpl\<close> may enter vector \<open>n\<close> with \<open>int n\<close>.\<close>

definition int_allowed :: "idt_state \<Rightarrow> nat \<Rightarrow> nat \<Rightarrow> bool" where
  "int_allowed s cpl n \<longleftrightarrow> gate_present (idt s ! n) \<and> cpl \<le> gate_dpl (idt s ! n)"

definition mk_gate :: "u32 \<Rightarrow> u16 \<Rightarrow> byte \<Rightarrow> idt_entry" where
  "mk_gate base sel flags =
     \<lparr>offset_lowerbits = ucast (base AND 0xFFFF), selector = sel, zero = 0, type_attr = flags,
      offset_higherbits = ucast (drop_bit 16 base AND 0xFFFF)\<rparr>"

lemma idt_set_gate_mk: "idt (idt_set_gate num base sel flags s) = (idt s)[unat num := mk_gate base sel flags]"
  by (simp add: idt_set_gate_def mk_gate_def)

lemma gate_offset_mk [simp]: "gate_offset (mk_gate base sel flags) = base"
  using half_words [of base] by (simp add: gate_offset_def mk_gate_def and_ones(4) byte_fields)

lemma mk_gate_simps [simp]:
  "selector (mk_gate base sel flags) = sel" "type_attr (mk_gate base sel flags) = flags"
  by (simp_all add: mk_gate_def)

lemma gate_loop:
  "n \<le> 256 \<Longrightarrow> length (idt s) = 256 \<Longrightarrow>
    idt (fold (\<lambda>i. idt_set_gate (word_of_nat i) (f i) sel flags) [0..<n] s) =
      map (\<lambda>i. mk_gate (f i) sel flags) [0..<n] @ drop n (idt s)"
proof (induction n)
  case (Suc n)
  have "unat (word_of_nat n :: byte) = n" using Suc.prems(1) by (simp add: unat_of_nat take_bit_nat_eq_self)
  with Suc show ?case
    by (simp add: idt_set_gate_mk list_update_append Cons_nth_drop_Suc [symmetric])
qed simp

lemma gate_loop_other:
  "idtr_limit (fold (\<lambda>i. idt_set_gate (g i) (f i) sel flags) ns s) = idtr_limit s"
  "idtr_base (fold (\<lambda>i. idt_set_gate (g i) (f i) sel flags) ns s) = idtr_base s"
  by (induction ns arbitrary: s) (simp_all add: idt_set_gate_def)

lemma idt_init_table:
  assumes "length (idt s) = 256"
  shows "idt (fst (idt_init idt_addr stubs (s, tr))) =
    map (\<lambda>i. mk_gate (stubs ! i) 0x08 0x8E) [0..<48] @ replicate 208 (mk_gate 0 0 0)"
proof -
  have "map (\<lambda>i. mk_gate 0 0 0) [0..<256] = replicate 256 (mk_gate 0 0 0)" by (simp add: map_replicate_const)
  then show ?thesis
    using assms by (simp add: idt_init_def Let_def gate_loop)
qed

text \<open>
  After \<open>idt_init\<close> vectors 0 to 47 enter their assembly stubs through ring 0 interrupt
  gates of the kernel code segment, every other vector is not present, no vector at all can
  be entered from ring 3, and the CPU is given the table's address and its limit of 2047.
\<close>

lemma idt_init_gates:
  assumes "length (idt s) = 256" and "idt_init idt_addr stubs (s, tr) = (s', tr')"
  shows "length (idt s') = 256 \<and>
    (\<forall>n < 48. gate_offset (idt s' ! n) = stubs ! n \<and> selector (idt s' ! n) = 0x08 \<and>
       gate_present (idt s' ! n) \<and> gate_is_interrupt32 (idt s' ! n) \<and> gate_dpl (idt s' ! n) = 0) \<and>
    (\<forall>n < 256. 48 \<le> n \<longrightarrow> \<not> gate_present (idt s' ! n)) \<and>
    (\<forall>n < 256. \<not> int_allowed s' 3 n) \<and> tr' = Lidt 2047 idt_addr # tr"
proof -
  have s': "idt s' = map (\<lambda>i. mk_gate (stubs ! i) 0x08 0x8E) [0..<48] @ replicate 208 (mk_gate 0 0 0)"
    using idt_init_table [OF assms(1)] assms(2) by (metis fst_conv)
  have lo: "idt s' ! n = mk_gate (stubs ! n) 0x08 0x8E" if "n < 48" for n
    using that by (simp add: s' nth_append)
  have hi: "idt s' ! n = mk_gate 0 0 0" if "n < 256" "48 \<le> n" for n
    using that by (simp add: s' nth_append)
  have "\<not> int_allowed s' 3 n" if "n < 256" for n
    using that lo [of n] hi [of n]
    by (cases "n < 48") (simp_all add: int_allowed_def gate_present_def gate_dpl_def)
  moreover have "tr' = Lidt 2047 idt_addr # tr"
    using assms(2) by (auto simp: idt_init_def Let_def gate_loop_other)
  moreover have "length (idt s') = 256" by (simp add: s')
  ultimately show ?thesis
    by (simp add: lo hi gate_present_def gate_dpl_def gate_is_interrupt32_def bit_numeral_rec)
qed

definition idt_bss :: idt_state where
  "idt_bss = \<lparr>idt = replicate 256 \<lparr>offset_lowerbits = 0, selector = 0, zero = 0, type_attr = 0, offset_higherbits = 0\<rparr>,
     idtr_limit = 0, idtr_base = 0\<rparr>"

end
