(* ===== verification/Syscall.thy ===== *)
theory Syscall
  imports Typist Idt
begin

text \<open>
  \<open>kernel/syscall.c\<close>: the dispatcher behind \<open>int 0x80\<close> and the installation of its gate.
  The saved registers are the record \<open>pt_regs\<close>; a NULL register pointer is \<open>None\<close>. User
  buffers live in \<open>k_mem\<close>. \<open>SYS_READ\<close> runs with interrupts enabled: its loop has a point where
  one interrupt may arrive at the head of each round, another between the empty check and
  the \<open>hlt\<close> instruction, and \<open>hlt\<close> itself waits for one. Interrupts within the functions the
  loop calls are left out here; for \<open>keyboard_getchar\<close> they are in \<open>Kbd_Race\<close>.
\<close>

record pt_regs =
  r_ebx :: u32
  r_ecx :: u32
  r_edx :: u32
  r_esi :: u32
  r_edi :: u32
  r_ebp :: u32
  r_orig_eax :: u32
  r_ds :: u32
  r_es :: u32
  r_fs :: u32
  r_gs :: u32
  r_eax :: u32
  r_eip :: u32
  r_cs :: u32
  r_eflags :: u32
  r_esp :: u32
  r_ss :: u32

definition ENOSYS :: u32 where "ENOSYS = 38"
definition SYS_EXIT :: u32 where "SYS_EXIT = 1"
definition SYS_FORK :: u32 where "SYS_FORK = 2"
definition SYS_READ :: u32 where "SYS_READ = 3"
definition SYS_WRITE :: u32 where "SYS_WRITE = 4"
definition SYS_CLEAR :: u32 where "SYS_CLEAR = 5"

lemmas syscall_defs = SYS_EXIT_def SYS_FORK_def SYS_READ_def SYS_WRITE_def SYS_CLEAR_def

definition sys_write :: "hardware \<Rightarrow> pt_regs \<Rightarrow> kernel \<Rightarrow> (pt_regs \<times> kernel) option" where
  "sys_write hw regs k =
     (if r_ebx regs = 1 \<or> r_ebx regs = 2 then
        (let buf = r_ecx regs; count = r_edx regs in
         if buf \<noteq> 0 \<and> count > 0 then
           Option.bind (k_serial_write hw (read_bytes (k_mem k) buf (unat count))
               (k_fb_write (read_bytes (k_mem k) buf (unat count)) k))
             (\<lambda>k. Some (regs\<lparr>r_eax := count\<rparr>, k))
         else Some (regs\<lparr>r_eax := count\<rparr>, k))
      else Some (regs\<lparr>r_eax := - 1\<rparr>, k))"

definition sys_clear :: "hardware \<Rightarrow> pt_regs \<Rightarrow> kernel \<Rightarrow> (pt_regs \<times> kernel) option" where
  "sys_clear hw regs k =
     Option.bind (k_serial_write hw ([27] @ str_bytes ''[2J'' @ [27] @ str_bytes ''[H'') (with_fb fb_clear k))
       (\<lambda>k. Some (regs\<lparr>r_eax := 0\<rparr>, k))"

text \<open>The two sources of a character: the ring buffer first, then the UART.\<close>

definition sys_read_fetch :: "hardware \<Rightarrow> kernel \<Rightarrow> int \<times> kernel" where
  "sys_read_fetch hw k =
     (let (c, s) = keyboard_getchar (k_kbd k); k = k\<lparr>k_kbd := s\<rparr>
      in if c = -1 then (let (c, tr) = serial_read_char hw SERIAL_COM1_BASE (k_tr k) in (c, k\<lparr>k_tr := tr\<rparr>))
         else (c, k))"

definition sys_read_store :: "hardware \<Rightarrow> u32 \<Rightarrow> byte \<Rightarrow> kernel \<Rightarrow> kernel option" where
  "sys_read_store hw addr c k =
     (let k = k\<lparr>k_mem := (k_mem k)(addr := c)\<rparr>;
          k = k_fb_write [c] k
      in Option.bind (serial_write_char hw SERIAL_COM1_BASE c (k_tr k)) (\<lambda>(_, tr). Some (k\<lparr>k_tr := tr\<rparr>)))"

partial_function (option) sys_read_loop :: "hardware \<Rightarrow> u32 \<Rightarrow> u32 \<Rightarrow> u32 \<Rightarrow> kernel \<Rightarrow> (u32 \<times> kernel) option" where
  "sys_read_loop hw buf max_count idx k =
     (if idx < max_count - 1 then
        Option.bind (irq_point hw k) (\<lambda>k0.
          let c = fst (sys_read_fetch hw k0); k = snd (sys_read_fetch hw k0) in
          if c = -1 then
            Option.bind (irq_point hw k) (\<lambda>k. Option.bind (cpu_hlt hw k) (\<lambda>k. sys_read_loop hw buf max_count idx k))
          else if c = 0 \<or> c = 10 \<or> c = 13 then
            Option.bind (k_serial_write hw [13, 10] (k_fb_write [10] k)) (\<lambda>k. Some (idx, k))
          else if c = 8 \<or> c = 127 then
            (if idx > 0 then
               Option.bind (k_serial_write hw [8, 32, 8] (k_fb_write [8] k))
                 (\<lambda>k. sys_read_loop hw buf max_count (idx - 1) k)
             else sys_read_loop hw buf max_count idx k)
          else
            Option.bind (sys_read_store hw (buf + idx) (word_of_int c) k)
              (\<lambda>k. sys_read_loop hw buf max_count (idx + 1) k))
      else Some (idx, k))"

definition sys_read :: "hardware \<Rightarrow> pt_regs \<Rightarrow> kernel \<Rightarrow> (pt_regs \<times> kernel) option" where
  "sys_read hw regs k =
     (if r_ebx regs = 0 then
        (let buf = r_ecx regs; max_count = r_edx regs in
         if buf = 0 \<or> max_count \<le> 1 then
           Some (regs\<lparr>r_eax := 0\<rparr>,
             if buf \<noteq> 0 \<and> max_count = 1 then k\<lparr>k_mem := (k_mem k)(buf := 0)\<rparr> else k)
         else
           Option.bind (sys_read_loop hw buf max_count 0 (k\<lparr>k_tr := enable_interrupts (k_tr k)\<rparr>))
             (\<lambda>(idx, k). Some (regs\<lparr>r_eax := idx\<rparr>, k\<lparr>k_mem := (k_mem k)(buf + idx := 0)\<rparr>)))
      else Some (regs\<lparr>r_eax := - 1\<rparr>, k))"

definition do_syscall_in_C :: "hardware \<Rightarrow> pt_regs option \<Rightarrow> kernel \<Rightarrow> (pt_regs option \<times> kernel) option" where
  "do_syscall_in_C hw regs k = (case regs of
       None \<Rightarrow> Some (None, k)
     | Some r \<Rightarrow>
         Option.bind
           (if r_eax r = SYS_WRITE then sys_write hw r k
            else if r_eax r = SYS_EXIT then Some (r\<lparr>r_eax := r_ebx r\<rparr>, k)
            else if r_eax r = SYS_CLEAR then sys_clear hw r k
            else if r_eax r = SYS_READ then sys_read hw r k
            else Some (r\<lparr>r_eax := - ENOSYS\<rparr>, k))
           (\<lambda>(r, k). Some (Some r, k)))"

definition syscall_init :: "u32 \<Rightarrow> idt_state \<Rightarrow> idt_state" where
  "syscall_init Int128Handler s = idt_set_gate 0x80 Int128Handler 0x08 0xEE s"

section \<open>The gate\<close>

lemma syscall_gate:
  assumes "length (idt s) = 256" and "idt_init idt_addr stubs (s, tr) = (s1, tr')" and "n < 256"
  shows "(int_allowed (syscall_init handler s1) 3 n \<longleftrightarrow> n = 128) \<and>
    (let e = idt (syscall_init handler s1) ! 128 in
      gate_offset e = handler \<and> selector e = 0x08 \<and> gate_is_interrupt32 e)"
proof -
  have s1: "idt s1 = map (\<lambda>i. mk_gate (stubs ! i) 0x08 0x8E) [0..<48] @ replicate 208 (mk_gate 0 0 0)"
    using idt_init_table [OF assms(1)] assms(2) by (metis fst_conv)
  have e: "idt (syscall_init handler s1) ! n = (if n = 128 then mk_gate handler 0x08 0xEE else idt s1 ! n)" if "n < 256" for n
    using that by (simp add: syscall_init_def idt_set_gate_mk s1 nth_list_update)
  have "idt s1 ! n = (if n < 48 then mk_gate (stubs ! n) 0x08 0x8E else mk_gate 0 0 0)"
    using assms(3) by (simp add: s1 nth_append)
  then have "int_allowed (syscall_init handler s1) 3 n \<longleftrightarrow> n = 128"
    by (simp add: int_allowed_def e [OF assms(3)] gate_present_def gate_dpl_def bit_numeral_rec)
  then show ?thesis by (simp add: e gate_is_interrupt32_def Let_def)
qed

text \<open>
  After \<open>idt_init\<close> and \<open>syscall_init\<close> the system call gate is the only way from ring 3
  into the kernel by a software interrupt: vector 128 enters \<open>Int128Handler\<close> in the kernel
  code segment with interrupts disabled, and every other \<open>int n\<close> from ring 3 is refused.
\<close>

lemma syscall_gate_only_entry:
  assumes "length (idt s) = 256" and "idt_init idt_addr stubs (s, tr) = (s1, tr')" and "n < 256"
  shows "(int_allowed (syscall_init handler s1) 3 n \<longleftrightarrow> n = 128) \<and>
    (let e = idt (syscall_init handler s1) ! 128 in
      gate_offset e = handler \<and> selector e = 0x08 \<and> gate_is_interrupt32 e)"
  by (rule syscall_gate [OF assms])

lemma syscall_gate_only_entry_witness:
  "\<exists>s1 tr. idt_init 0xC0105000 (replicate 48 0xC0100200) (idt_bss, []) = (s1, tr) \<and>
     int_allowed (syscall_init 0xC0100400 s1) 3 128 \<and> \<not> int_allowed (syscall_init 0xC0100400 s1) 3 13"
proof -
  obtain s1 tr where r: "idt_init 0xC0105000 (replicate 48 0xC0100200) (idt_bss, []) = (s1, tr)" by fastforce
  have "length (idt idt_bss) = 256" by (simp add: idt_bss_def)
  note g = syscall_gate_only_entry [OF this r]
  from g [of 128 "0xC0100400"] g [of 13 "0xC0100400"] r show ?thesis by auto
qed

section \<open>Console output\<close>

lemma k_serial_write_returns:
  assumes "transmitter_drains hw SERIAL_COM1_BASE"
  obtains es where "k_serial_write hw buf k = Some (k\<lparr>k_tr := es @ k_tr k\<rparr>)"
    "list_all (serial_event SERIAL_COM1_BASE) es" "outs (SERIAL_DATA_PORT SERIAL_COM1_BASE) es = buf"
  using serial_write_bytes_returns [OF assms, of buf "k_tr k"]
  by (auto simp: k_serial_write_def serial_write_def)

text \<open>The bytes sent over COM1 so far.\<close>

definition com1 :: "kernel \<Rightarrow> byte list" where
  "com1 k = outs (SERIAL_DATA_PORT SERIAL_COM1_BASE) (k_tr k)"

lemma com1_port: "SERIAL_DATA_PORT SERIAL_COM1_BASE = 0x3F8"
  by (simp add: serial_port_defs)

lemma com1_fb [simp]: "com1 (with_fb (fb_out buf) k) = com1 k" "com1 (with_fb fb_clear k) = com1 k"
  "com1 (k\<lparr>k_mem := m\<rparr>) = com1 k" "com1 (k\<lparr>k_kbd := s\<rparr>) = com1 k"
  by (simp_all add: com1_def com1_port outs_fb_out outs_fb_clear FB_COMMAND_PORT_def FB_DATA_PORT_def)

lemma sys_write_call:
  assumes "transmitter_drains hw SERIAL_COM1_BASE"
    and "r_eax r = SYS_WRITE" and "r_ebx r = 1 \<or> r_ebx r = 2" and "r_ecx r \<noteq> 0" and "r_edx r \<noteq> 0"
    and "bytes = read_bytes (k_mem k) (r_ecx r) (unat (r_edx r))"
  shows "\<exists>k'. do_syscall_in_C hw (Some r) k = Some (Some (r\<lparr>r_eax := r_edx r\<rparr>), k') \<and>
    com1 k' = com1 k @ bytes \<and> k_fb k' = fst (fb_out bytes (k_fb k, k_tr k)) \<and>
    k_kbd k' = k_kbd k \<and> k_mem k' = k_mem k \<and> k_tbl k' = k_tbl k \<and> only_output (k_tr k) (k_tr k')"
proof -
  let ?k = "k_fb_write bytes k"
  obtain es where es: "k_serial_write hw bytes ?k = Some (?k\<lparr>k_tr := es @ k_tr ?k\<rparr>)"
    "list_all (serial_event SERIAL_COM1_BASE) es" "outs (SERIAL_DATA_PORT SERIAL_COM1_BASE) es = bytes"
    using k_serial_write_returns [OF assms(1)] by metis
  have "do_syscall_in_C hw (Some r) k = Some (Some (r\<lparr>r_eax := r_edx r\<rparr>), ?k\<lparr>k_tr := es @ k_tr ?k\<rparr>)"
    using assms(2-5) es(1) assms(6) [symmetric]
    by (simp add: do_syscall_in_C_def sys_write_def Let_def word_neq_0_conv)
  moreover have "com1 (?k\<lparr>k_tr := es @ k_tr ?k\<rparr>) = com1 ?k @ bytes" using es(3) by (simp add: com1_def)
  moreover have "only_output (k_tr k) (es @ k_tr ?k)"
    using only_output_trans [OF only_output_fb_out only_output_serial [OF es(2)], of "(k_fb k, k_tr k)"] by simp
  ultimately show ?thesis by simp
qed

text \<open>
  C22: \<open>SYS_WRITE\<close> to standard output or standard error with a non-null buffer, on a UART
  whose transmitter drains: the call returns the count, the user's bytes appear on the
  screen and on COM1, exactly and in order, and nothing else of the kernel's state and no
  other register changes.
\<close>

theorem sys_write_outputs:
  assumes "transmitter_drains hw SERIAL_COM1_BASE"
    and "r_eax r = SYS_WRITE" and "r_ebx r = 1 \<or> r_ebx r = 2" and "r_ecx r \<noteq> 0" and "r_edx r \<noteq> 0"
    and "bytes = read_bytes (k_mem k) (r_ecx r) (unat (r_edx r))"
  shows "\<exists>k'. do_syscall_in_C hw (Some r) k = Some (Some (r\<lparr>r_eax := r_edx r\<rparr>), k') \<and>
    com1 k' = com1 k @ bytes \<and> k_fb k' = fst (fb_out bytes (k_fb k, k_tr k)) \<and>
    k_kbd k' = k_kbd k \<and> k_mem k' = k_mem k \<and> k_tbl k' = k_tbl k"
  using sys_write_call [OF assms] by blast

definition user_regs :: "u32 \<Rightarrow> u32 \<Rightarrow> u32 \<Rightarrow> u32 \<Rightarrow> pt_regs" where
  "user_regs num a b c = \<lparr>r_ebx = a, r_ecx = b, r_edx = c, r_esi = 0, r_edi = 0, r_ebp = 0, r_orig_eax = - 38,
     r_ds = 0x23, r_es = 0x23, r_fs = 0x23, r_gs = 0x23, r_eax = num, r_eip = 0, r_cs = 0x1B, r_eflags = 0x202,
     r_esp = 0xBFFFFFF0, r_ss = 0x23\<rparr>"

theorem sys_write_outputs_witness:
  "\<exists>k'. do_syscall_in_C (const_hw 0x20) (Some (user_regs 4 1 0x1000 3)) (kernel_up\<lparr>k_mem := (\<lambda>x. ucast x)\<rparr>)
     = Some (Some (user_regs 3 1 0x1000 3), k') \<and> com1 k' = [0, 1, 2]"
proof -
  have d: "transmitter_drains (const_hw 0x20) SERIAL_COM1_BASE"
    unfolding transmitter_drains_def by (intro allI exI [of _ 0]) simp
  have b: "[0, 1, 2] = read_bytes (k_mem (kernel_up\<lparr>k_mem := (\<lambda>x. ucast x)\<rparr>)) (r_ecx (user_regs 4 1 0x1000 3)) (unat (r_edx (user_regs 4 1 0x1000 3)))"
    by (simp add: user_regs_def read_bytes_def upt_rec)
  from sys_write_outputs [OF d _ _ _ _ b] show ?thesis
    by (auto simp: user_regs_def syscall_defs com1_def)
qed

section \<open>Errors\<close>

text \<open>
  C35: The error paths of the dispatcher: an unknown call number, \<open>SYS_FORK\<close> included, gives
  -ENOSYS, a read or write on another descriptor gives -1, a NULL register block is
  ignored; none of them changes the kernel's state or any other register.
\<close>

theorem syscall_errors:
  "do_syscall_in_C hw None k = Some (None, k) \<and>
   (r_eax r \<notin> {1, 3, 4, 5} \<longrightarrow> do_syscall_in_C hw (Some r) k = Some (Some (r\<lparr>r_eax := 4294967258\<rparr>), k)) \<and>
   (r_eax r = SYS_WRITE \<and> r_ebx r \<notin> {1, 2} \<longrightarrow> do_syscall_in_C hw (Some r) k = Some (Some (r\<lparr>r_eax := 4294967295\<rparr>), k)) \<and>
   (r_eax r = SYS_READ \<and> r_ebx r \<noteq> 0 \<longrightarrow> do_syscall_in_C hw (Some r) k = Some (Some (r\<lparr>r_eax := 4294967295\<rparr>), k))"
proof -
  have e: "- ENOSYS = 4294967258" "(- 1 :: u32) = 4294967295" by (simp_all add: ENOSYS_def)
  show ?thesis
    unfolding do_syscall_in_C_def sys_write_def sys_read_def e by (simp add: syscall_defs)
qed

theorem syscall_errors_witness:
  "do_syscall_in_C (const_hw 0) (Some (user_regs 2 0 0 0)) kernel_up = Some (Some (user_regs 4294967258 0 0 0), kernel_up) \<and>
   do_syscall_in_C (const_hw 0) (Some (user_regs 4 7 0 0)) kernel_up = Some (Some (user_regs 4294967295 7 0 0), kernel_up)"
  using syscall_errors [of "const_hw 0" kernel_up "user_regs 2 0 0 0"] syscall_errors [of "const_hw 0" kernel_up "user_regs 4 7 0 0"]
  by (simp add: user_regs_def syscall_defs)

section \<open>The line discipline of SYS\_READ\<close>

text \<open>
  What canonical input means: from the line so far and the characters to come, the line
  delivered, the characters left over, and the echo on the screen and on the serial line. \<open>None\<close>:
  more characters are needed.
\<close>

definition also_echo :: "byte list \<Rightarrow> byte list \<Rightarrow> (byte list \<times> byte list \<times> byte list \<times> byte list) option \<Rightarrow>
    (byte list \<times> byte list \<times> byte list \<times> byte list) option" where
  "also_echo a b r = map_option (\<lambda>(line, rest, scr, ser). (line, rest, a @ scr, b @ ser)) r"

fun line_edit :: "nat \<Rightarrow> byte list \<Rightarrow> byte list \<Rightarrow> (byte list \<times> byte list \<times> byte list \<times> byte list) option" where
  "line_edit cap acc [] = (if cap \<le> length acc then Some (acc, [], [], []) else None)"
| "line_edit cap acc (c # cs) =
     (if cap \<le> length acc then Some (acc, c # cs, [], [])
      else if c = 0 \<or> c = 10 \<or> c = 13 then Some (acc, cs, [10], [13, 10])
      else if c = 8 \<or> c = 127 then
        (if acc = [] then line_edit cap [] cs else also_echo [8] [8, 32, 8] (line_edit cap (butlast acc) cs))
      else also_echo [c] [c] (line_edit cap (acc @ [c]) cs))"

text \<open>The screen does not depend on the trace.\<close>

definition screen_after :: "byte list \<Rightarrow> fb_state \<Rightarrow> fb_state" where
  "screen_after buf s = fst (fb_out buf (s, []))"

lemma fb_put_char_fst: "fst (fb_put_char c st) = fst (fb_put_char c (fst st, []))"
  by (cases st) (simp add: fb_put_char_def Let_def)

lemma fb_fold_fst: "fst (fold fb_put_char buf st) = fst (fold fb_put_char buf (fst st, []))"
proof (induction buf arbitrary: st)
  case (Cons c buf)
  show ?case
    using Cons.IH [of "fb_put_char c st"] Cons.IH [of "fb_put_char c (fst st, [])"] fb_put_char_fst [of c st] by simp
qed simp

lemma fst_fb_out: "fst (fb_out buf (s, tr)) = screen_after buf s"
  using fb_fold_fst [of buf "(s, tr)"] by (simp add: screen_after_def fb_write_def)

lemma screen_after_append: "screen_after b (screen_after a s) = screen_after (a @ b) s"
  using fb_fold_fst [of b "fold fb_put_char a (s, [])"] by (simp add: screen_after_def fb_write_def)

lemma screen_after_Nil [simp]: "screen_after [] s = s"
  by (simp add: screen_after_def fb_write_def)

text \<open>Output on both devices, as the loop does it between two characters.\<close>

definition echoed :: "byte list \<Rightarrow> byte list \<Rightarrow> kernel \<Rightarrow> kernel \<Rightarrow> bool" where
  "echoed scr ser k k' \<longleftrightarrow> com1 k' = com1 k @ ser \<and> k_fb k' = screen_after scr (k_fb k) \<and> k_tbl k' = k_tbl k"

lemma echoed_trans: "echoed a b k k1 \<Longrightarrow> echoed c d k1 k2 \<Longrightarrow> echoed (a @ c) (b @ d) k k2"
  by (simp add: echoed_def screen_after_append)

lemma echoed_refl: "k_fb k' = k_fb k \<Longrightarrow> com1 k' = com1 k \<Longrightarrow> k_tbl k' = k_tbl k \<Longrightarrow> echoed [] [] k k'"
  by (simp add: echoed_def)

lemma echo_returns:
  assumes "transmitter_drains hw SERIAL_COM1_BASE"
  obtains k' where "k_serial_write hw ser (k_fb_write scr k) = Some k'" "echoed scr ser k k'"
    "k_kbd k' = k_kbd k" "k_mem k' = k_mem k" "only_output (k_tr k) (k_tr k')"
proof -
  let ?k = "k_fb_write scr k"
  obtain es where es: "k_serial_write hw ser ?k = Some (?k\<lparr>k_tr := es @ k_tr ?k\<rparr>)"
    "list_all (serial_event SERIAL_COM1_BASE) es" "outs (SERIAL_DATA_PORT SERIAL_COM1_BASE) es = ser"
    using k_serial_write_returns [OF assms] by metis
  have "com1 (?k\<lparr>k_tr := es @ k_tr ?k\<rparr>) = com1 ?k @ ser" using es(3) by (simp add: com1_def)
  moreover have "only_output (k_tr k) (es @ k_tr ?k)"
    using only_output_trans [OF only_output_fb_out only_output_serial [OF es(2)], of "(k_fb k, k_tr k)"] by simp
  ultimately show ?thesis
    using es(1) by (intro that [of "?k\<lparr>k_tr := es @ k_tr ?k\<rparr>"]) (simp_all add: echoed_def fst_fb_out)
qed

lemma serial_write_char_write: "serial_write_char hw com c tr = map_option (\<lambda>(_, tr). (1, tr)) (serial_write hw com [c] tr)"
  by (cases "serial_wait_transmit hw com tr") (simp_all add: serial_write_char_def serial_write_def)

lemma store_returns:
  assumes "transmitter_drains hw SERIAL_COM1_BASE"
  obtains k' where "sys_read_store hw addr c k = Some k'" "echoed [c] [c] k k'"
    "k_kbd k' = k_kbd k" "k_mem k' = (k_mem k)(addr := c)" "only_output (k_tr k) (k_tr k')"
proof -
  let ?k = "k\<lparr>k_mem := (k_mem k)(addr := c)\<rparr>"
  have e: "sys_read_store hw addr c k = k_serial_write hw [c] (k_fb_write [c] ?k)"
    by (auto simp: sys_read_store_def k_serial_write_def serial_write_char_write Let_def split: bind_splits)
  obtain k' where "k_serial_write hw [c] (k_fb_write [c] ?k) = Some k'" "echoed [c] [c] ?k k'"
    "k_kbd k' = k_kbd ?k" "k_mem k' = k_mem ?k" "only_output (k_tr ?k) (k_tr k')"
    using echo_returns [OF assms, of "[c]" "[c]" ?k] by metis
  then show ?thesis using e by (intro that) (simp_all add: echoed_def)
qed

lemma fetch_pending:
  assumes "kbd_inv (k_kbd k)" "kbd_pending (k_kbd k) = c # cs"
  obtains s where "sys_read_fetch hw k = (uint c, k\<lparr>k_kbd := s\<rparr>)" "kbd_inv s" "kbd_pending s = cs"
    "shift_active s = shift_active (k_kbd k)"
  using kbd_getchar_first [OF assms] kbd_inv_getchar [OF assms(1)]
  by (intro that [of "snd (keyboard_getchar (k_kbd k))"])
    (simp_all add: sys_read_fetch_def split_def Let_def keyboard_getchar_def)

lemma uint_char_simps:
  "uint (c :: byte) = 0 \<longleftrightarrow> c = 0" "uint c = 10 \<longleftrightarrow> c = 10" "uint c = 13 \<longleftrightarrow> c = 13"
  "uint c = 8 \<longleftrightarrow> c = 8" "uint c = 127 \<longleftrightarrow> c = 127"
  by (simp_all add: word_uint_eq_iff)

lemma listening_output:
  "k_kbd k' = k_kbd k \<Longrightarrow> k_tbl k' = k_tbl k \<Longrightarrow> only_output (k_tr k) (k_tr k') \<Longrightarrow>
    input keys k' = input keys k \<and> listening keys k' = listening keys k \<and> interrupts_on (k_tr k') = interrupts_on (k_tr k)"
  using input_cong [of k' k keys] listening_cong [of k' k keys] by (simp add: only_output_def)

lemma heard_echoed: "heard keys k k' \<Longrightarrow> echoed [] [] k k'"
  by (simp add: heard_def echoed_def com1_def com1_port pic_const_defs)

text \<open>
  The loop with an empty ring buffer and keys to come: the serial line has nothing, and the
  processor sleeps until a key arrives. Fewer keys are left then.
\<close>

lemma sys_read_sleeps:
  assumes ty: "typist hw keys" and li: "listening keys k" and on: "interrupts_on (k_tr k)"
    and none: "kbd_pending (k_kbd k) = []" and left: "keys_left keys k \<noteq> []"
  obtains k' where "sys_read_fetch hw k = (-1, k\<lparr>k_tr := In (SERIAL_LINE_STATUS_PORT SERIAL_COM1_BASE)
      (port_in hw (k_tr k) (SERIAL_LINE_STATUS_PORT SERIAL_COM1_BASE)) # k_tr k\<rparr>)"
    "Option.bind (irq_point hw (snd (sys_read_fetch hw k))) (cpu_hlt hw) = Some k'"
    "heard keys k k'" "listening keys k'" "length (keys_left keys k') < length (keys_left keys k)"
proof -
  let ?k = "k\<lparr>k_tr := In (SERIAL_LINE_STATUS_PORT SERIAL_COM1_BASE)
      (port_in hw (k_tr k) (SERIAL_LINE_STATUS_PORT SERIAL_COM1_BASE)) # k_tr k\<rparr>"
  have p: "SERIAL_LINE_STATUS_PORT SERIAL_COM1_BASE \<noteq> KBD_DATA_PORT" by (simp add: serial_port_defs KBD_DATA_PORT_def)
  have "port_in hw (k_tr k) (SERIAL_LINE_STATUS_PORT SERIAL_COM1_BASE) AND 1 = 0"
    using ty left by (simp add: typist_def keys_left_def)
  moreover have "kbd_buf_count (k_kbd k) = 0" using none length_kbd_pending [of "k_kbd k"] by (simp add: u32_nat)
  ultimately have f: "sys_read_fetch hw k = (-1, ?k)"
    by (simp add: sys_read_fetch_def kbd_getchar_empty serial_read_char_def split_def Let_def)
  have l: "listening keys ?k" "keys_left keys ?k = keys_left keys k"
    using li p by (simp_all add: listening_def keys_left_def)
  obtain k1 where k1: "irq_point hw ?k = Some k1" "heard keys ?k k1" "keys_left keys k1 \<noteq> []"
    "length (keys_left keys k1) \<le> length (keys_left keys k)" "length (kbd_pending (k_kbd k1)) \<le> 1"
  proof (rule typist_irq_point [OF ty l(1)])
    fix k1
    assume a: "irq_point hw ?k = Some k1" "heard keys ?k k1" "length (keys_left keys k1) \<le> length (keys_left keys ?k)"
      "length (kbd_pending (k_kbd k1)) \<le> Suc (length (kbd_pending (k_kbd ?k)))"
      "\<exists>p b tr. k_tr ?k = In p b # tr \<Longrightarrow> keys_left keys ?k \<noteq> [] \<Longrightarrow> keys_left keys k1 \<noteq> []"
      "k_tr k1 = k_tr ?k \<or> (\<exists>v. k_tr k1 = pic_ack 33 (In KBD_DATA_PORT v # k_tr ?k))"
    have "keys_left keys k1 \<noteq> []" using a(5) l(2) left by simp
    moreover have "length (kbd_pending (k_kbd k1)) \<le> 1" using a(4) none by (simp del: length_kbd_pending)
    ultimately show thesis using that a(1-3) l(2) by metis
  qed
  have k1l: "listening keys k1" "interrupts_on (k_tr k1)"
    using k1(2,5) li left on by (auto simp: listening_def heard_def)
  obtain k2 where k2: "cpu_hlt hw k1 = Some k2" "heard keys k1 k2" "keys_left keys k2 = tl (keys_left keys k1)"
    "length (kbd_pending (k_kbd k2)) \<le> Suc (length (kbd_pending (k_kbd k1)))"
    using typist_hlt [OF ty k1l(1) k1(3) k1l(2)] by metis
  have "heard keys k ?k"
    using p by (intro heard_refl [where es = "[In (SERIAL_LINE_STATUS_PORT SERIAL_COM1_BASE)
      (port_in hw (k_tr k) (SERIAL_LINE_STATUS_PORT SERIAL_COM1_BASE))]"]) simp_all
  then have h: "heard keys k k2" using k1(2) k2(2) heard_trans by metis
  moreover have "listening keys k2" using h k1(5) k2(4) li left by (auto simp: listening_def heard_def)
  moreover have "length (keys_left keys k2) < length (keys_left keys k)"
    using k1(3,4) k2(3) by (cases "keys_left keys k1") simp_all
  ultimately show ?thesis using f k1(1) k2(1) by (intro that [of k2]) simp_all
qed

text \<open>One round of the loop by the next character, whether it is pending or still to be typed.\<close>

definition loop_turn :: "hardware \<Rightarrow> u32 \<Rightarrow> u32 \<Rightarrow> u32 \<Rightarrow> byte \<Rightarrow> kernel \<Rightarrow> (u32 \<times> kernel) option" where
  "loop_turn hw buf max_count idx c k =
     (if c = 0 \<or> c = 10 \<or> c = 13 then
        Option.bind (k_serial_write hw [13, 10] (k_fb_write [10] k)) (\<lambda>k. Some (idx, k))
      else if c = 8 \<or> c = 127 then
        (if idx > 0 then Option.bind (k_serial_write hw [8, 32, 8] (k_fb_write [8] k))
             (\<lambda>k. sys_read_loop hw buf max_count (idx - 1) k)
         else sys_read_loop hw buf max_count idx k)
      else Option.bind (sys_read_store hw (buf + idx) c k) (\<lambda>k. sys_read_loop hw buf max_count (idx + 1) k))"

lemma sys_read_round:
  assumes ty: "typist hw keys" and idx: "idx < max_count - 1"
    and k: "listening keys k" "interrupts_on (k_tr k)" "input keys k = c # cs"
  obtains k1 where "sys_read_loop hw buf max_count idx k = loop_turn hw buf max_count idx c k1"
    "listening keys k1" "interrupts_on (k_tr k1)" "input keys k1 = cs" "echoed [] [] k k1" "k_mem k1 = k_mem k"
proof -
  have "\<exists>k1. sys_read_loop hw buf max_count idx k = loop_turn hw buf max_count idx c k1 \<and>
      listening keys k1 \<and> interrupts_on (k_tr k1) \<and> input keys k1 = cs \<and> echoed [] [] k k1 \<and> k_mem k1 = k_mem k"
    using k
  proof (induction "length (keys_left keys k)" arbitrary: k rule: less_induct)
    case less
    obtain k0 where k0: "irq_point hw k = Some k0" "heard keys k k0"
      "length (keys_left keys k0) \<le> length (keys_left keys k)"
      "length (kbd_pending (k_kbd k0)) \<le> Suc (length (kbd_pending (k_kbd k)))"
      using typist_irq_point [OF ty less.prems(1)] by metis
    have k0': "kbd_inv (k_kbd k0)" "input keys k0 = c # cs" "interrupts_on (k_tr k0)" "k_mem k0 = k_mem k"
      "k_tbl k0 = k_tbl k"
      using k0(2) less.prems by (simp_all add: heard_def listening_def)
    have tbl: "keys_left keys k0 \<noteq> [] \<Longrightarrow> k_tbl k0 33 = Some Keyboard_interrupt_handler \<and> length (kbd_pending (k_kbd k)) < 256"
      using less.prems(1) k0(3) k0'(5) by (auto simp: listening_def)
    show ?case
    proof (cases "kbd_pending (k_kbd k0)")
      case Nil
      then have left: "keys_left keys k0 \<noteq> []" using k0'(2) by (auto simp: input_def)
      then have li: "listening keys k0" using k0'(1) tbl Nil by (simp add: listening_def)
      obtain k2 where k2: "fst (sys_read_fetch hw k0) = -1"
        "Option.bind (irq_point hw (snd (sys_read_fetch hw k0))) (cpu_hlt hw) = Some k2"
        "heard keys k0 k2" "listening keys k2" "length (keys_left keys k2) < length (keys_left keys k0)"
        using sys_read_sleeps [OF ty li k0'(3) Nil left] by (metis fst_conv)
      have step: "sys_read_loop hw buf max_count idx k = sys_read_loop hw buf max_count idx k2"
        using k2(1,2) k0(1) idx by (subst sys_read_loop.simps) (auto simp: Let_def bind_eq_Some_conv)
      have h: "heard keys k k2" using k0(2) k2(3) by (rule heard_trans)
      have "\<exists>k1. sys_read_loop hw buf max_count idx k2 = loop_turn hw buf max_count idx c k1 \<and>
          listening keys k1 \<and> interrupts_on (k_tr k1) \<and> input keys k1 = cs \<and> echoed [] [] k2 k1 \<and> k_mem k1 = k_mem k2"
        using k2(4,5) k0(3) h less.prems by (intro less.hyps) (simp_all add: heard_def)
      then show ?thesis using step h heard_echoed [OF h] echoed_trans [of "[]" "[]" k k2 "[]" "[]"] by (auto simp: heard_def)
    next
      case (Cons x xs)
      obtain s where s: "sys_read_fetch hw k0 = (uint x, k0\<lparr>k_kbd := s\<rparr>)" "kbd_inv s" "kbd_pending s = xs"
        "shift_active s = shift_active (k_kbd k0)"
        using fetch_pending [OF k0'(1) Cons] by metis
      have x: "x = c" "xs @ keys_text (shift_active (k_kbd k0)) (keys_left keys k0) = cs"
        using k0'(2) Cons by (simp_all add: input_def)
      let ?k = "k0\<lparr>k_kbd := s\<rparr>"
      have "sys_read_loop hw buf max_count idx k = loop_turn hw buf max_count idx c ?k"
        using idx k0(1) s(1) x(1) by (subst sys_read_loop.simps) (simp add: uint_char_simps Let_def loop_turn_def)
      moreover have "input keys ?k = cs" using s(3,4) x(2) by (simp add: input_def keys_left_def)
      moreover have "length xs < 256" if "keys_left keys k0 \<noteq> []" using tbl [OF that] k0(4) Cons by (metis le_less_trans length_Cons Suc_le_mono)
      then have "listening keys ?k" using s(2,3) tbl by (simp add: listening_def keys_left_def)
      moreover have "echoed [] [] k ?k" using heard_echoed [OF k0(2)] by (simp add: echoed_def)
      ultimately show ?thesis using k0'(3,4) by (intro exI [of _ ?k]) simp
    qed
  qed
  then show ?thesis using that by blast
qed

lemma read_bytes_snoc:
  assumes "n < 4294967296" "read_bytes m a n = acc"
  shows "read_bytes (m(a + word_of_nat n := c)) a (Suc n) = acc @ [c]"
  using assms by (auto simp: read_bytes_def of_nat_u32_inject)

lemma read_bytes_shrink: "read_bytes m a n = acc \<Longrightarrow> read_bytes m a (n - 1) = butlast acc"
  by (cases n) (auto simp: read_bytes_def)

text \<open>
  What a finished line means for the kernel: characters stored, rest still pending, echo
  done, no byte outside the user's buffer touched.
\<close>

definition line_read :: "byte list \<Rightarrow> u32 \<Rightarrow> nat \<Rightarrow> kernel \<Rightarrow> byte list \<times> byte list \<times> byte list \<times> byte list \<Rightarrow> kernel \<Rightarrow> bool" where
  "line_read keys buf cap k r k' = (case r of (line, rest, scr, ser) \<Rightarrow>
     read_bytes (k_mem k') buf (length line) = line \<and> length line \<le> cap \<and> input keys k' = rest \<and>
     listening keys k' \<and> echoed scr ser k k' \<and> (\<forall>x. \<not> in_obj buf cap x \<longrightarrow> k_mem k' x = k_mem k x))"

lemma line_read_step:
  assumes "line_read keys buf cap k1 (line, rest, scr, ser) k'" "echoed a b k k1"
    "\<forall>x. \<not> in_obj buf cap x \<longrightarrow> k_mem k1 x = k_mem k x"
  shows "line_read keys buf cap k (line, rest, a @ scr, b @ ser) k'"
  using assms echoed_trans [OF assms(2)] by (auto simp: line_read_def)

text \<open>
  The state of the loop with the characters \<open>acc\<close> in the buffer and \<open>cs\<close> to come, and
  the loop ending from there with the result \<open>r\<close> of the line discipline.
\<close>

definition line_ready :: "byte list \<Rightarrow> u32 \<Rightarrow> nat \<Rightarrow> byte list \<Rightarrow> byte list \<Rightarrow> kernel \<Rightarrow> bool" where
  "line_ready keys buf cap acc cs k \<longleftrightarrow> listening keys k \<and> interrupts_on (k_tr k) \<and> input keys k = cs \<and>
     read_bytes (k_mem k) buf (length acc) = acc \<and> length acc \<le> cap"

definition loop_reads :: "hardware \<Rightarrow> byte list \<Rightarrow> u32 \<Rightarrow> u32 \<Rightarrow> byte list \<Rightarrow> kernel \<Rightarrow>
    byte list \<times> byte list \<times> byte list \<times> byte list \<Rightarrow> bool" where
  "loop_reads hw keys buf max_count acc k r \<longleftrightarrow>
     (\<exists>k'. sys_read_loop hw buf max_count (word_of_nat (length acc)) k = Some (word_of_nat (length (fst r)), k') \<and>
        line_read keys buf (unat (max_count - 1)) k r k')"

lemma ready_index:
  assumes "line_ready keys buf (unat (max_count - 1 :: u32)) acc cs k"
  shows "word_of_nat (length acc) < max_count - 1 \<longleftrightarrow> length acc < unat (max_count - 1)"
    "(word_of_nat (length acc) :: u32) > 0 \<longleftrightarrow> acc \<noteq> []"
proof -
  have "length acc \<le> unat (max_count - 1)" using assms by (simp add: line_ready_def)
  then have "length acc < 4294967296" using unat_lt_2p32 [of "max_count - 1"] by linarith
  then have "unat (word_of_nat (length acc) :: u32) = length acc" by (rule unat_of_nat_u32)
  then show "word_of_nat (length acc) < max_count - 1 \<longleftrightarrow> length acc < unat (max_count - 1)"
    "(word_of_nat (length acc) :: u32) > 0 \<longleftrightarrow> acc \<noteq> []" by (auto simp: u32_nat)
qed

lemma loop_full:
  assumes "line_ready keys buf (unat (max_count - 1)) acc cs k" "unat (max_count - 1) \<le> length acc"
  shows "loop_reads hw keys buf max_count acc k (acc, cs, [], [])"
proof -
  have "sys_read_loop hw buf max_count (word_of_nat (length acc)) k = Some (word_of_nat (length acc), k)"
    using ready_index(1) [OF assms(1)] assms(2) by (subst sys_read_loop.simps) simp
  with assms(1) show ?thesis
    by (auto simp: loop_reads_def line_read_def line_ready_def intro: echoed_refl)
qed

lemma loop_reads_step:
  assumes step: "sys_read_loop hw buf max_count (word_of_nat (length acc)) k =
      sys_read_loop hw buf max_count (word_of_nat (length acc')) k1"
    and tail: "loop_reads hw keys buf max_count acc' k1 (line, rest, scr, ser)"
    and k1: "echoed a b k k1" "\<forall>x. \<not> in_obj buf (unat (max_count - 1)) x \<longrightarrow> k_mem k1 x = k_mem k x"
  shows "loop_reads hw keys buf max_count acc k (line, rest, a @ scr, b @ ser)"
  using tail step line_read_step [OF _ k1] by (auto simp: loop_reads_def)

text \<open>The next round from a loop state, and the loop state after the echo of that round.\<close>

lemma loop_round:
  assumes ty: "typist hw keys"
    and ready: "line_ready keys buf (unat (max_count - 1)) acc (c # cs) k" "length acc < unat (max_count - 1)"
  obtains k1 where "sys_read_loop hw buf max_count (word_of_nat (length acc)) k =
      loop_turn hw buf max_count (word_of_nat (length acc)) c k1"
    "listening keys k1" "interrupts_on (k_tr k1)" "input keys k1 = cs" "echoed [] [] k k1" "k_mem k1 = k_mem k"
    "read_bytes (k_mem k1) buf (length acc) = acc"
proof -
  have k: "listening keys k" "interrupts_on (k_tr k)" "input keys k = c # cs" "read_bytes (k_mem k) buf (length acc) = acc"
    using ready(1) by (simp_all add: line_ready_def)
  have idx: "word_of_nat (length acc) < max_count - 1" using ready_index(1) [OF ready(1)] ready(2) by simp
  from sys_read_round [OF ty idx k(1-3), of buf] k(4) that show ?thesis by metis
qed

lemma line_ready_output:
  assumes "listening keys k1" "interrupts_on (k_tr k1)" "input keys k1 = cs"
    and "k_kbd k2 = k_kbd k1" "echoed a b k1 k2" "only_output (k_tr k1) (k_tr k2)"
    and "read_bytes (k_mem k2) buf (length acc) = acc" "length acc \<le> cap"
  shows "line_ready keys buf cap acc cs k2"
  using assms listening_output [OF assms(4) _ assms(6), of keys] by (simp add: line_ready_def echoed_def)

lemma loop_eol:
  assumes drains: "transmitter_drains hw SERIAL_COM1_BASE" and ty: "typist hw keys"
    and ready: "line_ready keys buf (unat (max_count - 1)) acc (c # cs) k" "length acc < unat (max_count - 1)"
    and c: "c = 0 \<or> c = 10 \<or> c = 13"
  shows "loop_reads hw keys buf max_count acc k (acc, cs, [10], [13, 10])"
proof -
  obtain k1 where k1: "sys_read_loop hw buf max_count (word_of_nat (length acc)) k =
      loop_turn hw buf max_count (word_of_nat (length acc)) c k1"
    "listening keys k1" "interrupts_on (k_tr k1)" "input keys k1 = cs" "echoed [] [] k k1" "k_mem k1 = k_mem k"
    "read_bytes (k_mem k1) buf (length acc) = acc"
    using loop_round [OF ty ready] by metis
  obtain k2 where k2: "k_serial_write hw [13, 10] (k_fb_write [10] k1) = Some k2" "echoed [10] [13, 10] k1 k2"
    "k_kbd k2 = k_kbd k1" "k_mem k2 = k_mem k1" "only_output (k_tr k1) (k_tr k2)"
    using echo_returns [OF drains, of "[13, 10]" "[10]" k1] by metis
  have "line_ready keys buf (unat (max_count - 1)) acc cs k2"
    using k2(4) k1(7) ready(2) by (intro line_ready_output [OF k1(2-4) k2(3,2,5)]) simp_all
  with k1 k2 c echoed_trans [OF k1(5) k2(2)] show ?thesis
    by (auto simp: loop_reads_def line_read_def line_ready_def loop_turn_def)
qed

lemma loop_erase:
  assumes drains: "transmitter_drains hw SERIAL_COM1_BASE" and ty: "typist hw keys"
    and ready: "line_ready keys buf (unat (max_count - 1)) acc (c # cs) k" "length acc < unat (max_count - 1)"
    and c: "c = 8 \<or> c = 127"
    and tail: "\<And>k1. line_ready keys buf (unat (max_count - 1)) (butlast acc) cs k1 \<Longrightarrow>
      loop_reads hw keys buf max_count (butlast acc) k1 (line, rest, scr, ser)"
  shows "loop_reads hw keys buf max_count acc k (line, rest, (if acc = [] then [] else [8]) @ scr, (if acc = [] then [] else [8, 32, 8]) @ ser)"
proof -
  obtain k1 where k1: "sys_read_loop hw buf max_count (word_of_nat (length acc)) k =
      loop_turn hw buf max_count (word_of_nat (length acc)) c k1"
    "listening keys k1" "interrupts_on (k_tr k1)" "input keys k1 = cs" "echoed [] [] k k1" "k_mem k1 = k_mem k"
    "read_bytes (k_mem k1) buf (length acc) = acc"
    using loop_round [OF ty ready] by metis
  have c': "\<not> (c = 0 \<or> c = 10 \<or> c = 13)" using c by auto
  show ?thesis
  proof (cases "acc = []")
    case True
    then have ready': "line_ready keys buf (unat (max_count - 1)) (butlast acc) cs k1"
      using k1(2-4) by (simp add: line_ready_def read_bytes_def)
    have "loop_reads hw keys buf max_count acc k (line, rest, [] @ scr, [] @ ser)"
      using k1(1,5,6) True c c' by (intro loop_reads_step [OF _ tail [OF ready']]) (simp_all add: loop_turn_def)
    with True show ?thesis by simp
  next
    case False
    obtain k2 where k2: "k_serial_write hw [8, 32, 8] (k_fb_write [8] k1) = Some k2" "echoed [8] [8, 32, 8] k1 k2"
      "k_kbd k2 = k_kbd k1" "k_mem k2 = k_mem k1" "only_output (k_tr k1) (k_tr k2)"
      using echo_returns [OF drains, of "[8, 32, 8]" "[8]" k1] by metis
    have "word_of_nat (length acc) - 1 = (word_of_nat (length (butlast acc)) :: u32)"
      using False by (cases acc rule: rev_cases) simp_all
    then have "sys_read_loop hw buf max_count (word_of_nat (length acc)) k =
        sys_read_loop hw buf max_count (word_of_nat (length (butlast acc))) k2"
      using k1(1) k2(1) False c c' ready_index(2) [OF ready(1)] by (simp add: loop_turn_def)
    moreover have "line_ready keys buf (unat (max_count - 1)) (butlast acc) cs k2"
      using k2(4) read_bytes_shrink [OF k1(7)] ready(2) by (intro line_ready_output [OF k1(2-4) k2(3,2,5)]) simp_all
    moreover have "echoed [8] [8, 32, 8] k k2" using echoed_trans [OF k1(5) k2(2)] by simp
    moreover have "\<forall>x. \<not> in_obj buf (unat (max_count - 1)) x \<longrightarrow> k_mem k2 x = k_mem k x" using k1(6) k2(4) by simp
    ultimately have "loop_reads hw keys buf max_count acc k (line, rest, [8] @ scr, [8, 32, 8] @ ser)"
      using tail by (intro loop_reads_step)
    with False show ?thesis by simp
  qed
qed

lemma loop_store:
  assumes drains: "transmitter_drains hw SERIAL_COM1_BASE" and ty: "typist hw keys"
    and ready: "line_ready keys buf (unat (max_count - 1)) acc (c # cs) k" "length acc < unat (max_count - 1)"
    and c: "c \<notin> {0, 10, 13, 8, 127}"
    and tail: "\<And>k1. line_ready keys buf (unat (max_count - 1)) (acc @ [c]) cs k1 \<Longrightarrow>
      loop_reads hw keys buf max_count (acc @ [c]) k1 (line, rest, scr, ser)"
  shows "loop_reads hw keys buf max_count acc k (line, rest, [c] @ scr, [c] @ ser)"
proof -
  let ?a = "buf + word_of_nat (length acc)"
  obtain k1 where k1: "sys_read_loop hw buf max_count (word_of_nat (length acc)) k =
      loop_turn hw buf max_count (word_of_nat (length acc)) c k1"
    "listening keys k1" "interrupts_on (k_tr k1)" "input keys k1 = cs" "echoed [] [] k k1" "k_mem k1 = k_mem k"
    "read_bytes (k_mem k1) buf (length acc) = acc"
    using loop_round [OF ty ready] by metis
  obtain k2 where k2: "sys_read_store hw ?a c k1 = Some k2" "echoed [c] [c] k1 k2"
    "k_kbd k2 = k_kbd k1" "k_mem k2 = (k_mem k1)(?a := c)" "only_output (k_tr k1) (k_tr k2)"
    using store_returns [OF drains, of ?a c k1] by metis
  have lt: "length acc < 4294967296" using ready(2) unat_lt_2p32 [of "max_count - 1"] by linarith
  have "read_bytes (k_mem k2) buf (length (acc @ [c])) = acc @ [c]"
    using read_bytes_snoc [OF lt k1(7)] k2(4) by simp
  then have "line_ready keys buf (unat (max_count - 1)) (acc @ [c]) cs k2"
    using ready(2) by (intro line_ready_output [OF k1(2-4) k2(3,2,5)]) simp_all
  note tail [OF this]
  moreover have "sys_read_loop hw buf max_count (word_of_nat (length acc)) k =
      sys_read_loop hw buf max_count (word_of_nat (length (acc @ [c]))) k2"
    using k1(1) k2(1) c by (simp add: loop_turn_def add.commute)
  moreover have "\<forall>x. \<not> in_obj buf (unat (max_count - 1)) x \<longrightarrow> k_mem k2 x = k_mem k x"
    using k1(6) k2(4) in_obj_offset [OF ready(2), of buf] unat_lt_2p32 [of "max_count - 1"] by (auto simp: less_imp_le)
  moreover have "echoed [c] [c] k k2" using echoed_trans [OF k1(5) k2(2)] by simp
  ultimately show ?thesis by (intro loop_reads_step)
qed

lemma sys_read_line:
  assumes drains: "transmitter_drains hw SERIAL_COM1_BASE" and ty: "typist hw keys"
  shows "line_edit (unat (max_count - 1)) acc cs = Some r \<Longrightarrow> line_ready keys buf (unat (max_count - 1)) acc cs k \<Longrightarrow>
    loop_reads hw keys buf max_count acc k r"
proof (induction "unat (max_count - 1)" acc cs arbitrary: r k rule: line_edit.induct)
  case (1 acc)
  then show ?case using loop_full by (auto split: if_splits)
next
  case (2 acc c cs)
  let ?cap = "unat (max_count - 1)"
  consider (full) "?cap \<le> length acc" | (eol) "length acc < ?cap" "c = 0 \<or> c = 10 \<or> c = 13"
    | (erase) "length acc < ?cap" "c = 8 \<or> c = 127" | (store) "length acc < ?cap" "c \<notin> {0, 10, 13, 8, 127}"
    by fastforce
  then show ?case
  proof cases
    case full
    with 2 show ?thesis using loop_full by auto
  next
    case eol
    with 2 show ?thesis using loop_eol [OF drains ty 2(5) eol] by auto
  next
    case erase
    then have c: "\<not> (c = 0 \<or> c = 10 \<or> c = 13)" by auto
    obtain line rest scr ser where t: "line_edit ?cap (butlast acc) cs = Some (line, rest, scr, ser)"
      and r: "r = (line, rest, (if acc = [] then [] else [8]) @ scr, (if acc = [] then [] else [8, 32, 8]) @ ser)"
      using 2(4) erase c by (cases r) (auto simp: also_echo_def split: if_splits)
    have "loop_reads hw keys buf max_count (butlast acc) k1 (line, rest, scr, ser)"
      if "line_ready keys buf ?cap (butlast acc) cs k1" for k1
      using 2(1,2) erase c t that by (cases "acc = []") auto
    then show ?thesis unfolding r by (rule loop_erase [OF drains ty 2(5) erase])
  next
    case store
    obtain line rest scr ser where t: "line_edit ?cap (acc @ [c]) cs = Some (line, rest, scr, ser)"
      and r: "r = (line, rest, [c] @ scr, [c] @ ser)"
      using 2(4) store by (auto simp: also_echo_def)
    have "loop_reads hw keys buf max_count (acc @ [c]) k1 (line, rest, scr, ser)"
      if "line_ready keys buf ?cap (acc @ [c]) cs k1" for k1
      using 2(3) store t that by auto
    then show ?thesis unfolding r by (rule loop_store [OF drains ty 2(5) store])
  qed
qed

lemma sys_read_call:
  assumes "transmitter_drains hw SERIAL_COM1_BASE" and "typist hw keys"
    and "r_eax r = SYS_READ" and "r_ebx r = 0" and "r_ecx r \<noteq> 0" and "1 < r_edx r" and "listening keys k"
    and "line_edit (unat (r_edx r) - 1) [] (input keys k) = Some (line, rest, scr, ser)"
  shows "\<exists>k'. do_syscall_in_C hw (Some r) k = Some (Some (r\<lparr>r_eax := word_of_nat (length line)\<rparr>), k') \<and>
    length line < unat (r_edx r) \<and>
    read_bytes (k_mem k') (r_ecx r) (length line + 1) = line @ [0] \<and> input keys k' = rest \<and>
    listening keys k' \<and> com1 k' = com1 k @ ser \<and> k_fb k' = screen_after scr (k_fb k) \<and> k_tbl k' = k_tbl k \<and>
    (\<forall>x. \<not> in_obj (r_ecx r) (unat (r_edx r)) x \<longrightarrow> k_mem k' x = k_mem k x)"
proof -
  let ?k = "k\<lparr>k_tr := enable_interrupts (k_tr k)\<rparr>" and ?a = "r_ecx r + word_of_nat (length line)"
  have cap: "unat (r_edx r - 1) = unat (r_edx r) - 1" using assms(6) by (simp add: unat_sub u32_nat)
  have c1: "com1 ?k = com1 k" by (simp add: com1_def enable_interrupts_def)
  have "line_ready keys (r_ecx r) (unat (r_edx r - 1)) [] (input keys k) ?k"
    using assms(7) by (simp add: line_ready_def read_bytes_def input_def listening_def keys_left_def)
  from sys_read_line [OF assms(1,2) assms(8) [folded cap] this] obtain k1
    where k1: "sys_read_loop hw (r_ecx r) (r_edx r) 0 ?k = Some (word_of_nat (length line), k1)"
      "line_read keys (r_ecx r) (unat (r_edx r) - 1) ?k (line, rest, scr, ser) k1"
    by (auto simp: loop_reads_def cap)
  have "length line < unat (r_edx r)" using k1(2) assms(6) by (auto simp: line_read_def u32_nat)
  then have lt: "length line < unat (r_edx r)" "length line < 4294967296"
    using unat_lt_2p32 [of "r_edx r"] by linarith+
  let ?k1 = "k1\<lparr>k_mem := (k_mem k1)(?a := 0)\<rparr>"
  have run: "do_syscall_in_C hw (Some r) k = Some (Some (r\<lparr>r_eax := word_of_nat (length line)\<rparr>), ?k1)"
    using assms(3-6) k1(1) by (simp add: do_syscall_in_C_def sys_read_def syscall_defs Let_def)
  have "input keys ?k1 = input keys k1" "listening keys ?k1 = listening keys k1"
    by (rule input_cong listening_cong; simp)+
  moreover have "read_bytes ((k_mem k1)(?a := 0)) (r_ecx r) (Suc (length line)) = line @ [0]"
    using k1(2) by (intro read_bytes_snoc [OF lt(2)]) (simp add: line_read_def)
  moreover have "k_mem k1 x = k_mem k x" "x \<noteq> ?a" if "\<not> in_obj (r_ecx r) (unat (r_edx r)) x" for x
  proof -
    have "\<not> in_obj (r_ecx r) (unat (r_edx r) - 1) x" using that in_obj_mono by (metis diff_le_self)
    then show "k_mem k1 x = k_mem k x" using k1(2) by (simp add: line_read_def)
    show "x \<noteq> ?a" using that in_obj_offset [OF lt(1), of "r_ecx r"] unat_lt_2p32 [of "r_edx r"] by (auto simp: less_imp_le)
  qed
  moreover have "input keys k1 = rest" "listening keys k1" "com1 k1 = com1 k @ ser" "k_tbl k1 = k_tbl k"
    "k_fb k1 = screen_after scr (k_fb k)"
    using k1(2) c1 by (simp_all add: line_read_def echoed_def)
  ultimately show ?thesis using run lt(1) by (intro exI [of _ ?k1]) (simp del: fun_upd_apply, simp)
qed

text \<open>
  C13: \<open>SYS_READ\<close> delivers an edited line, whether the keys arrive before the call, at
  the interrupt points of its loop (none or one at each), or while it sleeps in \<open>hlt\<close>. When the characters
  waiting in the ring buffer together with those still to be typed complete a line (with
  Enter or NUL, or by filling the buffer), the call returns the line's length, the user's
  buffer holds the line with backspaces applied and a terminating NUL, no character after
  the line is lost, the screen and the serial line got exactly the echo, and no byte
  outside the buffer changed.
\<close>

theorem sys_read_delivers_line:
  assumes "transmitter_drains hw SERIAL_COM1_BASE" and "typist hw keys"
    and "r_eax r = SYS_READ" and "r_ebx r = 0" and "r_ecx r \<noteq> 0" and "1 < r_edx r" and "listening keys k"
    and "line_edit (unat (r_edx r) - 1) [] (input keys k) = Some (line, rest, scr, ser)"
  shows "\<exists>k'. do_syscall_in_C hw (Some r) k = Some (Some (r\<lparr>r_eax := word_of_nat (length line)\<rparr>), k') \<and>
    length line < unat (r_edx r) \<and>
    read_bytes (k_mem k') (r_ecx r) (length line + 1) = line @ [0] \<and> input keys k' = rest \<and>
    listening keys k' \<and> com1 k' = com1 k @ ser \<and> k_fb k' = screen_after scr (k_fb k) \<and> k_tbl k' = k_tbl k \<and>
    (\<forall>x. \<not> in_obj (r_ecx r) (unat (r_edx r)) x \<longrightarrow> k_mem k' x = k_mem k x)"
  by (rule sys_read_call [OF assms])

lemma const_hw_drains: "transmitter_drains (const_hw 0x20) SERIAL_COM1_BASE"
  unfolding transmitter_drains_def by (intro allI exI [of _ 0]) simp

text \<open>An eager typist, who has a key ready at every boundary that does not follow a read of a device; the UART is idle.\<close>

definition typist_hw :: "byte list \<Rightarrow> hardware" where
  "typist_hw keys =
     \<lparr>port_in = (\<lambda>tr p. if p = KBD_DATA_PORT then (if keys_read tr < length keys then keys ! keys_read tr else 0) else 0x20),
      irq_line = (\<lambda>tr. case tr of In p b # es \<Rightarrow> None | _ \<Rightarrow> if keys_read tr < length keys then Some 33 else None)\<rparr>"

lemma typist_typist_hw: "typist (typist_hw keys) keys"
  by (auto simp: typist_def typist_hw_def serial_port_defs KBD_DATA_PORT_def split: if_splits list.splits io_event.splits)

lemma typist_hw_drains: "transmitter_drains (typist_hw keys) SERIAL_COM1_BASE"
  unfolding transmitter_drains_def
  by (intro allI exI [of _ 0]) (simp add: typist_hw_def serial_port_defs KBD_DATA_PORT_def)

text \<open>The keys L, S, backspace, left shift with S, shift released, Enter.\<close>

definition sample_keys :: "byte list" where
  "sample_keys = [0x26, 0xA6, 0x1F, 0x9F, 0x0E, 0x8E, 0x2A, 0x1F, 0x9F, 0xAA, 0x1C, 0x9C]"

lemma kernel_up_input: "input keys kernel_up = keys_text False keys" "listening keys kernel_up"
  using kbd_inv_bss by (simp_all add: input_def listening_def keys_left_def kbd_pending_def kbd_bss_def)

lemma sample_text: "keys_text False sample_keys = [108, 115, 8, 83, 10]"
  by code_simp

theorem sys_read_delivers_line_witness:
  "\<exists>k'. do_syscall_in_C (typist_hw sample_keys) (Some (user_regs 3 0 0x1000 16)) kernel_up
       = Some (Some (user_regs 2 0 0x1000 16), k') \<and> read_bytes (k_mem k') 0x1000 3 = [108, 83, 0]"
proof -
  have e: "line_edit (unat (r_edx (user_regs 3 0 0x1000 16)) - 1) [] (input sample_keys kernel_up)
      = Some ([108, 83], [], [108, 115, 8, 83, 10], [108, 115, 8, 32, 8, 83, 13, 10])"
    by (simp add: kernel_up_input sample_text user_regs_def also_echo_def)
  from sys_read_delivers_line [OF typist_hw_drains typist_typist_hw _ _ _ _ kernel_up_input(2) e] show ?thesis
    by (auto simp: user_regs_def syscall_defs numeral_3_eq_3)
qed

end
