(* ===== verification/Libc_String.thy ===== *)
theory Libc_String
  imports Prelude
begin

text \<open>
  \<open>userland/libc/src/string.c\<close>: the string functions of the C library on byte-addressed
  memory. The loops that stop at a NUL byte are \<open>partial_function (option)\<close>: a string
  without terminator is the value \<open>None\<close>. Pointers wrap around at 32 bits.
\<close>

section \<open>The functions\<close>

partial_function (option) strlen_loop :: "memory \<Rightarrow> u32 \<Rightarrow> u32 \<Rightarrow> u32 option" where
  "strlen_loop m s len = (if s \<noteq> 0 \<and> m (s + len) \<noteq> 0 then strlen_loop m s (len + 1) else Some len)"

definition strlen :: "memory \<Rightarrow> u32 \<Rightarrow> size_t option" where
  "strlen m s = strlen_loop m s 0"

partial_function (option) strcmp :: "memory \<Rightarrow> u32 \<Rightarrow> u32 \<Rightarrow> int option" where
  "strcmp m s1 s2 =
     (if m s1 \<noteq> 0 \<and> m s1 = m s2 then strcmp m (s1 + 1) (s2 + 1) else Some (uint (m s1) - uint (m s2)))"

function strncmp_loop :: "memory \<Rightarrow> u32 \<Rightarrow> u32 \<Rightarrow> nat \<Rightarrow> nat \<Rightarrow> int" where
  "strncmp_loop m s1 s2 n i =
     (if i < n then
        (if m (s1 + word_of_nat i) \<noteq> m (s2 + word_of_nat i) \<or> m (s1 + word_of_nat i) = 0
         then uint (m (s1 + word_of_nat i)) - uint (m (s2 + word_of_nat i))
         else strncmp_loop m s1 s2 n (i + 1))
      else 0)"
  by pat_completeness auto
termination
  by (relation "measure (\<lambda>(m, s1, s2, n, i). n - i)") auto

declare strncmp_loop.simps [simp del]

definition strncmp :: "memory \<Rightarrow> u32 \<Rightarrow> u32 \<Rightarrow> size_t \<Rightarrow> int" where
  "strncmp m s1 s2 n = strncmp_loop m s1 s2 (unat n) 0"

partial_function (option) strcpy_loop :: "u32 \<Rightarrow> u32 \<Rightarrow> memory \<Rightarrow> memory option" where
  "strcpy_loop d src m =
     (if m src \<noteq> 0 then strcpy_loop (d + 1) (src + 1) (m(d := m src)) else Some (m(d := m src)))"

definition strcpy :: "u32 \<Rightarrow> u32 \<Rightarrow> memory \<Rightarrow> (u32 \<times> memory) option" where
  "strcpy dest src m = Option.bind (strcpy_loop dest src m) (\<lambda>m. Some (dest, m))"

text \<open>The two loops of \<open>strncpy\<close> share the counter \<open>i\<close>.\<close>

function strncpy_copy :: "u32 \<Rightarrow> u32 \<Rightarrow> nat \<Rightarrow> nat \<Rightarrow> memory \<Rightarrow> nat \<times> memory" where
  "strncpy_copy dest src n i m =
     (if i < n \<and> m (src + word_of_nat i) \<noteq> 0
      then strncpy_copy dest src n (i + 1) (m(dest + word_of_nat i := m (src + word_of_nat i)))
      else (i, m))"
  by pat_completeness auto
termination
  by (relation "measure (\<lambda>(dest, src, n, i, m). n - i)") auto

declare strncpy_copy.simps [simp del]

definition strncpy :: "u32 \<Rightarrow> u32 \<Rightarrow> size_t \<Rightarrow> memory \<Rightarrow> u32 \<times> memory" where
  "strncpy dest src n m =
     (let (i, m) = strncpy_copy dest src (unat n) 0 m
      in (dest, fold (\<lambda>i m. m(dest + word_of_nat i := 0)) [i..<unat n] m))"

primrec memset_loop :: "nat \<Rightarrow> u32 \<Rightarrow> byte \<Rightarrow> memory \<Rightarrow> memory" where
  "memset_loop 0 p c m = m"
| "memset_loop (Suc n) p c m = memset_loop n (p + 1) c (m(p := c))"

definition memset :: "u32 \<Rightarrow> u32 \<Rightarrow> size_t \<Rightarrow> memory \<Rightarrow> u32 \<times> memory" where
  "memset s c n m = (s, memset_loop (unat n) s (ucast c) m)"

primrec memcpy_loop :: "nat \<Rightarrow> u32 \<Rightarrow> u32 \<Rightarrow> memory \<Rightarrow> memory" where
  "memcpy_loop 0 d s m = m"
| "memcpy_loop (Suc n) d s m = memcpy_loop n (d + 1) (s + 1) (m(d := m s))"

definition memcpy :: "u32 \<Rightarrow> u32 \<Rightarrow> size_t \<Rightarrow> memory \<Rightarrow> u32 \<times> memory" where
  "memcpy dest src n m = (dest, memcpy_loop (unat n) dest src m)"

partial_function (option) strchr :: "memory \<Rightarrow> u32 \<Rightarrow> u32 \<Rightarrow> u32 option" where
  "strchr m s c =
     (if m s \<noteq> 0 then (if m s = ucast c then Some s else strchr m (s + 1) c)
      else if c = 0 then Some s else Some 0)"

section \<open>Strings in memory\<close>

definition c_string :: "memory \<Rightarrow> u32 \<Rightarrow> byte list \<Rightarrow> bool" where
  "c_string m s bs \<longleftrightarrow> read_bytes m s (Suc (length bs)) = bs @ [0] \<and> 0 \<notin> set bs \<and> length bs < 4294967296"

lemma read_bytes_Cons: "read_bytes m a (Suc n) = m a # read_bytes m (a + 1) n"
  unfolding read_bytes_def by (subst upt_conv_Cons) (simp_all add: map_Suc_upt [symmetric] add.assoc o_def del: upt_Suc)

lemma c_string_Nil [simp]: "c_string m s [] \<longleftrightarrow> m s = 0"
  by (simp add: c_string_def read_bytes_def)

lemma c_string_Cons [simp]:
  "c_string m s (b # bs) \<longleftrightarrow> m s = b \<and> b \<noteq> 0 \<and> c_string m (s + 1) bs \<and> Suc (length bs) < 4294967296"
  by (auto simp: c_string_def read_bytes_Cons [of m s])

lemma c_string_nth: "c_string m s bs \<Longrightarrow> i < length bs \<Longrightarrow> m (s + word_of_nat i) = bs ! i"
  and c_string_end: "c_string m s bs \<Longrightarrow> m (s + word_of_nat (length bs)) = 0"
proof -
  assume "c_string m s bs"
  then have r: "read_bytes m s (Suc (length bs)) = bs @ [0]" by (simp add: c_string_def)
  show "i < length bs \<Longrightarrow> m (s + word_of_nat i) = bs ! i"
    using arg_cong [OF r, of "\<lambda>xs. xs ! i"] by (simp add: nth_append)
  show "m (s + word_of_nat (length bs)) = 0"
    using arg_cong [OF r, of "\<lambda>xs. xs ! length bs"] by simp
qed

lemma strlen_loop_string:
  "c_string m (s + len) bs \<Longrightarrow> s \<noteq> 0 \<Longrightarrow> strlen_loop m s len = Some (len + word_of_nat (length bs))"
proof (induction bs arbitrary: len)
  case Nil
  then show ?case by (subst strlen_loop.simps) simp
next
  case (Cons b bs)
  then show ?case by (subst strlen_loop.simps) (simp add: add.assoc)
qed

text \<open>The order \<open>strcmp\<close> decides: the first difference, the shorter string first.\<close>

lemma strcmp_strings:
  "c_string m s1 a \<Longrightarrow> c_string m s2 b \<Longrightarrow>
    \<exists>r. strcmp m s1 s2 = Some r \<and> (r = 0 \<longleftrightarrow> a = b) \<and> (r < 0 \<longleftrightarrow> ord_class.lexordp a b)"
proof (induction a arbitrary: b s1 s2)
  case Nil
  then show ?case
    using uint_ge_0 [of "m s2"]
    by (cases b) (auto simp: strcmp.simps [of m s1] word_uint_eq_iff less_le simp del: uint_ge_0)
next
  case (Cons x a)
  show ?case
  proof (cases b)
    case Nil
    then have "strcmp m s1 s2 = Some (uint x)" using Cons.prems by (subst strcmp.simps) simp
    with Nil Cons.prems show ?thesis by (auto simp: word_uint_eq_iff)
  next
    case b: (Cons y b')
    show ?thesis
    proof (cases "x = y")
      case True
      then have "strcmp m s1 s2 = strcmp m (s1 + 1) (s2 + 1)" using Cons.prems b by (subst strcmp.simps) simp
      with True show ?thesis using Cons.IH [of "s1 + 1" "s2 + 1" b'] Cons.prems b by simp
    next
      case False
      then have "strcmp m s1 s2 = Some (uint x - uint y)" using Cons.prems b by (subst strcmp.simps) simp
      with False b show ?thesis by (auto simp: word_uint_eq_iff word_less_def)
    qed
  qed
qed

section \<open>Objects byte by byte\<close>

lemma unat_pred: "x \<noteq> d \<Longrightarrow> unat (x - d) = Suc (unat (x - (d + 1)))" for x d :: u32
proof -
  assume "x \<noteq> d"
  then have nz: "x - (d + 1) + 1 \<noteq> 0" by simp
  have e: "x - d = x - (d + 1) + 1" by simp
  have "unat (x - (d + 1)) + 1 < 4294967296"
  proof (rule ccontr)
    assume "\<not> unat (x - (d + 1)) + 1 < 4294967296"
    then have "unat (x - (d + 1)) + 1 = 4294967296" using unat_lt_2p32 [of "x - (d + 1)"] by linarith
    then have "unat (x - (d + 1) + 1) = 0" by (simp only: unat_word_ariths) simp
    with nz show False using unat_eq_zero by blast
  qed
  then show ?thesis unfolding e using unat_add_u32 [of "x - (d + 1)" 1] by simp
qed

lemma in_obj_Suc: "in_obj d (Suc n) x \<longleftrightarrow> x = d \<or> in_obj (d + 1) n x" if "n < 4294967296" for x d :: u32
proof (cases "x = d")
  case True
  then show ?thesis by (simp add: in_obj_def)
next
  case False
  then show ?thesis using unat_pred [OF False] by (simp add: in_obj_def)
qed

text \<open>The memory with the bytes \<open>bs\<close> at \<open>d\<close>.\<close>

definition put_bytes :: "u32 \<Rightarrow> byte list \<Rightarrow> memory \<Rightarrow> memory" where
  "put_bytes d bs m = (\<lambda>x. if in_obj d (length bs) x then bs ! unat (x - d) else m x)"

lemma put_bytes_Nil [simp]: "put_bytes d [] m = m"
  by (simp add: put_bytes_def in_obj_def)

lemma put_bytes_Cons:
  assumes "length bs < 4294967296"
  shows "put_bytes d (b # bs) m = put_bytes (d + 1) bs (m(d := b))"
proof
  fix x
  have "\<not> in_obj (d + 1) (length bs) d"
    using assms by (simp add: in_obj_def unsigned_minus_1_eq_mask mask_eq_exp_minus_1)
  then show "put_bytes d (b # bs) m x = put_bytes (d + 1) bs (m(d := b)) x"
    using in_obj_Suc [OF assms, of d x] unat_pred [of x d] by (cases "x = d") (auto simp: put_bytes_def)
qed

lemma read_put_bytes: "length bs \<le> 4294967296 \<Longrightarrow> read_bytes (put_bytes d bs m) d (length bs) = bs"
  by (rule nth_equalityI) (simp_all add: put_bytes_def in_obj_offset unat_of_nat_u32)

lemma read_bytes_put_other:
  assumes "\<And>x. in_obj a n x \<Longrightarrow> \<not> in_obj d (length bs) x" "n \<le> 4294967296"
  shows "read_bytes (put_bytes d bs m) a n = read_bytes m a n"
  using assms in_obj_offset [of _ n a] by (intro read_bytes_cong) (auto simp: put_bytes_def)

section \<open>Copying and filling\<close>

lemma memset_loop_eq: "n \<le> 4294967296 \<Longrightarrow> memset_loop n p c m = put_bytes p (replicate n c) m"
  by (induction n arbitrary: p m) (simp_all add: put_bytes_Cons)

lemma memcpy_loop_eq:
  "length bs \<le> 4294967296 \<Longrightarrow> read_bytes m s (length bs) = bs \<Longrightarrow>
    (\<And>x. in_obj s (length bs) x \<Longrightarrow> \<not> in_obj d (length bs) x) \<Longrightarrow> memcpy_loop (length bs) d s m = put_bytes d bs m"
proof (induction bs arbitrary: s d m)
  case Nil
  then show ?case by simp
next
  case (Cons b bs)
  have n: "length bs < 4294967296" using Cons.prems(1) by simp
  note split = in_obj_Suc [OF n]
  have b: "m s = b" "read_bytes m (s + 1) (length bs) = bs" using Cons.prems(2) by (simp_all add: read_bytes_Cons)
  have disj: "in_obj (s + 1) (length bs) x \<Longrightarrow> \<not> in_obj (d + 1) (length bs) x \<and> x \<noteq> d" for x
    using Cons.prems(3) [of x] split [of s x] split [of d x] by simp
  have "read_bytes (m(d := b)) (s + 1) (length bs) = bs"
    using b(2) disj in_obj_offset [of _ "length bs" "s + 1"] n
    by (subst read_bytes_cong [of "length bs" "m(d := b)" "s + 1" m]) auto
  then have "memcpy_loop (length bs) (d + 1) (s + 1) (m(d := b)) = put_bytes (d + 1) bs (m(d := b))"
    using disj n by (intro Cons.IH) (simp_all del: fun_upd_apply)
  then show ?case by (simp add: b(1) put_bytes_Cons n)
qed

lemma strcpy_loop_eq:
  "c_string m s bs \<Longrightarrow> (\<And>x. in_obj s (Suc (length bs)) x \<Longrightarrow> \<not> in_obj d (Suc (length bs)) x) \<Longrightarrow>
    strcpy_loop d s m = Some (put_bytes d (bs @ [0]) m)"
proof (induction bs arbitrary: s d m)
  case Nil
  then show ?case by (subst strcpy_loop.simps) (simp add: put_bytes_Cons)
next
  case (Cons b bs)
  have n: "Suc (length bs) < 4294967296" using Cons.prems(1) by simp
  note split = in_obj_Suc [OF n]
  have disj: "in_obj (s + 1) (Suc (length bs)) x \<Longrightarrow> \<not> in_obj (d + 1) (Suc (length bs)) x \<and> x \<noteq> d" for x
    using Cons.prems(2) [of x] split [of s x] split [of d x] by simp
  have "read_bytes (m(d := b)) (s + 1) (Suc (length bs)) = read_bytes m (s + 1) (Suc (length bs))"
    using disj in_obj_offset [of _ "Suc (length bs)" "s + 1"] n by (intro read_bytes_cong) auto
  then have "c_string (m(d := b)) (s + 1) bs" using Cons.prems(1) by (simp add: c_string_def read_bytes_Cons [of m s])
  then have "strcpy_loop (d + 1) (s + 1) (m(d := b)) = Some (put_bytes (d + 1) (bs @ [0]) (m(d := b)))"
    using disj by (intro Cons.IH) (simp_all del: fun_upd_apply)
  then show ?case using Cons.prems(1) n by (subst strcpy_loop.simps) (simp add: put_bytes_Cons)
qed

lemma put_bytes_append:
  "length xs + length ys \<le> 4294967296 \<Longrightarrow>
    put_bytes d (xs @ ys) m = put_bytes (d + word_of_nat (length xs)) ys (put_bytes d xs m)"
proof (induction xs arbitrary: d m)
  case (Cons x xs)
  then show ?case by (simp add: put_bytes_Cons add.assoc)
qed simp

lemma zero_fill_eq:
  "j \<le> n \<Longrightarrow> n \<le> 4294967296 \<Longrightarrow>
    fold (\<lambda>i m. m(d + word_of_nat i := 0)) [j..<n] m = put_bytes (d + word_of_nat j) (replicate (n - j) 0) m"
proof (induction "n - j" arbitrary: j m)
  case 0
  then show ?case by simp
next
  case (Suc k)
  then have j: "j < n" "n - j = Suc (n - Suc j)" by linarith+
  have "fold (\<lambda>i m. m(d + word_of_nat i := 0)) [Suc j..<n] (m(d + word_of_nat j := 0)) =
      put_bytes (d + word_of_nat (Suc j)) (replicate (n - Suc j) 0) (m(d + word_of_nat j := 0))"
    using Suc j by (intro Suc.hyps(1)) simp_all
  then show ?case using j Suc.prems(2) by (simp add: upt_conv_Cons put_bytes_Cons ac_simps)
qed

lemma strncpy_copy_eq:
  assumes n: "n \<le> 4294967296"
  shows "i \<le> n \<Longrightarrow> c_string m (src + word_of_nat i) bs \<Longrightarrow>
    (\<And>x. in_obj (src + word_of_nat i) (Suc (length bs)) x \<Longrightarrow> \<not> in_obj (dest + word_of_nat i) (n - i) x) \<Longrightarrow>
    strncpy_copy dest src n i m =
      (i + min (n - i) (length bs), put_bytes (dest + word_of_nat i) (take (n - i) bs) m)"
proof (induction bs arbitrary: i m)
  case Nil
  then show ?case by (subst strncpy_copy.simps) simp
next
  case (Cons b bs)
  show ?case
  proof (cases "i < n")
    case False
    with Cons.prems(1) show ?thesis by (subst strncpy_copy.simps) simp
  next
    case True
    then obtain k where k: "n - i = Suc k" "n - Suc i = k" by (metis Suc_diff_Suc)
    let ?d = "dest + word_of_nat i" and ?s = "src + word_of_nat i"
    have lt: "Suc (length bs) < 4294967296" using Cons.prems(2) by simp
    have ltk: "k < 4294967296" using k n by linarith
    have ds: "src + word_of_nat (Suc i) = ?s + 1" "dest + word_of_nat (Suc i) = ?d + 1"
      by (simp_all add: add.assoc add.commute)
    have disj: "in_obj (?s + 1) (Suc (length bs)) x \<Longrightarrow> \<not> in_obj (?d + 1) k x \<and> x \<noteq> ?d" for x
      using Cons.prems(3) [of x] in_obj_Suc [OF lt, of ?s x] in_obj_Suc [OF ltk, of ?d x] k by simp
    have "read_bytes (m(?d := b)) (?s + 1) (Suc (length bs)) = read_bytes m (?s + 1) (Suc (length bs))"
      using disj in_obj_offset [of _ "Suc (length bs)" "?s + 1"] lt by (intro read_bytes_cong) auto
    then have str: "c_string (m(?d := b)) (?s + 1) bs"
      using Cons.prems(2) by (simp add: c_string_def read_bytes_Cons [of m ?s])
    have "strncpy_copy dest src n (Suc i) (m(?d := b)) =
        (Suc i + min (n - Suc i) (length bs), put_bytes (dest + word_of_nat (Suc i)) (take (n - Suc i) bs) (m(?d := b)))"
      using True str [folded ds] disj [folded ds k(2)] by (intro Cons.IH) (simp_all del: fun_upd_apply of_nat_Suc)
    moreover have "length (take k bs) < 4294967296" using lt by simp
    ultimately show ?thesis
      using True Cons.prems(2) k by (subst strncpy_copy.simps) (simp add: put_bytes_Cons ac_simps)
  qed
qed

text \<open>\<open>strncpy\<close> copies at most \<open>n\<close> bytes and pads with zeros; a longer string loses its terminator.\<close>

lemma strncpy_eq:
  assumes "c_string m src bs" and "\<And>x. in_obj src (Suc (length bs)) x \<Longrightarrow> \<not> in_obj dest (unat n) x"
  shows "strncpy dest src n m = (dest, put_bytes dest (take (unat n) bs @ replicate (unat n - length bs) 0) m)"
proof -
  let ?n = "unat n" and ?k = "min (unat n) (length bs)"
  have n: "?n \<le> 4294967296" using unat_lt_2p32 [of n] by linarith
  have c: "strncpy_copy dest src ?n 0 m = (?k, put_bytes dest (take ?n bs) m)"
    using strncpy_copy_eq [OF n, of 0 m src bs dest] assms by simp
  have "put_bytes (dest + word_of_nat ?k) (replicate (?n - ?k) 0) (put_bytes dest (take ?n bs) m) =
      put_bytes dest (take ?n bs @ replicate (?n - length bs) 0) m"
    using n by (subst put_bytes_append) (simp_all add: min.commute min_def)
  then show ?thesis
    using zero_fill_eq [of ?k ?n dest] n by (simp add: strncpy_def c)
qed

lemma strncpy_result:
  assumes "0 \<notin> set str"
  defines "m' \<equiv> \<lambda>n dest. put_bytes dest (take (unat (n :: u32)) str @ replicate (unat n - length str) 0)"
  shows "if length str < unat n then c_string (m' n dest m) dest str else 0 \<notin> set (read_bytes (m' n dest m) dest (unat n))"
proof (cases "length str < unat n")
  case True
  then have e: "take (unat n) str @ replicate (unat n - length str) 0 = (str @ [0]) @ replicate (unat n - Suc (length str)) 0"
    by (simp flip: replicate_Suc add: Suc_diff_Suc)
  have "read_bytes (m' n dest m) dest (unat n) = (str @ [0]) @ replicate (unat n - Suc (length str)) 0"
    using read_put_bytes [of "(str @ [0]) @ replicate (unat n - Suc (length str)) 0" dest m] True unat_lt_2p32 [of n]
    unfolding m'_def e by simp
  then have "take (Suc (length str)) (read_bytes (m' n dest m) dest (unat n)) = str @ [0]" by simp
  moreover have "length str < 4294967296" using True unat_lt_2p32 [of n] by linarith
  ultimately show ?thesis using True assms(1) by (simp add: c_string_def read_bytes_def take_map)
next
  case False
  then have "read_bytes (m' n dest m) dest (unat n) = take (unat n) str"
    using read_put_bytes [of "take (unat n) str" dest m] less_imp_le [OF unat_lt_2p32, of n] by (simp add: m'_def min_absorb2)
  then show ?thesis using False assms(1) set_take_subset [of "unat n" str] by auto
qed

section \<open>Searching and comparing\<close>

lemma strlen_string: "c_string m s bs \<Longrightarrow> s \<noteq> 0 \<Longrightarrow> strlen m s = Some (word_of_nat (length bs))"
  using strlen_loop_string [of m s 0 bs] by (simp add: strlen_def)

lemma strlen_null: "strlen m 0 = Some 0"
  by (simp add: strlen_def strlen_loop.simps)

lemma strchr_string:
  "c_string m s bs \<Longrightarrow> strchr m s c =
    Some (let i = length (takeWhile (\<lambda>b. b \<noteq> ucast c) bs) in
          if i < length bs then s + word_of_nat i else if c = 0 then s + word_of_nat (length bs) else 0)"
proof (induction bs arbitrary: s)
  case Nil
  then show ?case by (subst strchr.simps) simp
next
  case (Cons b bs)
  then show ?case by (subst strchr.simps) (auto simp: Let_def add.assoc add.commute)
qed

lemma strncmp_strings:
  "c_string m (s1 + word_of_nat i) a \<Longrightarrow> c_string m (s2 + word_of_nat i) b \<Longrightarrow>
    (strncmp_loop m s1 s2 n i = 0 \<longleftrightarrow> take (n - i) a = take (n - i) b) \<and>
    (strncmp_loop m s1 s2 n i < 0 \<longleftrightarrow> ord_class.lexordp (take (n - i) a) (take (n - i) b))"
proof (induction a arbitrary: b i)
  case Nil
  then show ?case
    using uint_ge_0 [of "m (s2 + word_of_nat i)"]
    by (subst (1 2) strncmp_loop.simps, cases b)
      (auto simp: word_uint_eq_iff less_le take_Cons' simp del: uint_ge_0)
next
  case (Cons x a)
  show ?case
  proof (cases "i < n")
    case False
    then show ?thesis by (simp add: strncmp_loop.simps)
  next
    case True
    then obtain k where k: "n - i = Suc k" "n - Suc i = k" by (metis Suc_diff_Suc)
    have d: "s1 + word_of_nat i + 1 = s1 + word_of_nat (Suc i)" "s2 + word_of_nat i + 1 = s2 + word_of_nat (Suc i)"
      by (simp_all add: add.assoc add.commute)
    show ?thesis
    proof (cases b)
      case Nil
      then have "strncmp_loop m s1 s2 n i = uint x" using Cons.prems True by (subst strncmp_loop.simps) simp
      with Nil Cons.prems k show ?thesis by (auto simp: word_uint_eq_iff)
    next
      case b: (Cons y b')
      have step: "strncmp_loop m s1 s2 n i = (if x \<noteq> y then uint x - uint y else strncmp_loop m s1 s2 n (Suc i))"
        using Cons.prems True b by (subst strncmp_loop.simps) simp
      show ?thesis
      proof (cases "x = y")
        case True
        then show ?thesis using Cons.IH [of "Suc i" b'] Cons.prems b k step by (simp add: d)
      next
        case False
        then show ?thesis using b k step by (auto simp: word_uint_eq_iff word_less_def)
      qed
    qed
  qed
qed

text \<open>
  C31: Copying and filling in the C library: \<open>memset\<close> fills exactly the given bytes;
  \<open>memcpy\<close> between ranges that do not overlap copies every byte; \<open>strcpy\<close> into a disjoint
  range returns, and the destination then holds the same string; \<open>strncpy\<close> into a disjoint
  range of \<open>n\<close> bytes stores the first \<open>n\<close> bytes of the string, zeros after it when it is
  shorter, so the destination holds the string exactly when it is shorter than \<open>n\<close> and has
  no terminator otherwise. No other byte changes.
\<close>

theorem libc_copies:
  "memset s c n m = (s, put_bytes s (replicate (unat n) (ucast c)) m) \<and>
   (read_bytes m src (unat n) = bs \<and> (\<forall>x. in_obj src (unat n) x \<longrightarrow> \<not> in_obj dest (unat n) x) \<longrightarrow>
      memcpy dest src n m = (dest, put_bytes dest bs m)) \<and>
   (c_string m src str \<and> (\<forall>x. in_obj src (Suc (length str)) x \<longrightarrow> \<not> in_obj dest (Suc (length str)) x) \<longrightarrow>
      strcpy dest src m = Some (dest, put_bytes dest (str @ [0]) m) \<and>
      c_string (put_bytes dest (str @ [0]) m) dest str) \<and>
   (c_string m src str \<and> (\<forall>x. in_obj src (Suc (length str)) x \<longrightarrow> \<not> in_obj dest (unat n) x) \<longrightarrow>
      (\<exists>m'. strncpy dest src n m = (dest, m') \<and>
        m' = put_bytes dest (take (unat n) str @ replicate (unat n - length str) 0) m \<and>
        (if length str < unat n then c_string m' dest str else 0 \<notin> set (read_bytes m' dest (unat n)))))"
proof (intro conjI impI)
  show "memset s c n m = (s, put_bytes s (replicate (unat n) (ucast c)) m)"
    by (simp add: memset_def memset_loop_eq less_imp_le)
next
  assume a: "read_bytes m src (unat n) = bs \<and> (\<forall>x. in_obj src (unat n) x \<longrightarrow> \<not> in_obj dest (unat n) x)"
  then have "length bs = unat n" by auto
  with a memcpy_loop_eq [of bs m src dest] show "memcpy dest src n m = (dest, put_bytes dest bs m)"
    by (simp add: memcpy_def less_imp_le)
next
  assume a: "c_string m src str \<and> (\<forall>x. in_obj src (Suc (length str)) x \<longrightarrow> \<not> in_obj dest (Suc (length str)) x)"
  then show "strcpy dest src m = Some (dest, put_bytes dest (str @ [0]) m)"
    using strcpy_loop_eq [of m src str dest] by (simp add: strcpy_def)
  show "c_string (put_bytes dest (str @ [0]) m) dest str"
    using a read_put_bytes [of "str @ [0]" dest m] by (simp add: c_string_def)
next
  assume a: "c_string m src str \<and> (\<forall>x. in_obj src (Suc (length str)) x \<longrightarrow> \<not> in_obj dest (unat n) x)"
  then show "\<exists>m'. strncpy dest src n m = (dest, m') \<and>
      m' = put_bytes dest (take (unat n) str @ replicate (unat n - length str) 0) m \<and>
      (if length str < unat n then c_string m' dest str else 0 \<notin> set (read_bytes m' dest (unat n)))"
    using strncpy_eq [of m src str dest n] strncpy_result [of str n dest m] by (simp add: c_string_def)
qed

theorem libc_copies_witness:
  "(\<exists>m'. strcpy 0x2000 0x1000 (put_bytes 0x1000 [104, 105, 0] (\<lambda>_. 7)) = Some (0x2000, m') \<and> c_string m' 0x2000 [104, 105]) \<and>
   (\<exists>m'. strncpy 0x2000 0x1000 5 (put_bytes 0x1000 [104, 105, 0] (\<lambda>_. 7)) = (0x2000, m') \<and> c_string m' 0x2000 [104, 105])"
proof -
  let ?m = "put_bytes 0x1000 [104, 105, 0] (\<lambda>_. 7)"
  have c: "c_string ?m 0x1000 [104, 105]"
    using read_put_bytes [of "[104, 105, 0]" "0x1000" "\<lambda>_. 7"] by (simp add: c_string_def)
  have d: "\<forall>x. in_obj 0x1000 (Suc (length [104, 105 :: byte])) x \<longrightarrow> \<not> in_obj 0x2000 (Suc (length [104, 105 :: byte])) x"
    by (auto simp: in_obj_nowrap)
  have e: "\<forall>x. in_obj 0x1000 (Suc (length [104, 105 :: byte])) x \<longrightarrow> \<not> in_obj 0x2000 (unat (5 :: u32)) x"
    by (auto simp: in_obj_nowrap)
  have l: "length [104, 105 :: byte] < unat (5 :: u32)" by simp
  from libc_copies [of 0 0 5 ?m "0x1000" "[]" "0x2000" "[104, 105]", unfolded if_P [OF l]] c d e show ?thesis by blast
qed

text \<open>
  C30: Comparing and searching in the C library, on NUL-terminated strings: \<open>strcmp\<close> returns
  0 exactly on equal strings and is negative exactly when the first is lexicographically
  smaller (bytes unsigned); \<open>strncmp\<close> decides the same for the first \<open>n\<close> bytes; \<open>strlen\<close>
  counts the bytes; \<open>strchr\<close> finds the first occurrence, the terminator when looking for NUL,
  and NULL when there is none. All of them return.
\<close>

theorem libc_comparisons:
  assumes "c_string m s1 a" and "c_string m s2 b" and "s1 \<noteq> 0"
  shows "(\<exists>r. strcmp m s1 s2 = Some r \<and> (r = 0 \<longleftrightarrow> a = b) \<and> (r < 0 \<longleftrightarrow> ord_class.lexordp a b)) \<and>
    (strncmp m s1 s2 n = 0 \<longleftrightarrow> take (unat n) a = take (unat n) b) \<and>
    (strncmp m s1 s2 n < 0 \<longleftrightarrow> ord_class.lexordp (take (unat n) a) (take (unat n) b)) \<and>
    strlen m s1 = Some (word_of_nat (length a)) \<and>
    strchr m s1 c = Some (let i = length (takeWhile (\<lambda>x. x \<noteq> ucast c) a) in
      if i < length a then s1 + word_of_nat i else if c = 0 then s1 + word_of_nat (length a) else 0)"
  using strcmp_strings [OF assms(1,2)] strncmp_strings [of m s1 0 a s2 b "unat n"] assms
    strlen_string [OF assms(1,3)] strchr_string [OF assms(1)]
  by (simp add: strncmp_def)

theorem libc_comparisons_witness:
  "\<exists>r. strcmp (put_bytes 0x1000 [104, 105, 0, 104, 111, 0] (\<lambda>_. 7)) 0x1000 0x1003 = Some r \<and> r < 0"
proof -
  let ?m = "put_bytes 0x1000 [104, 105, 0, 104, 111, 0] (\<lambda>_. 7)"
  have r: "?m (0x1000 + word_of_nat i) = [104, 105, 0, 104, 111, 0] ! i" if "i < 6" for i
    using that by (simp add: put_bytes_def in_obj_offset unat_of_nat_u32)
  have c: "c_string ?m 0x1000 [104, 105]" "c_string ?m 0x1003 [104, 111]"
    using r [of 0] r [of 1] r [of 2] r [of 3] r [of 4] r [of 5] by simp_all
  have "(0x1000 :: u32) \<noteq> 0" by simp
  from libc_comparisons [OF c this] show ?thesis by auto
qed

end
