(* ===== verification/Libc_Stdio.thy ===== *)
theory Libc_Stdio
  imports Prelude
begin

text \<open>
  \<open>userland/libc/src/stdio.c\<close>: formatted output and line input over the system calls. The
  calls are parameters here: \<open>w\<close> stands for \<open>sys_write(1, ...)\<close> on the bytes of a buffer, \<open>rd\<close>
  for \<open>sys_read(0, ...)\<close>; both may fail to return. The contract of \<open>w\<close> is the locale
  \<open>output_stream\<close>, in which the library functions are verified once and for all; the kernel's
  system call is shown to satisfy it in the theory of the user process.
  C strings are the lists of their bytes without the terminator.
\<close>

datatype stdio_error = No_return | Missing_argument | Wrong_argument | Past_format_end

datatype printf_arg = Arg_int u32 | Arg_str "byte list option"

fun rbind :: "'e + 'a \<Rightarrow> ('a \<Rightarrow> 'e + 'b) \<Rightarrow> 'e + 'b" where
  "rbind (Inl e) f = Inl e"
| "rbind (Inr x) f = f x"

type_synonym 's write_call = "byte list \<Rightarrow> 's \<Rightarrow> (u32 \<times> 's) option"
type_synonym 's read_call = "u32 \<Rightarrow> u32 \<Rightarrow> 's \<Rightarrow> (u32 \<times> 's) option"

definition sys_call :: "('a \<times> 's) option \<Rightarrow> stdio_error + 'a \<times> 's" where
  "sys_call r = (case r of None \<Rightarrow> Inl No_return | Some x \<Rightarrow> Inr x)"

definition putchar :: "'s write_call \<Rightarrow> byte \<Rightarrow> 's \<Rightarrow> stdio_error + u32 \<times> 's" where
  "putchar w c s = sys_call (w [c] s)"

definition puts :: "'s write_call \<Rightarrow> byte list \<Rightarrow> 's \<Rightarrow> stdio_error + u32 \<times> 's" where
  "puts w str s = rbind (sys_call (w str s)) (\<lambda>(len, s). rbind (sys_call (w [10] s)) (\<lambda>(_, s). Inr (len + 1, s)))"

definition gets :: "'s read_call \<Rightarrow> u32 \<Rightarrow> u32 \<Rightarrow> 's \<Rightarrow> stdio_error + u32 \<times> 's" where
  "gets rd buf max_size s =
     rbind (sys_call (rd buf max_size s)) (\<lambda>(bytes, s). Inr (if sint bytes \<le> 0 then 0 else buf, s))"

text \<open>
  \<open>print_number\<close>: the digits go into a local buffer, least significant first, and are
  written from its end. The function is only called with bases 10 and 16; on a base below
  2 the loop of the model stops at once.
\<close>

function number_digits :: "u32 \<Rightarrow> u32 \<Rightarrow> byte list" where
  "number_digits base n =
     (if n = 0 \<or> base < 2 then []
      else let rem = n mod base
           in (if rem < 10 then 48 + ucast rem else 97 + ucast rem - 10) # number_digits base (n div base))"
  by pat_completeness auto
termination
proof (relation "measure (\<lambda>(base, n). unat n)")
  fix base n x :: u32
  assume "\<not> (n = 0 \<or> base < 2)"
  then have "2 \<le> unat base" "unat n \<noteq> 0" by (simp_all add: less_u32_nat unat_eq_zero)
  then have "unat n div unat base < unat n" by (intro div_less_dividend) simp_all
  then show "((base, n div base), base, n) \<in> measure (\<lambda>(base, n). unat n)" by (simp add: unat_div)
qed simp

declare number_digits.simps [simp del]

primrec putchars :: "'s write_call \<Rightarrow> byte list \<Rightarrow> 's \<Rightarrow> stdio_error + 's" where
  "putchars w [] s = Inr s"
| "putchars w (c # cs) s = rbind (putchar w c s) (\<lambda>(_, s). putchars w cs s)"

definition print_number :: "'s write_call \<Rightarrow> u32 \<Rightarrow> u32 \<Rightarrow> 's \<Rightarrow> stdio_error + 's" where
  "print_number w num base s =
     rbind (if base = 10 \<and> sint num < 0 then putchars w [45] s else Inr s)
       (\<lambda>s. let n = (if base = 10 \<and> sint num < 0 then - num else num)
            in if n = 0 then putchars w [48] s else putchars w (rev (number_digits base n)) s)"

definition va_int :: "printf_arg list \<Rightarrow> stdio_error + u32 \<times> printf_arg list" where
  "va_int args = (case args of [] \<Rightarrow> Inl Missing_argument | Arg_int v # rest \<Rightarrow> Inr (v, rest) | _ \<Rightarrow> Inl Wrong_argument)"

definition va_str :: "printf_arg list \<Rightarrow> stdio_error + byte list option \<times> printf_arg list" where
  "va_str args = (case args of [] \<Rightarrow> Inl Missing_argument | Arg_str v # rest \<Rightarrow> Inr (v, rest) | _ \<Rightarrow> Inl Wrong_argument)"

definition null_text :: "byte list" where "null_text = str_bytes ''(null)''"

text \<open>The \<open>switch\<close> over the conversion character.\<close>

definition printf_directive :: "'s write_call \<Rightarrow> byte \<Rightarrow> printf_arg list \<Rightarrow> 's \<Rightarrow> stdio_error + printf_arg list \<times> 's" where
  "printf_directive w d args s =
     (if d = 99 then rbind (va_int args) (\<lambda>(v, args). rbind (putchars w [ucast v] s) (\<lambda>s. Inr (args, s)))
      else if d = 115 then rbind (va_str args) (\<lambda>(v, args).
        rbind (sys_call (w (case v of None \<Rightarrow> null_text | Some str \<Rightarrow> str) s)) (\<lambda>(_, s). Inr (args, s)))
      else if d = 100 \<or> d = 105 then rbind (va_int args) (\<lambda>(v, args). rbind (print_number w v 10 s) (\<lambda>s. Inr (args, s)))
      else if d = 120 \<or> d = 112 then rbind (va_int args) (\<lambda>(v, args). rbind (print_number w v 16 s) (\<lambda>s. Inr (args, s)))
      else if d = 37 then rbind (putchars w [37] s) (\<lambda>s. Inr (args, s))
      else rbind (putchars w [37, d] s) (\<lambda>s. Inr (args, s)))"

text \<open>
  The main loop. When the format ends after a percent sign, the default case prints the
  percent sign and the terminator, and \<open>format++\<close> then steps over the terminator: what
  follows is outside the string.
\<close>

fun printf_loop :: "'s write_call \<Rightarrow> byte list \<Rightarrow> printf_arg list \<Rightarrow> 's \<Rightarrow> stdio_error + 's" where
  "printf_loop w [] args s = Inr s"
| "printf_loop w [c] args s =
     (if c = 37 then rbind (putchars w [37, 0] s) (\<lambda>_. Inl Past_format_end) else putchars w [c] s)"
| "printf_loop w (c # d # fmt) args s =
     (if c = 37 then rbind (printf_directive w d args s) (\<lambda>(args, s). printf_loop w fmt args s)
      else rbind (putchars w [c] s) (\<lambda>s. printf_loop w (d # fmt) args s))"

definition printf :: "'s write_call \<Rightarrow> byte list \<Rightarrow> printf_arg list \<Rightarrow> 's \<Rightarrow> stdio_error + u32 \<times> 's" where
  "printf w fmt args s = rbind (printf_loop w fmt args s) (\<lambda>s. Inr (0, s))"

section \<open>What a format means\<close>

definition number_text :: "u32 \<Rightarrow> u32 \<Rightarrow> byte list" where
  "number_text num base =
     (if base = 10 \<and> sint num < 0 then 45 # numeral_in 10 (nat (- sint num)) else numeral_in (unat base) (unat num))"

fun directive_text :: "byte \<Rightarrow> printf_arg list \<Rightarrow> (byte list \<times> printf_arg list) option" where
  "directive_text d args =
     (if d \<in> {99, 100, 105, 120, 112} then
        (case args of Arg_int v # rest \<Rightarrow>
           Some (if d = 99 then [ucast v] else if d = 100 \<or> d = 105 then number_text v 10 else number_text v 16, rest)
         | _ \<Rightarrow> None)
      else if d = 115 then
        (case args of Arg_str None # rest \<Rightarrow> Some (null_text, rest) | Arg_str (Some str) # rest \<Rightarrow> Some (str, rest) | _ \<Rightarrow> None)
      else if d = 37 then Some ([37], args)
      else Some ([37, d], args))"

fun format_text :: "byte list \<Rightarrow> printf_arg list \<Rightarrow> byte list option" where
  "format_text [] args = Some []"
| "format_text [c] args = (if c = 37 then None else Some [c])"
| "format_text (c # d # fmt) args =
     (if c = 37 then Option.bind (directive_text d args) (\<lambda>(t, args). map_option ((@) t) (format_text fmt args))
      else map_option ((#) c) (format_text (d # fmt) args))"

text \<open>String arguments whose length fits the 32-bit count of the system call.\<close>

definition short_args :: "printf_arg list \<Rightarrow> bool" where
  "short_args args \<longleftrightarrow> (\<forall>str. Arg_str (Some str) \<in> set args \<longrightarrow> length str < 4294967296)"

section \<open>Numbers\<close>

lemma digit_ucast: "(if x < 10 then 48 + ucast x else 97 + ucast x - 10 :: byte) = digit (unat x)" for x :: u32
  by (simp add: digit_def u32_nat)

lemma rev_number_digits:
  "2 \<le> base \<Longrightarrow> n \<noteq> 0 \<Longrightarrow> rev (number_digits base n) = numeral_in (unat base) (unat n)"
proof (induction base n rule: number_digits.induct)
  case (1 base n)
  have b: "\<not> base < 2" "2 \<le> unat base" using 1(2) by (simp_all add: u32_nat)
  have step: "number_digits base n = digit (unat (n mod base)) # number_digits base (n div base)"
    using 1(3) b(1) by (subst number_digits.simps) (simp add: Let_def digit_ucast)
  show ?case
  proof (cases "n div base = 0")
    case True
    then have "unat n div unat base = 0" by (metis unat_0 unat_div)
    then have lt: "unat n < unat base" using b(2) by (simp add: div_eq_0_iff)
    then have "n mod base = n" by (simp add: word_less_nat_alt word_unat_eq_iff unat_mod)
    with True lt step show ?thesis by (simp add: number_digits.simps [of base 0] numeral_in.simps [of "unat base" "unat n"])
  next
    case False
    then have "unat n div unat base \<noteq> 0" by (metis unat_div unat_eq_zero)
    then have "\<not> unat n < unat base" using b(2) by (simp add: div_eq_0_iff)
    then have "numeral_in (unat base) (unat n) = numeral_in (unat base) (unat (n div base)) @ [digit (unat (n mod base))]"
      using b(2) by (subst numeral_in.simps) (simp add: unat_div unat_mod)
    moreover have "rev (number_digits base (n div base)) = numeral_in (unat base) (unat (n div base))"
      using 1(1)[OF _ refl] 1(2,3) b(1) False by simp
    ultimately show ?thesis by (simp add: step)
  qed
qed

lemma negative_magnitude:
  assumes "sint (num :: u32) < 0"
  shows "unat (- num) = nat (- sint num)"
proof -
  have ge: "- 2147483648 \<le> sint num" using sint_ge [of num] by simp
  have "- num = word_of_int (- sint num)" by (simp add: word_of_int_minus)
  then have "uint (- num) = take_bit 32 (- sint num)" by (simp only: uint_word_of_int) (simp add: take_bit_eq_mod)
  also have "\<dots> = - sint num" using assms ge by (intro take_bit_int_eq_self) simp_all
  finally show ?thesis by (simp add: unat_eq_nat_uint)
qed

section \<open>The output stream interface\<close>

text \<open>
  What the library relies on: in a state that is \<open>ok\<close>, a write returns the number of
  bytes, appends exactly them to the output, and leaves the state \<open>ok\<close>.
\<close>

locale output_stream =
  fixes w :: "'s write_call" and out :: "'s \<Rightarrow> byte list" and ok :: "'s \<Rightarrow> bool"
  assumes write_out: "ok s \<Longrightarrow> length bs < 4294967296 \<Longrightarrow>
    \<exists>s'. w bs s = Some (word_of_nat (length bs), s') \<and> ok s' \<and> out s' = out s @ bs"
begin

definition prints :: "stdio_error + 's \<Rightarrow> 's \<Rightarrow> byte list \<Rightarrow> bool" where
  "prints r s t \<longleftrightarrow> (\<exists>s'. r = Inr s' \<and> ok s' \<and> out s' = out s @ t)"

lemma prints_bind: "prints r s t \<Longrightarrow> (\<And>s'. ok s' \<Longrightarrow> prints (f s') s' u) \<Longrightarrow> prints (rbind r f) s (t @ u)"
  unfolding prints_def by fastforce

lemma write_prints:
  assumes "ok s" "length bs < 4294967296"
  obtains s' where "sys_call (w bs s) = Inr (word_of_nat (length bs), s')" "ok s'" "out s' = out s @ bs"
  using write_out [OF assms] by (auto simp: sys_call_def)

lemma putchars_prints: "ok s \<Longrightarrow> prints (putchars w cs s) s cs"
proof (induction cs arbitrary: s)
  case Nil
  then show ?case by (simp add: prints_def)
next
  case (Cons c cs)
  obtain s1 where "sys_call (w [c] s) = Inr (word_of_nat (length [c]), s1)" "ok s1" "out s1 = out s @ [c]"
    using write_prints [OF Cons.prems, of "[c]"] by auto
  with Cons.IH [of s1] show ?case by (auto simp: putchar_def prints_def)
qed

lemma puts_prints:
  assumes "ok s" "length str < 4294967296"
  shows "\<exists>s'. puts w str s = Inr (word_of_nat (length str) + 1, s') \<and> ok s' \<and> out s' = out s @ str @ [10]"
proof -
  obtain s1 where s1: "sys_call (w str s) = Inr (word_of_nat (length str), s1)" "ok s1" "out s1 = out s @ str"
    using write_prints [OF assms] by auto
  obtain s2 where "sys_call (w [10] s1) = Inr (word_of_nat (length [10 :: byte]), s2)" "ok s2" "out s2 = out s1 @ [10]"
    using write_prints [OF s1(2), of "[10]"] by auto
  with s1 show ?thesis by (simp add: puts_def)
qed

lemma print_number_prints:
  assumes "ok s" "base = 10 \<or> base = 16"
  shows "prints (print_number w num base s) s (number_text num base)"
proof -
  let ?neg = "base = 10 \<and> sint num < 0"
  let ?n = "if ?neg then - num else num"
  have b: "2 \<le> base" using assms(2) by (auto simp: u32_nat)
  have sign: "prints (if ?neg then putchars w [45] s else Inr s) s (if ?neg then [45] else [])"
    using putchars_prints [OF assms(1), of "[45]"] assms(1) by (auto simp: prints_def)
  have digits: "(if ?n = 0 then [48] else rev (number_digits base ?n)) = numeral_in (unat base) (unat ?n)"
    using rev_number_digits [OF b, of ?n] assms(2) by (auto simp: numeral_in.simps digit_def)
  have "prints (rbind (if ?neg then putchars w [45] s else Inr s)
      (\<lambda>s. putchars w (if ?n = 0 then [48] else rev (number_digits base ?n)) s)) s
      ((if ?neg then [45] else []) @ (if ?n = 0 then [48] else rev (number_digits base ?n)))"
    by (rule prints_bind [OF sign putchars_prints])
  moreover have "number_text num base = (if ?neg then [45] else []) @ numeral_in (unat base) (unat ?n)"
    using negative_magnitude [of num] by (auto simp: number_text_def)
  ultimately show ?thesis
    unfolding digits by (simp add: print_number_def Let_def if_distrib [of "\<lambda>cs. putchars w cs _"] digits [symmetric] cong: if_cong)
qed

text \<open>A conversion prints its text and consumes its argument.\<close>

lemma number_directive:
  assumes "ok s" "base = 10 \<or> base = 16"
  shows "\<exists>s'. rbind (print_number w v base s) (\<lambda>s. Inr (args, s)) = Inr (args, s') \<and> ok s' \<and> out s' = out s @ number_text v base"
  using print_number_prints [OF assms, of v] by (auto simp: prints_def)

lemma chars_directive:
  assumes "ok s"
  shows "\<exists>s'. rbind (putchars w cs s) (\<lambda>s. Inr (args, s)) = Inr (args, s') \<and> ok s' \<and> out s' = out s @ cs"
  using putchars_prints [OF assms, of cs] by (auto simp: prints_def)

lemma string_directive:
  assumes "ok s" "length str < 4294967296"
  shows "\<exists>s'. rbind (sys_call (w str s)) (\<lambda>(_, s). Inr (args, s)) = Inr (args, s') \<and> ok s' \<and> out s' = out s @ str"
  using write_prints [OF assms] by force

lemma directive_prints:
  assumes "directive_text d args = Some (t, rest)" "ok s" "short_args args"
  shows "\<exists>s'. printf_directive w d args s = Inr (rest, s') \<and> ok s' \<and> out s' = out s @ t \<and> short_args rest"
proof -
  consider (int) v where "d \<in> {99, 100, 105, 120, 112}" "args = Arg_int v # rest"
      "t = (if d = 99 then [ucast v] else if d = 100 \<or> d = 105 then number_text v 10 else number_text v 16)"
    | (null) "d = 115" "args = Arg_str None # rest" "t = null_text"
    | (str) str where "d = 115" "args = Arg_str (Some str) # rest" "t = str"
    | (plain) "d \<notin> {99, 100, 105, 120, 112, 115}" "rest = args" "t = (if d = 37 then [37] else [37, d])"
    using assms(1) by (auto split: if_splits list.splits printf_arg.splits option.splits)
  then show ?thesis
  proof cases
    case int
    then have "short_args rest" using assms(3) by (simp add: short_args_def)
    with int number_directive [OF assms(2), of 10 v rest] number_directive [OF assms(2), of 16 v rest]
      chars_directive [OF assms(2), of "[ucast v]" rest]
    show ?thesis by (auto simp: printf_directive_def va_int_def)
  next
    case null
    have "length null_text < 4294967296" by (simp add: null_text_def str_bytes_def)
    from null string_directive [OF assms(2) this, of rest] assms(3) show ?thesis
      by (auto simp: printf_directive_def va_str_def short_args_def)
  next
    case str
    then have "length str < 4294967296" "short_args rest" using assms(3) by (simp_all add: short_args_def)
    with str string_directive [OF assms(2) this(1), of rest] show ?thesis
      by (auto simp: printf_directive_def va_str_def)
  next
    case plain
    with chars_directive [OF assms(2), of "[37]" args] chars_directive [OF assms(2), of "[37, d]" args] assms(3)
    show ?thesis by (simp add: printf_directive_def)
  qed
qed

lemma printf_loop_prints:
  "format_text fmt args = Some t \<Longrightarrow> ok s \<Longrightarrow> short_args args \<Longrightarrow> prints (printf_loop w fmt args s) s t"
proof (induction fmt args arbitrary: t s rule: format_text.induct)
  case (1 args)
  then show ?case by (simp add: prints_def)
next
  case (2 c args)
  then show ?case using putchars_prints [of s "[c]"] by (simp split: if_splits)
next
  case (3 c d fmt args)
  show ?case
  proof (cases "c = 37")
    case True
    then obtain u rest v where u: "directive_text d args = Some (u, rest)" "format_text fmt rest = Some v" "t = u @ v"
      using 3(3) by (auto simp: bind_eq_Some_conv simp del: directive_text.simps)
    obtain s1 where s1: "printf_directive w d args s = Inr (rest, s1)" "ok s1" "out s1 = out s @ u" "short_args rest"
      using directive_prints [OF u(1) 3(4,5)] by blast
    with 3(1) [OF True, of "(u, rest)" u rest v s1] u True show ?thesis by (auto simp: prints_def)
  next
    case False
    then obtain v where v: "format_text (d # fmt) args = Some v" "t = c # v" using 3(3) by auto
    have "prints (rbind (putchars w [c] s) (\<lambda>s. printf_loop w (d # fmt) args s)) s ([c] @ v)"
      by (rule prints_bind [OF putchars_prints [OF 3(4)]]) (rule 3(2) [OF False v(1) _ 3(5)])
    with False v(2) show ?thesis by simp
  qed
qed

lemma printf_prints:
  assumes "format_text fmt args = Some t" "ok s" "short_args args"
  shows "\<exists>s'. printf w fmt args s = Inr (0, s') \<and> ok s' \<and> out s' = out s @ t"
  using printf_loop_prints [OF assms] by (auto simp: prints_def printf_def)

end

end
