(* ===== verification/User_Process.thy ===== *)
theory User_Process
  imports Syscall Libc_String Libc_Stdio
begin

text \<open>
  The C library on top of the kernel: the system call stubs of
  \<open>userland/libc/src/syscall.s\<close> load the registers and trap into \<open>do_syscall_in_C\<close>. Printing
  with them satisfies the contract \<open>output_stream\<close> of the library, so everything proved of
  \<open>printf\<close> holds of what appears on the screen and on COM1.
\<close>

definition trap :: "hardware \<Rightarrow> pt_regs \<Rightarrow> kernel \<Rightarrow> (u32 \<times> kernel) option" where
  "trap hw r k = (case do_syscall_in_C hw (Some r) k of Some (Some r', k') \<Rightarrow> Some (r_eax r', k') | _ \<Rightarrow> None)"

definition u_sys_write :: "hardware \<Rightarrow> u32 \<Rightarrow> u32 \<Rightarrow> u32 \<Rightarrow> kernel \<Rightarrow> (u32 \<times> kernel) option" where
  "u_sys_write hw fd buf count k = trap hw (user_regs 4 fd buf count) k"

definition u_sys_read :: "hardware \<Rightarrow> u32 \<Rightarrow> u32 \<Rightarrow> u32 \<Rightarrow> kernel \<Rightarrow> (u32 \<times> kernel) option" where
  "u_sys_read hw fd buf count k = trap hw (user_regs 3 fd buf count) k"

definition u_sys_clear :: "hardware \<Rightarrow> kernel \<Rightarrow> (u32 \<times> kernel) option" where
  "u_sys_clear hw k = trap hw (user_regs 5 0 0 0) k"

text \<open>
  The calls as the library uses them: \<open>sys_write(1, buf, count)\<close> with the bytes stored at
  address \<open>p\<close> of the process, and \<open>sys_read(0, buf, max)\<close>.
\<close>

definition user_write :: "hardware \<Rightarrow> u32 \<Rightarrow> byte list \<Rightarrow> kernel \<Rightarrow> (u32 \<times> kernel) option" where
  "user_write hw p bs k = u_sys_write hw 1 p (word_of_nat (length bs)) (k\<lparr>k_mem := put_bytes p bs (k_mem k)\<rparr>)"

definition user_read :: "hardware \<Rightarrow> u32 \<Rightarrow> u32 \<Rightarrow> kernel \<Rightarrow> (u32 \<times> kernel) option" where
  "user_read hw buf count k = u_sys_read hw 0 buf count k"

lemma user_regs_fields [simp]:
  "r_eax (user_regs n a b c) = n" "r_ebx (user_regs n a b c) = a" "r_ecx (user_regs n a b c) = b"
  "r_edx (user_regs n a b c) = c"
  by (simp_all add: user_regs_def)

lemma user_write_out:
  assumes "transmitter_drains hw SERIAL_COM1_BASE" "p \<noteq> 0" "length bs < 4294967296"
  shows "\<exists>k'. user_write hw p bs k = Some (word_of_nat (length bs), k') \<and> com1 k' = com1 k @ bs \<and>
    k_fb k' = screen_after bs (k_fb k) \<and> k_kbd k' = k_kbd k \<and> k_tbl k' = k_tbl k \<and>
    keys_read (k_tr k') = keys_read (k_tr k)"
proof (cases "bs = []")
  case True
  then show ?thesis
    by (simp add: user_write_def u_sys_write_def trap_def do_syscall_in_C_def sys_write_def syscall_defs)
next
  case False
  let ?r = "user_regs 4 1 p (word_of_nat (length bs))" and ?k = "k\<lparr>k_mem := put_bytes p bs (k_mem k)\<rparr>"
  have u: "unat (word_of_nat (length bs) :: u32) = length bs" using assms(3) by (rule unat_of_nat_u32)
  have "bs = read_bytes (k_mem ?k) (r_ecx ?r) (unat (r_edx ?r))"
    using assms(3) read_put_bytes [of bs p "k_mem k"] by (simp add: u)
  moreover have "r_edx ?r \<noteq> 0" using u False by (metis length_0_conv unat_0 user_regs_fields(4))
  ultimately obtain k' where "do_syscall_in_C hw (Some ?r) ?k = Some (Some (?r\<lparr>r_eax := r_edx ?r\<rparr>), k')"
    "com1 k' = com1 ?k @ bs" "k_fb k' = fst (fb_out bs (k_fb ?k, k_tr ?k))" "k_kbd k' = k_kbd ?k" "k_tbl k' = k_tbl ?k"
    "keys_read (k_tr k') = keys_read (k_tr ?k)"
    using sys_write_call [OF assms(1), of ?r bs ?k] assms(2) by (auto simp: syscall_defs only_output_def)
  then show ?thesis by (simp add: user_write_def u_sys_write_def trap_def fst_fb_out)
qed

text \<open>
  Both devices show the same text: \<open>t\<close> was sent over COM1 since the start, and the screen
  is the one at the start with \<open>t\<close> written on it.
\<close>

definition consoles_agree :: "byte list \<Rightarrow> fb_state \<Rightarrow> kernel \<Rightarrow> bool" where
  "consoles_agree c0 fb0 k \<longleftrightarrow> (\<exists>t. com1 k = c0 @ t \<and> k_fb k = screen_after t fb0)"

interpretation console: output_stream "user_write hw p" com1
  "\<lambda>k. transmitter_drains hw SERIAL_COM1_BASE \<and> p \<noteq> 0 \<and> consoles_agree c0 fb0 k \<and> k_kbd k = kbd0 \<and> k_tbl k = tbl0 \<and>
     keys_read (k_tr k) = nk"
  for hw p c0 fb0 kbd0 tbl0 nk
proof unfold_locales
  fix k :: kernel and bs :: "byte list"
  assume ok: "transmitter_drains hw SERIAL_COM1_BASE \<and> p \<noteq> 0 \<and> consoles_agree c0 fb0 k \<and> k_kbd k = kbd0 \<and> k_tbl k = tbl0 \<and>
      keys_read (k_tr k) = nk"
    and len: "length bs < 4294967296"
  obtain t where t: "com1 k = c0 @ t" "k_fb k = screen_after t fb0" using ok by (auto simp: consoles_agree_def)
  obtain k' where k': "user_write hw p bs k = Some (word_of_nat (length bs), k')" "com1 k' = com1 k @ bs"
    "k_fb k' = screen_after bs (k_fb k)" "k_kbd k' = k_kbd k" "k_tbl k' = k_tbl k"
    "keys_read (k_tr k') = keys_read (k_tr k)"
    using user_write_out [OF _ _ len, of hw p k] ok by blast
  have "consoles_agree c0 fb0 k'"
    unfolding consoles_agree_def by (rule exI [of _ "t @ bs"]) (simp add: k' t screen_after_append)
  with k' ok show "\<exists>k'. user_write hw p bs k = Some (word_of_nat (length bs), k') \<and>
      (transmitter_drains hw SERIAL_COM1_BASE \<and> p \<noteq> 0 \<and> consoles_agree c0 fb0 k' \<and> k_kbd k' = kbd0 \<and> k_tbl k' = tbl0 \<and>
        keys_read (k_tr k') = nk) \<and>
      com1 k' = com1 k @ bs"
    by simp
qed

lemma consoles_agree_self: "consoles_agree (com1 k) (k_fb k) k"
  unfolding consoles_agree_def by (rule exI [of _ "[]"]) simp

lemma consoles_agreeD: "consoles_agree (com1 k) fb0 k' \<Longrightarrow> com1 k' = com1 k @ t \<Longrightarrow> k_fb k' = screen_after t fb0"
  by (auto simp: consoles_agree_def)

lemma printf_console:
  assumes "transmitter_drains hw SERIAL_COM1_BASE" "p \<noteq> 0" "format_text fmt args = Some t" "short_args args"
  shows "\<exists>k'. printf (user_write hw p) fmt args k = Inr (0, k') \<and> com1 k' = com1 k @ t \<and>
    k_fb k' = screen_after t (k_fb k) \<and> k_kbd k' = k_kbd k \<and> k_tbl k' = k_tbl k \<and>
    keys_read (k_tr k') = keys_read (k_tr k)"
  using console.printf_prints [OF assms(3) _ assms(4), of hw p "com1 k" "k_fb k" k "k_kbd k" "k_tbl k" "keys_read (k_tr k)"]
    assms(1,2) consoles_agree_self consoles_agreeD by metis

text \<open>
  C16: \<open>printf\<close> of the C library, running on the kernel's \<open>SYS_WRITE\<close>: for a format and
  arguments that have a meaning it returns 0, and the formatted text (literal characters,
  %c, %s with (null), %d and %i in signed decimal, %x and %p in hexadecimal, %%) appears
  exactly on COM1 and on the screen.
\<close>

theorem printf_on_console:
  assumes "transmitter_drains hw SERIAL_COM1_BASE" and "p \<noteq> 0"
    and "format_text fmt args = Some t" and "short_args args"
  shows "\<exists>k'. printf (user_write hw p) fmt args k = Inr (0, k') \<and> com1 k' = com1 k @ t \<and>
    k_fb k' = screen_after t (k_fb k)"
  using printf_console [OF assms] by blast

theorem printf_on_console_witness:
  "\<exists>k'. printf (user_write (const_hw 0x20) 0x2000) (str_bytes ''%s=%d (0x%x)'') [Arg_str (Some (str_bytes ''n'')), Arg_int (- 42), Arg_int 255] kernel_up
     = Inr (0, k') \<and> com1 k' = str_bytes ''n=-42 (0xff)''"
proof -
  have "sint (- 42 :: u32) = - 42" "unat (255 :: u32) = 255" by simp_all
  moreover have "numeral_in 10 42 = [52, 50]" "numeral_in 16 255 = [102, 102]"
    by (simp_all add: numeral_in.simps digit_def)
  ultimately have t: "format_text (str_bytes ''%s=%d (0x%x)'') [Arg_str (Some (str_bytes ''n'')), Arg_int (- 42), Arg_int 255] =
      Some (str_bytes ''n=-42 (0xff)'')"
    by (simp add: str_bytes_def number_text_def)
  have "short_args [Arg_str (Some (str_bytes ''n'')), Arg_int (- 42), Arg_int 255]"
    by (simp add: short_args_def str_bytes_def)
  from printf_on_console [OF const_hw_drains _ t this, of "0x2000" kernel_up] show ?thesis by (auto simp: com1_def)
qed

end
