(* ===== verification/Shell.thy ===== *)
theory Shell
  imports Tokenize User_Process
begin

text \<open>
  The shell of \<open>userland/shell/\<close>: the built-in commands, their table, and the read-evaluate
  loop of \<open>main\<close>, on top of the C library and the kernel's system calls. \<open>p\<close> stands for the
  address a printed string is stored at, \<open>line_buf\<close> for the address of the line buffer of
  128 bytes; \<open>argv\<close> is the static vector of 16 pointers, here offsets into the line buffer.
  The endless loop of \<open>main\<close> is given by its first \<open>n\<close> rounds, for every \<open>n\<close>.
\<close>

datatype shell_error = Io stdio_error | Argv token_error | Null_argument

datatype command_func = Cmd_help | Cmd_clear | Cmd_echo | Cmd_about

record builtin_cmd =
  cmd_name :: "byte list"
  cmd_description :: "byte list"
  cmd_func :: command_func

definition builtin_commands :: "builtin_cmd list" where
  "builtin_commands =
    [\<lparr>cmd_name = str_bytes ''help'', cmd_description = str_bytes ''Display information about builtin commands'',
       cmd_func = Cmd_help\<rparr>,
     \<lparr>cmd_name = str_bytes ''clear'', cmd_description = str_bytes ''Clear the terminal screen'',
       cmd_func = Cmd_clear\<rparr>,
     \<lparr>cmd_name = str_bytes ''echo'', cmd_description = str_bytes ''Display a line of text'',
       cmd_func = Cmd_echo\<rparr>,
     \<lparr>cmd_name = str_bytes ''about'', cmd_description = str_bytes ''Display system and kernel information'',
       cmd_func = Cmd_about\<rparr>]"

definition io_result :: "stdio_error + 'a \<Rightarrow> shell_error + 'a" where
  "io_result r = (case r of Inl e \<Rightarrow> Inl (Io e) | Inr x \<Rightarrow> Inr x)"

definition say :: "hardware \<Rightarrow> u32 \<Rightarrow> byte list \<Rightarrow> printf_arg list \<Rightarrow> kernel \<Rightarrow> shell_error + kernel" where
  "say hw p fmt args k = rbind (io_result (printf (user_write hw p) fmt args k)) (\<lambda>(_, k). Inr k)"

primrec say_all :: "hardware \<Rightarrow> u32 \<Rightarrow> byte list list \<Rightarrow> kernel \<Rightarrow> shell_error + kernel" where
  "say_all hw p [] k = Inr k"
| "say_all hw p (t # ts) k = rbind (say hw p t [] k) (say_all hw p ts)"

definition rule_line :: "byte list" where
  "rule_line = str_bytes ''-----------------------------------------------------------------'' @ [10]"

definition help_title :: "byte list" where
  "help_title = [10] @ str_bytes ''AetherOS Shell - Built-in Commands:'' @ [10]"

definition help_format :: "byte list" where
  "help_format = str_bytes ''  %s'' @ [9, 9] @ str_bytes ''- %s'' @ [10]"

primrec help_lines :: "hardware \<Rightarrow> u32 \<Rightarrow> builtin_cmd list \<Rightarrow> kernel \<Rightarrow> shell_error + kernel" where
  "help_lines hw p [] k = Inr k"
| "help_lines hw p (c # cs) k =
     rbind (say hw p help_format [Arg_str (Some (cmd_name c)), Arg_str (Some (cmd_description c))] k) (help_lines hw p cs)"

definition cmd_help :: "hardware \<Rightarrow> u32 \<Rightarrow> kernel \<Rightarrow> shell_error + kernel" where
  "cmd_help hw p k = rbind (say_all hw p [help_title, rule_line] k) (\<lambda>k.
     rbind (help_lines hw p builtin_commands k) (say hw p rule_line []))"

definition cmd_clear :: "hardware \<Rightarrow> kernel \<Rightarrow> shell_error + kernel" where
  "cmd_clear hw k = rbind (io_result (sys_call (u_sys_clear hw k))) (\<lambda>(_, k). Inr k)"

function echo_loop :: "hardware \<Rightarrow> u32 \<Rightarrow> nat \<Rightarrow> byte list list \<Rightarrow> nat \<Rightarrow> kernel \<Rightarrow> shell_error + kernel" where
  "echo_loop hw p argc argv i k =
     (if i < argc then
        rbind (say hw p (str_bytes ''%s'') [Arg_str (Some (argv ! i))] k) (\<lambda>k.
        rbind (if i < argc - 1 then say hw p (str_bytes '' '') [] k else Inr k) (\<lambda>k.
          echo_loop hw p argc argv (i + 1) k))
      else Inr k)"
  by pat_completeness auto
termination
  by (relation "measure (\<lambda>(hw, p, argc, argv, i, k). argc - i)") auto

declare echo_loop.simps [simp del]

definition cmd_echo :: "hardware \<Rightarrow> u32 \<Rightarrow> nat \<Rightarrow> byte list list \<Rightarrow> kernel \<Rightarrow> shell_error + kernel" where
  "cmd_echo hw p argc argv k = rbind (echo_loop hw p argc argv 1 k) (say hw p [10] [])"

definition about_lines :: "byte list list" where
  "about_lines =
   [[10] @ str_bytes ''================================================================='' @ [10],
    str_bytes ''       AetherOS (LittleOS) - x86 32-bit Operating System         '' @ [10],
    str_bytes ''       Kernel Mode: Higher-Half Paging (0xC0100000) Ring 0       '' @ [10],
    str_bytes ''       User Mode  : Flat Binary at 0x00000000 Ring 3             '' @ [10],
    str_bytes ''       Developed with Pair Programming by AmiyaSokiya & AI       '' @ [10],
    str_bytes ''================================================================='' @ [10, 10]]"

definition cmd_about :: "hardware \<Rightarrow> u32 \<Rightarrow> kernel \<Rightarrow> shell_error + kernel" where
  "cmd_about hw p k = say_all hw p about_lines k"

text \<open>The call through the function pointer of the table.\<close>

primrec run_command :: "hardware \<Rightarrow> u32 \<Rightarrow> nat \<Rightarrow> byte list list \<Rightarrow> command_func \<Rightarrow> kernel \<Rightarrow> shell_error + kernel" where
  "run_command hw p argc argv Cmd_help k = cmd_help hw p k"
| "run_command hw p argc argv Cmd_clear k = cmd_clear hw k"
| "run_command hw p argc argv Cmd_echo k = cmd_echo hw p argc argv k"
| "run_command hw p argc argv Cmd_about k = cmd_about hw p k"

text \<open>\<open>strcmp\<close> on the contents of two strings.\<close>

fun strcmp_text :: "byte list \<Rightarrow> byte list \<Rightarrow> int" where
  "strcmp_text [] [] = 0"
| "strcmp_text [] (d # ds) = - uint d"
| "strcmp_text (c # cs) [] = uint c"
| "strcmp_text (c # cs) (d # ds) = (if c = d then strcmp_text cs ds else uint c - uint d)"

definition not_found_format :: "byte list" where
  "not_found_format = str_bytes ''AetherOS: command not found: %s. Type 'help' for available commands.'' @ [10]"

primrec dispatch :: "hardware \<Rightarrow> u32 \<Rightarrow> nat \<Rightarrow> byte list list \<Rightarrow> builtin_cmd list \<Rightarrow> kernel \<Rightarrow> shell_error + kernel" where
  "dispatch hw p argc argv [] k = say hw p not_found_format [Arg_str (Some (argv ! 0))] k"
| "dispatch hw p argc argv (c # cs) k =
     (if strcmp_text (argv ! 0) (cmd_name c) = 0 then run_command hw p argc argv (cmd_func c) k
      else dispatch hw p argc argv cs k)"

definition prompt :: "byte list" where
  "prompt = str_bytes ''AetherOS> ''"

definition shell_round :: "hardware \<Rightarrow> u32 \<Rightarrow> u32 \<Rightarrow> kernel \<times> nat option list \<Rightarrow> shell_error + kernel \<times> nat option list" where
  "shell_round hw p line_buf st = (case st of (k, args) \<Rightarrow>
     rbind (say hw p prompt [] k) (\<lambda>k.
     rbind (io_result (gets (user_read hw) line_buf 128 k)) (\<lambda>(line, k).
       if line = 0 then Inr (k, args)
       else (case tokenize (read_bytes (k_mem k) line 128) args 16 of
           Inl e \<Rightarrow> Inl (Argv e)
         | Inr (argc, line', args) \<Rightarrow>
             (let k = k\<lparr>k_mem := put_bytes line line' (k_mem k)\<rparr> in
              if argc = 0 then Inr (k, args)
              else (case those (take argc args) of
                  None \<Rightarrow> Inl Null_argument
                | Some ps \<Rightarrow>
                    rbind (dispatch hw p argc (map (cstr_at line') ps) builtin_commands k) (\<lambda>k. Inr (k, args))))))))"

primrec shell_rounds :: "hardware \<Rightarrow> u32 \<Rightarrow> u32 \<Rightarrow> nat \<Rightarrow> kernel \<times> nat option list \<Rightarrow>
    shell_error + kernel \<times> nat option list" where
  "shell_rounds hw p line_buf 0 st = Inr st"
| "shell_rounds hw p line_buf (Suc n) st = rbind (shell_round hw p line_buf st) (shell_rounds hw p line_buf n)"

definition banner :: "byte list list" where
  "banner =
   [[10] @ str_bytes ''================================================================='' @ [10],
    str_bytes ''         Welcome to AetherOS Userland Shell (Ring 3)             '' @ [10],
    str_bytes ''         Type 'help' to see available commands.                  '' @ [10],
    str_bytes ''================================================================='' @ [10, 10]]"

definition shell_main :: "hardware \<Rightarrow> u32 \<Rightarrow> u32 \<Rightarrow> nat \<Rightarrow> kernel \<times> nat option list \<Rightarrow>
    shell_error + kernel \<times> nat option list" where
  "shell_main hw p line_buf n st = (case st of (k, args) \<Rightarrow>
     rbind (say_all hw p banner k) (\<lambda>k. shell_rounds hw p line_buf n (k, args)))"

section \<open>What the shell answers\<close>

definition help_text :: "byte list" where
  "help_text = help_title @ rule_line @
     concat (map (\<lambda>c. str_bytes ''  '' @ cmd_name c @ [9, 9] @ str_bytes ''- '' @ cmd_description c @ [10]) builtin_commands) @
     rule_line"

fun join :: "byte list list \<Rightarrow> byte list" where
  "join [] = []"
| "join [w] = w"
| "join (w # v # ws) = w @ [32] @ join (v # ws)"

definition clear_code :: "byte list" where
  "clear_code = [27] @ str_bytes ''[2J'' @ [27] @ str_bytes ''[H''"

definition not_found_text :: "byte list \<Rightarrow> byte list" where
  "not_found_text w = str_bytes ''AetherOS: command not found: '' @ w @ str_bytes ''. Type 'help' for available commands.'' @ [10]"

text \<open>The answer to a command line, given by its words: the text sent over COM1, and the screen.\<close>

definition reply_text :: "byte list list \<Rightarrow> byte list" where
  "reply_text ws =
     (if ws = [] then []
      else if hd ws = str_bytes ''help'' then help_text
      else if hd ws = str_bytes ''clear'' then clear_code
      else if hd ws = str_bytes ''echo'' then join (tl ws) @ [10]
      else if hd ws = str_bytes ''about'' then concat about_lines
      else not_found_text (hd ws))"

definition reply_screen :: "byte list list \<Rightarrow> fb_state \<Rightarrow> fb_state" where
  "reply_screen ws s =
     (if ws \<noteq> [] \<and> hd ws = str_bytes ''clear'' then fst (fb_clear (s, [])) else screen_after (reply_text ws) s)"

section \<open>Printing\<close>

lemma format_text_append: "37 \<notin> set a \<Longrightarrow> format_text (a @ fmt) args = map_option ((@) a) (format_text fmt args)"
proof (induction a)
  case Nil
  show ?case by (simp add: option.map_ident)
next
  case (Cons c a)
  then show ?case by (cases "a @ fmt") (auto simp: option.map_comp comp_def)
qed

lemma format_text_plain: "37 \<notin> set a \<Longrightarrow> format_text a args = Some a"
  using format_text_append [of a "[]" args] by simp

text \<open>A step of the shell that prints \<open>t\<close> on both devices and touches neither the keyboard nor the handlers.\<close>

definition says :: "shell_error + kernel \<Rightarrow> kernel \<Rightarrow> byte list \<Rightarrow> bool" where
  "says r k t \<longleftrightarrow> (\<exists>k'. r = Inr k' \<and> echoed t t k k' \<and> k_kbd k' = k_kbd k \<and> keys_read (k_tr k') = keys_read (k_tr k))"

lemma says_skip: "says (Inr k) k []"
  by (simp add: says_def echoed_refl)

lemma says_bind: "says r k t \<Longrightarrow> (\<And>k'. says (f k') k' u) \<Longrightarrow> says (rbind r f) k (t @ u)"
  unfolding says_def using echoed_trans by fastforce

lemma say_says:
  assumes "transmitter_drains hw SERIAL_COM1_BASE" "p \<noteq> 0" "format_text fmt args = Some t" "short_args args"
  shows "says (say hw p fmt args k) k t"
  using printf_console [OF assms, of k] by (auto simp: says_def say_def io_result_def echoed_def)

lemma short_args_Nil [simp]: "short_args []"
  and short_args_Cons [simp]: "short_args (Arg_str (Some w) # args) \<longleftrightarrow> length w < 4294967296 \<and> short_args args"
  by (auto simp: short_args_def)

lemma say_plain:
  assumes "transmitter_drains hw SERIAL_COM1_BASE" "p \<noteq> 0" "37 \<notin> set t"
  shows "says (say hw p t [] k) k t"
  using say_says [OF assms(1,2) format_text_plain [OF assms(3)]] by simp

lemma say_all_says:
  assumes "transmitter_drains hw SERIAL_COM1_BASE" "p \<noteq> 0"
  shows "list_all (\<lambda>t. 37 \<notin> set t) ts \<Longrightarrow> says (say_all hw p ts k) k (concat ts)"
proof (induction ts arbitrary: k)
  case Nil
  show ?case by (simp add: says_skip)
next
  case (Cons t ts)
  then show ?case using says_bind [OF say_plain [OF assms, of t k] Cons.IH] by simp
qed

section \<open>The commands\<close>

lemma plain_texts:
  "37 \<notin> set help_title" "37 \<notin> set rule_line" "37 \<notin> set prompt"
  "list_all (\<lambda>t. 37 \<notin> set t) about_lines" "list_all (\<lambda>t. 37 \<notin> set t) banner"
  by (simp_all add: help_title_def rule_line_def prompt_def about_lines_def banner_def str_bytes_def)

lemma help_line_text:
  "format_text help_format [Arg_str (Some n), Arg_str (Some d)] =
    Some (str_bytes ''  '' @ n @ [9, 9] @ str_bytes ''- '' @ d @ [10])"
  by (simp add: help_format_def str_bytes_def)

lemma help_lines_says:
  assumes "transmitter_drains hw SERIAL_COM1_BASE" "p \<noteq> 0"
  shows "list_all (\<lambda>c. length (cmd_name c) < 4294967296 \<and> length (cmd_description c) < 4294967296) cs \<Longrightarrow>
    says (help_lines hw p cs k) k (concat (map (\<lambda>c. str_bytes ''  '' @ cmd_name c @ [9, 9] @ str_bytes ''- '' @ cmd_description c @ [10]) cs))"
proof (induction cs arbitrary: k)
  case Nil
  show ?case by (simp add: says_skip)
next
  case (Cons c cs)
  note line = say_says [OF assms help_line_text, of "cmd_name c" "cmd_description c" k]
  show ?case using says_bind [OF line Cons.IH] Cons.prems by simp
qed

lemma cmd_help_says:
  assumes "transmitter_drains hw SERIAL_COM1_BASE" "p \<noteq> 0"
  shows "says (cmd_help hw p k) k help_text"
proof -
  let ?lines = "concat (map (\<lambda>c. str_bytes ''  '' @ cmd_name c @ [9, 9] @ str_bytes ''- '' @ cmd_description c @ [10]) builtin_commands)"
  have h: "says (say_all hw p [help_title, rule_line] k) k (help_title @ rule_line)"
    using say_all_says [OF assms, of "[help_title, rule_line]" k] plain_texts(1,2) by simp
  have c: "says (help_lines hw p builtin_commands k1) k1 ?lines" for k1
    by (rule help_lines_says [OF assms]) (simp add: builtin_commands_def)
  show ?thesis
    using says_bind [OF h says_bind [OF c say_plain [OF assms plain_texts(2)]]]
    unfolding cmd_help_def help_text_def by simp
qed

lemma echo_loop_says:
  assumes "transmitter_drains hw SERIAL_COM1_BASE" "p \<noteq> 0"
    and "\<forall>w \<in> set argv. length w < 4294967296"
  shows "says (echo_loop hw p (length argv) argv i k) k (join (drop i argv))"
proof (induction "length argv - i" arbitrary: i k)
  case 0
  then show ?case by (subst echo_loop.simps) (simp add: says_skip)
next
  case (Suc n)
  let ?argc = "length argv"
  have i: "i < ?argc" using Suc.hyps(2) by simp
  have word: "says (say hw p (str_bytes ''%s'') [Arg_str (Some (argv ! i))] k) k (argv ! i)"
    using i assms(3) by (intro say_says [OF assms(1,2)]) (simp_all add: str_bytes_def)
  have sep: "says (if i < ?argc - 1 then say hw p (str_bytes '' '') [] k1 else Inr k1) k1 (if i < ?argc - 1 then [32] else [])" for k1
    using say_plain [OF assms(1,2), of "str_bytes '' ''" k1] by (simp add: says_skip str_bytes_def)
  have "join (drop i argv) = argv ! i @ (if i < ?argc - 1 then [32] else []) @ join (drop (i + 1) argv)"
  proof -
    have "i < ?argc - 1 \<longleftrightarrow> drop (i + 1) argv \<noteq> []" using i by auto
    then show ?thesis
      using i by (cases "drop (i + 1) argv") (auto simp: Cons_nth_drop_Suc [symmetric])
  qed
  moreover have "says (echo_loop hw p ?argc argv (i + 1) k2) k2 (join (drop (i + 1) argv))" for k2
    using Suc.hyps by simp
  ultimately show ?case
    using says_bind [OF word says_bind [OF sep]] i by (subst echo_loop.simps) simp
qed

lemma cmd_echo_says:
  assumes "transmitter_drains hw SERIAL_COM1_BASE" "p \<noteq> 0" "\<forall>w \<in> set argv. length w < 4294967296"
  shows "says (cmd_echo hw p (length argv) argv k) k (join (tl argv) @ [10])"
  unfolding cmd_echo_def using echo_loop_says [OF assms, of 1 k] say_plain [OF assms(1,2), of "[10]"]
  by (intro says_bind) (simp_all add: drop_Suc)

text \<open>Clearing: the codes on COM1, the blank screen.\<close>

lemma cmd_clear_effect:
  assumes "transmitter_drains hw SERIAL_COM1_BASE"
  shows "\<exists>k'. cmd_clear hw k = Inr k' \<and> com1 k' = com1 k @ clear_code \<and> k_fb k' = fst (fb_clear (k_fb k, [])) \<and>
    k_kbd k' = k_kbd k \<and> k_tbl k' = k_tbl k \<and> keys_read (k_tr k') = keys_read (k_tr k)"
proof -
  let ?k = "with_fb fb_clear k"
  obtain es where es: "k_serial_write hw clear_code ?k = Some (?k\<lparr>k_tr := es @ k_tr ?k\<rparr>)"
    "list_all (serial_event SERIAL_COM1_BASE) es" "outs (SERIAL_DATA_PORT SERIAL_COM1_BASE) es = clear_code"
    using k_serial_write_returns [OF assms] by metis
  have "com1 (?k\<lparr>k_tr := es @ k_tr ?k\<rparr>) = com1 ?k @ clear_code" using es(3) by (simp add: com1_def)
  moreover have "only_output (k_tr k) (es @ k_tr ?k)"
    using only_output_trans [OF only_output_fb_clear only_output_serial [OF es(2)], of "(k_fb k, k_tr k)"] by simp
  moreover have "cmd_clear hw k = Inr (?k\<lparr>k_tr := es @ k_tr ?k\<rparr>)"
    using es(1)
    by (simp add: cmd_clear_def u_sys_clear_def trap_def do_syscall_in_C_def sys_clear_def syscall_defs sys_call_def
        io_result_def clear_code_def)
  moreover have "k_fb ?k = fst (fb_clear (k_fb k, []))" by (simp add: with_fb_def fb_clear_eq)
  ultimately show ?thesis by (simp add: only_output_def)
qed

section \<open>One round\<close>

lemma strcmp_text_eq: "strcmp_text a b = 0 \<longleftrightarrow> a = b" if "0 \<notin> set a" "0 \<notin> set b"
  using that by (induction a b rule: strcmp_text.induct) (auto simp: word_uint_eq_iff)

lemma strcmp_of_strings:
  "c_string m s1 a \<Longrightarrow> c_string m s2 b \<Longrightarrow> strcmp m s1 s2 = Some (strcmp_text a b)"
proof (induction a b arbitrary: s1 s2 rule: strcmp_text.induct)
  case (4 c cs d ds)
  then show ?case by (subst strcmp.simps) auto
qed (subst strcmp.simps, simp)+

lemma not_found_says:
  assumes "transmitter_drains hw SERIAL_COM1_BASE" "p \<noteq> 0" "length w < 4294967296"
  shows "says (say hw p not_found_format [Arg_str (Some w)] k) k (not_found_text w)"
proof (rule say_says [OF assms(1,2)])
  let ?a = "str_bytes ''AetherOS: command not found: ''" and ?b = "str_bytes ''. Type 'help' for available commands.'' @ [10]"
  have f: "not_found_format = ?a @ 37 # 115 # ?b" by (simp add: not_found_format_def str_bytes_def)
  have "37 \<notin> set ?a" "37 \<notin> set ?b" by (simp_all add: str_bytes_def)
  then show "format_text not_found_format [Arg_str (Some w)] = Some (not_found_text w)"
    unfolding f by (simp add: format_text_append format_text_plain not_found_text_def del: str_bytes_append)
qed (use assms(3) in simp)

text \<open>The effect of a command line on the consoles, as the specification has it.\<close>

definition answered :: "byte list list \<Rightarrow> kernel \<Rightarrow> kernel \<Rightarrow> bool" where
  "answered ws k k' \<longleftrightarrow> com1 k' = com1 k @ reply_text ws \<and> k_fb k' = reply_screen ws (k_fb k) \<and>
     k_kbd k' = k_kbd k \<and> k_tbl k' = k_tbl k \<and> keys_read (k_tr k') = keys_read (k_tr k)"

lemma says_answered:
  "says r k (reply_text ws) \<Longrightarrow> ws = [] \<or> hd ws \<noteq> str_bytes ''clear'' \<Longrightarrow> \<exists>k'. r = Inr k' \<and> answered ws k k'"
  by (auto simp: says_def answered_def reply_screen_def echoed_def)

lemma dispatch_answers:
  assumes "transmitter_drains hw SERIAL_COM1_BASE" "p \<noteq> 0" "ws \<noteq> []" "\<forall>w \<in> set ws. length w < 4294967296 \<and> 0 \<notin> set w"
  shows "\<exists>k'. dispatch hw p (length ws) ws builtin_commands k = Inr k' \<and> answered ws k k'"
proof -
  have hd: "ws ! 0 = hd ws" "0 \<notin> set (hd ws)" "length (hd ws) < 4294967296" using assms(3,4) by (auto simp: hd_conv_nth)
  have eq: "strcmp_text (hd ws) (str_bytes s) = 0 \<longleftrightarrow> hd ws = str_bytes s" if "0 \<notin> set (str_bytes s)" for s
    using strcmp_text_eq hd(2) that by blast
  have table: "dispatch hw p (length ws) ws builtin_commands k =
      (if hd ws = str_bytes ''help'' then cmd_help hw p k else if hd ws = str_bytes ''clear'' then cmd_clear hw k
       else if hd ws = str_bytes ''echo'' then cmd_echo hw p (length ws) ws k
       else if hd ws = str_bytes ''about'' then cmd_about hw p k
       else say hw p not_found_format [Arg_str (Some (hd ws))] k)"
  proof -
    have "0 \<notin> set (str_bytes ''help'')" "0 \<notin> set (str_bytes ''clear'')" "0 \<notin> set (str_bytes ''echo'')"
      "0 \<notin> set (str_bytes ''about'')"
      by (simp_all add: str_bytes_def)
    then show ?thesis by (simp add: builtin_commands_def hd(1) eq)
  qed
  show ?thesis
  proof (cases "hd ws = str_bytes ''clear''")
    case True
    then have "hd ws \<noteq> str_bytes ''help''" by (simp add: str_bytes_def)
    with True show ?thesis
      using cmd_clear_effect [OF assms(1), of k] assms(3)
      by (auto simp: table answered_def reply_text_def reply_screen_def)
  next
    case False
    have "says (dispatch hw p (length ws) ws builtin_commands k) k (reply_text ws)"
      using False assms(3,4) cmd_help_says [OF assms(1,2)] cmd_echo_says [OF assms(1,2), of ws k]
        say_all_says [OF assms(1,2) plain_texts(4)] not_found_says [OF assms(1,2) hd(3)]
      by (simp add: table reply_text_def cmd_about_def)
    with False show ?thesis using says_answered by blast
  qed
qed

lemma line_edit_no_nul:
  "line_edit cap acc cs = Some (line, rest, scr, ser) \<Longrightarrow> 0 \<notin> set acc \<Longrightarrow> 0 \<notin> set line"
proof (induction cap acc cs arbitrary: scr ser rule: line_edit.induct)
  case (2 cap acc c cs)
  have "0 \<notin> set (butlast acc)" using 2(5) by (auto dest: in_set_butlastD)
  with 2 show ?case by (auto simp: also_echo_def split: if_splits)
qed (auto split: if_splits)

lemma words_of_line: "w \<in> set (words cs) \<Longrightarrow> set w \<subseteq> set cs \<and> length w \<le> length cs"
proof (induction cs rule: words.induct)
  case (1 cs)
  let ?r = "dropWhile is_blank cs"
  let ?t = "dropWhile (\<lambda>c. \<not> is_blank c) ?r"
  have sub: "set ?r \<subseteq> set cs" "length ?r \<le> length cs" "set ?t \<subseteq> set ?r" "length ?t \<le> length ?r"
    by (auto dest: set_dropWhileD simp: length_dropWhile_le)
  have "w = takeWhile (\<lambda>c. \<not> is_blank c) ?r \<or> (?r \<noteq> [] \<and> w \<in> set (words ?t))"
    using 1(2) by (subst (asm) words.simps) (auto simp: Let_def split: if_splits)
  then show ?case
  proof
    assume "w = takeWhile (\<lambda>c. \<not> is_blank c) ?r"
    then have "set w \<subseteq> set ?r" "length w \<le> length ?r"
      using length_takeWhile_le [of "\<lambda>c. \<not> is_blank c" ?r] by (auto dest: set_takeWhileD)
    with sub show ?thesis by auto
  next
    assume "?r \<noteq> [] \<and> w \<in> set (words ?t)"
    with 1(1) [OF refl] have "set w \<subseteq> set ?t \<and> length w \<le> length ?t" by blast
    with sub show ?thesis by auto
  qed
qed

text \<open>\<open>gets\<close> of the line buffer with a complete line pending.\<close>

lemma gets_line:
  assumes "transmitter_drains hw SERIAL_COM1_BASE" and "typist hw keys"
    and "line_buf \<noteq> 0" and "listening keys k"
    and "line_edit 127 [] (input keys k) = Some (line, rest, scr, ser)"
  shows "\<exists>k' pad. gets (user_read hw) line_buf 128 k = Inr (if line = [] then 0 else line_buf, k') \<and>
    read_bytes (k_mem k') line_buf 128 = line @ 0 # pad \<and> input keys k' = rest \<and> listening keys k' \<and>
    com1 k' = com1 k @ ser \<and> k_fb k' = screen_after scr (k_fb k) \<and> length line < 128"
proof -
  let ?r = "user_regs 3 0 line_buf 128"
  have "line_edit (unat (r_edx ?r) - 1) [] (input keys k) = Some (line, rest, scr, ser)" using assms(5) by simp
  then obtain k' where k': "do_syscall_in_C hw (Some ?r) k = Some (Some (?r\<lparr>r_eax := word_of_nat (length line)\<rparr>), k')"
    "length line < 128" "read_bytes (k_mem k') line_buf (length line + 1) = line @ [0]" "input keys k' = rest"
    "listening keys k'" "com1 k' = com1 k @ ser" "k_fb k' = screen_after scr (k_fb k)"
    using sys_read_call [OF assms(1,2), of ?r k line rest scr ser] assms(3,4) by (auto simp: syscall_defs)
  have run: "gets (user_read hw) line_buf 128 k =
      Inr (if sint (word_of_nat (length line) :: u32) \<le> 0 then 0 else line_buf, k')"
    by (simp add: gets_def sys_call_def user_read_def u_sys_read_def trap_def k'(1))
  have "sint (word_of_nat (length line) :: u32) = int (length line)"
    using k'(2) by (simp add: signed_take_bit_int_eq_self signed_of_nat)
  moreover have "read_bytes (k_mem k') line_buf 128 = line @ 0 # drop (length line + 1) (read_bytes (k_mem k') line_buf 128)"
  proof -
    have "take (length line + 1) (read_bytes (k_mem k') line_buf 128) = read_bytes (k_mem k') line_buf (length line + 1)"
      using k'(2) by (simp add: read_bytes_def take_map)
    then show ?thesis using k'(3) append_take_drop_id [of "length line + 1" "read_bytes (k_mem k') line_buf 128"] by simp
  qed
  ultimately show ?thesis using run k' by auto
qed

lemma those_words:
  assumes "n \<le> length args" "length ws = n" "\<forall>i < n. \<exists>q. args ! i = Some q \<and> cstr_at line q = ws ! i"
  shows "\<exists>ps. those (take n args) = Some ps \<and> map (cstr_at line) ps = ws"
  using assms
proof (induction n arbitrary: args ws)
  case (Suc n)
  then obtain a as w vs where l: "args = a # as" "ws = w # vs" by (metis Suc_le_length_iff length_Suc_conv)
  have "\<forall>i < n. \<exists>q. as ! i = Some q \<and> cstr_at line q = vs ! i" using Suc.prems(3) by (auto simp: l)
  then obtain ps where "those (take n as) = Some ps" "map (cstr_at line) ps = vs"
    using Suc.IH [of as vs] Suc.prems(1,2) by (auto simp: l)
  moreover have "\<exists>q. a = Some q \<and> cstr_at line q = w" using Suc.prems(3) by (auto simp: l)
  ultimately show ?case by (auto simp: l)
qed simp

text \<open>
  One line of a session: what is sent over COM1, what the screen becomes, and which
  characters stay pending. \<open>None\<close>: the line is not complete, or has too many words for \<open>argv\<close>.
\<close>

fun round_spec :: "byte list \<Rightarrow> (byte list \<times> (fb_state \<Rightarrow> fb_state) \<times> byte list) option" where
  "round_spec cs = (case line_edit 127 [] cs of
       None \<Rightarrow> None
     | Some (line, rest, scr, ser) \<Rightarrow>
         if length (words line) \<le> 15
         then Some (prompt @ ser @ reply_text (words line),
           (\<lambda>s. reply_screen (words line) (screen_after (prompt @ scr) s)), rest)
         else None)"

text \<open>The shell is ready for a round: the keyboard driver listens, \<open>argv\<close> has its 16 slots.\<close>

definition shell_ready :: "byte list \<Rightarrow> kernel \<times> nat option list \<Rightarrow> bool" where
  "shell_ready keys st \<longleftrightarrow> listening keys (fst st) \<and> length (snd st) = 16"

lemma prompt_and_line:
  assumes "transmitter_drains hw SERIAL_COM1_BASE" and "typist hw keys" and "p \<noteq> 0" and "line_buf \<noteq> 0"
    and "listening keys k" and "line_edit 127 [] (input keys k) = Some (line, rest, scr, ser)"
  obtains k1 k2 pad where "say hw p prompt [] k = Inr k1"
    "gets (user_read hw) line_buf 128 k1 = Inr (if line = [] then 0 else line_buf, k2)"
    "read_bytes (k_mem k2) line_buf 128 = line @ 0 # pad" "input keys k2 = rest" "listening keys k2"
    "com1 k2 = com1 k @ prompt @ ser" "k_fb k2 = screen_after (prompt @ scr) (k_fb k)" "length line < 128"
proof -
  obtain k1 where k1: "say hw p prompt [] k = Inr k1" "echoed prompt prompt k k1" "k_kbd k1 = k_kbd k"
    "keys_read (k_tr k1) = keys_read (k_tr k)"
    using say_plain [OF assms(1,3) plain_texts(3), of k] by (auto simp: says_def)
  then have "input keys k1 = input keys k" "listening keys k1 = listening keys k"
    by (simp_all add: input_def listening_def keys_left_def echoed_def)
  then obtain k2 pad where "gets (user_read hw) line_buf 128 k1 = Inr (if line = [] then 0 else line_buf, k2)"
    "read_bytes (k_mem k2) line_buf 128 = line @ 0 # pad" "input keys k2 = rest" "listening keys k2"
    "com1 k2 = com1 k1 @ ser" "k_fb k2 = screen_after scr (k_fb k1)" "length line < 128"
    using gets_line [OF assms(1,2,4), of k1 line rest scr ser] assms(5,6) by auto
  with k1 that show ?thesis by (auto simp: echoed_def screen_after_append)
qed

lemma shell_round_answers:
  assumes "transmitter_drains hw SERIAL_COM1_BASE" and "typist hw keys" and "p \<noteq> 0" and "line_buf \<noteq> 0"
    and "shell_ready keys (k, args)" and "round_spec (input keys k) = Some (out, scrn, rest)"
  shows "\<exists>k' args'. shell_round hw p line_buf (k, args) = Inr (k', args') \<and> shell_ready keys (k', args') \<and>
    com1 k' = com1 k @ out \<and> k_fb k' = scrn (k_fb k) \<and> input keys k' = rest"
proof -
  obtain line scr ser where l: "line_edit 127 [] (input keys k) = Some (line, rest, scr, ser)"
    and w: "length (words line) \<le> 15" and out: "out = prompt @ ser @ reply_text (words line)"
    and scrn: "scrn = (\<lambda>s. reply_screen (words line) (screen_after (prompt @ scr) s))"
    using assms(6) by (auto split: option.splits if_splits)
  have ready: "listening keys k" "length args = 16" using assms(5) by (simp_all add: shell_ready_def)
  obtain k1 k2 pad where k1: "say hw p prompt [] k = Inr k1"
    and k2: "gets (user_read hw) line_buf 128 k1 = Inr (if line = [] then 0 else line_buf, k2)"
    and mem: "read_bytes (k_mem k2) line_buf 128 = line @ 0 # pad" and kbd: "input keys k2 = rest" "listening keys k2"
    and cons: "com1 k2 = com1 k @ prompt @ ser" "k_fb k2 = screen_after (prompt @ scr) (k_fb k)" and len: "length line < 128"
    using prompt_and_line [OF assms(1-4) ready(1) l] by metis
  have nz: "0 \<notin> set line" using line_edit_no_nul [OF l] by simp
  obtain line' args' where t: "tokenize (line @ 0 # pad) args 16 = Inr (length (words line), line', args')"
    "length args' = 16" "\<forall>i < length (words line). \<exists>q. args' ! i = Some q \<and> cstr_at line' q = words line ! i"
    using tokenize_words_call [OF nz ready(2) w, of pad] by blast
  let ?k = "k2\<lparr>k_mem := put_bytes line_buf line' (k_mem k2)\<rparr>"
  consider (empty) "line = []" | (blank) "line \<noteq> []" "words line = []" | (cmd) "line \<noteq> []" "words line \<noteq> []" by blast
  then show ?thesis
  proof cases
    case empty
    then have "words line = []" by (simp add: words.simps)
    with empty k1 k2 kbd cons ready show ?thesis
      by (simp add: shell_round_def io_result_def shell_ready_def out scrn reply_text_def reply_screen_def)
  next
    case blank
    with k1 k2 kbd cons t mem assms(4) show ?thesis
      by (simp add: shell_round_def io_result_def shell_ready_def out scrn reply_text_def reply_screen_def Let_def)
  next
    case cmd
    obtain ps where ps: "those (take (length (words line)) args') = Some ps" "map (cstr_at line') ps = words line"
      using those_words [OF _ refl t(3)] w t(2) by auto
    have "\<forall>v \<in> set (words line). length v < 4294967296 \<and> 0 \<notin> set v"
      using words_of_line [of _ line] nz len by fastforce
    then obtain k' where k': "dispatch hw p (length (words line)) (words line) builtin_commands ?k = Inr k'" "answered (words line) ?k k'"
      using dispatch_answers [OF assms(1,3) cmd(2), of ?k] by blast
    have "shell_round hw p line_buf (k, args) = Inr (k', args')"
      using k1 k2 cmd t(1) mem ps k'(1) assms(4) by (simp add: shell_round_def io_result_def Let_def)
    moreover have "input keys k' = input keys ?k" "listening keys k' = listening keys ?k"
      using k'(2) by (auto simp: answered_def intro!: input_cong, auto simp: listening_def keys_left_def)
    ultimately show ?thesis using k'(2) kbd cons t(2) by (simp add: answered_def shell_ready_def out scrn)
  qed
qed

section \<open>A session\<close>

primrec session_spec :: "nat \<Rightarrow> byte list \<Rightarrow> (byte list \<times> (fb_state \<Rightarrow> fb_state) \<times> byte list) option" where
  "session_spec 0 cs = Some ([], id, cs)"
| "session_spec (Suc n) cs = (case round_spec cs of
       None \<Rightarrow> None
     | Some (out, f, rest) \<Rightarrow> map_option (\<lambda>(out', g, rest'). (out @ out', g \<circ> f, rest')) (session_spec n rest))"

lemma shell_rounds_answer:
  assumes "transmitter_drains hw SERIAL_COM1_BASE" and "typist hw keys" and "p \<noteq> 0" and "line_buf \<noteq> 0"
  shows "shell_ready keys (k, args) \<Longrightarrow> session_spec n (input keys k) = Some (out, scrn, rest) \<Longrightarrow>
    \<exists>k' args'. shell_rounds hw p line_buf n (k, args) = Inr (k', args') \<and> shell_ready keys (k', args') \<and>
      com1 k' = com1 k @ out \<and> k_fb k' = scrn (k_fb k) \<and> input keys k' = rest"
proof (induction n arbitrary: k args out scrn)
  case (Suc n)
  obtain o1 f1 r1 o2 f2 where r: "round_spec (input keys k) = Some (o1, f1, r1)"
    and s: "session_spec n r1 = Some (o2, f2, rest)" and eq: "out = o1 @ o2" "scrn = f2 \<circ> f1"
    using Suc.prems(2) by (auto simp del: round_spec.simps split: option.splits)
  obtain k1 args1 where k1: "shell_round hw p line_buf (k, args) = Inr (k1, args1)" "shell_ready keys (k1, args1)"
    "com1 k1 = com1 k @ o1" "k_fb k1 = f1 (k_fb k)" "input keys k1 = r1"
    using shell_round_answers [OF assms Suc.prems(1) r] by blast
  then obtain k2 args2 where "shell_rounds hw p line_buf n (k1, args1) = Inr (k2, args2)" "shell_ready keys (k2, args2)"
    "com1 k2 = com1 k1 @ o2" "k_fb k2 = f2 (k_fb k1)" "input keys k2 = rest"
    using Suc.IH [of k1 args1 o2 f2] s by auto
  with k1 eq show ?case by simp
qed simp

text \<open>
  C5: A session of the shell with a person typing: when the waiting characters and the keys
  to come make \<open>n\<close> complete lines (each of at most 15 words), the shell prints its banner and
  runs \<open>n\<close> rounds to their end; over COM1 goes exactly the banner and for each line the prompt,
  the echo of the editing and the command's answer (help, echo, about, clear, or the message
  for an unknown command), the screen shows the same, and no character behind the last
  line is lost. The keys are those that arrive at the interrupt points of the loop of \<open>SYS_READ\<close>
  (at the head of a round, and between the empty check and \<open>hlt\<close>) and in \<open>hlt\<close>, none or
  one at each, with room in the ring buffer at the start; a key that interrupts
  \<open>keyboard_getchar\<close> itself, where \<open>Kbd_Race\<close> shows that it can be lost, or the program
  between its calls is not covered.
\<close>

theorem shell_session:
  assumes "transmitter_drains hw SERIAL_COM1_BASE" and "typist hw keys" and "p \<noteq> 0" and "line_buf \<noteq> 0"
    and "shell_ready keys (k, args)" and "session_spec n (input keys k) = Some (out, scrn, rest)"
  shows "\<exists>k' args'. shell_main hw p line_buf n (k, args) = Inr (k', args') \<and>
    com1 k' = com1 k @ concat banner @ out \<and> k_fb k' = scrn (screen_after (concat banner) (k_fb k)) \<and>
    input keys k' = rest"
proof -
  obtain k1 where k1: "say_all hw p banner k = Inr k1" "echoed (concat banner) (concat banner) k k1" "k_kbd k1 = k_kbd k"
    "keys_read (k_tr k1) = keys_read (k_tr k)"
    using say_all_says [OF assms(1,3) plain_texts(5), of k] by (auto simp: says_def)
  then have "input keys k1 = input keys k" "listening keys k1 = listening keys k"
    by (simp_all add: input_def listening_def keys_left_def echoed_def)
  then have "shell_ready keys (k1, args)" "session_spec n (input keys k1) = Some (out, scrn, rest)"
    using assms(5,6) by (simp_all add: shell_ready_def)
  from shell_rounds_answer [OF assms(1-4) this] k1 show ?thesis by (auto simp: shell_main_def echoed_def)
qed

text \<open>The lines \<open>echo hi\<close> and \<open>x\<close>.\<close>

lemma session_example:
  "\<exists>f. session_spec 2 [101, 99, 104, 111, 32, 104, 105, 10, 120, 10] =
    Some (str_bytes ''AetherOS> echo hi'' @ [13, 10] @ str_bytes ''hi'' @ [10] @
      str_bytes ''AetherOS> x'' @ [13, 10] @ not_found_text [120], f, [])"
proof -
  have w: "words [101, 99, 104, 111, 32, 104, 105] = [[101, 99, 104, 111], [104, 105]]" "words [120] = [[120]]"
    by (simp_all add: words.simps is_blank_def)
  have e: "line_edit 127 [] [101, 99, 104, 111, 32, 104, 105, 10, 120, 10] =
      Some ([101, 99, 104, 111, 32, 104, 105], [120, 10], [101, 99, 104, 111, 32, 104, 105, 10], [101, 99, 104, 111, 32, 104, 105, 13, 10])"
    "line_edit 127 [] [120, 10] = Some ([120], [], [120, 10], [120, 13, 10])"
    by (simp_all add: also_echo_def)
  have r: "reply_text [[101, 99, 104, 111], [104, 105]] = str_bytes ''hi'' @ [10]" "reply_text [[120]] = not_found_text [120]"
    by (simp_all add: reply_text_def str_bytes_def)
  have p: "prompt @ [101, 99, 104, 111, 32, 104, 105, 13, 10] = str_bytes ''AetherOS> echo hi'' @ [13, 10]"
    "prompt @ [120, 13, 10] = str_bytes ''AetherOS> x'' @ [13, 10]"
    by (simp_all add: prompt_def str_bytes_def)
  have rounds: "\<exists>f. round_spec [101, 99, 104, 111, 32, 104, 105, 10, 120, 10] =
      Some ((prompt @ [101, 99, 104, 111, 32, 104, 105, 13, 10]) @ str_bytes ''hi'' @ [10], f, [120, 10])"
    "\<exists>f. round_spec [120, 10] = Some ((prompt @ [120, 13, 10]) @ not_found_text [120], f, [])"
    by (simp_all only: round_spec.simps e option.case prod.case w r, simp_all)
  then show ?thesis unfolding p by (auto simp only: numeral_2_eq_2 session_spec.simps option.case prod.case option.map append_assoc append_Nil2)
qed

text \<open>The keys of these lines on the keyboard, with the release of every key.\<close>

definition session_keys :: "byte list" where
  "session_keys = [0x12, 0x92, 0x2E, 0xAE, 0x23, 0xA3, 0x18, 0x98, 0x39, 0xB9, 0x23, 0xA3, 0x17, 0x97, 0x1C, 0x9C,
     0x2D, 0xAD, 0x1C, 0x9C]"

lemma session_text: "keys_text False session_keys = [101, 99, 104, 111, 32, 104, 105, 10, 120, 10]"
  by code_simp

theorem shell_session_witness:
  "\<exists>k' args'. shell_main (typist_hw session_keys) 0x2000 0x1000 2 (kernel_up, replicate 16 None) = Inr (k', args') \<and>
     com1 k' = concat banner @ str_bytes ''AetherOS> echo hi'' @ [13, 10] @ str_bytes ''hi'' @ [10] @
       str_bytes ''AetherOS> x'' @ [13, 10] @ not_found_text [120]"
proof -
  obtain f where s: "session_spec 2 (input session_keys kernel_up) =
      Some (str_bytes ''AetherOS> echo hi'' @ [13, 10] @ str_bytes ''hi'' @ [10] @
        str_bytes ''AetherOS> x'' @ [13, 10] @ not_found_text [120], f, [])"
    using session_example unfolding kernel_up_input session_text by blast
  have r: "shell_ready session_keys (kernel_up, replicate 16 None)" by (simp add: shell_ready_def kernel_up_input)
  have c: "com1 kernel_up = []" by (simp add: com1_def)
  have "(0x2000 :: u32) \<noteq> 0" "(0x1000 :: u32) \<noteq> 0" by simp_all
  from shell_session [OF typist_hw_drains typist_typist_hw this r s] show ?thesis unfolding c by auto
qed

end
