(* ===== verification/Kbd_Race.thy ===== *)
theory Kbd_Race
  imports Keyboard "HOL-Library.Sublist"
begin

text \<open>
  \<open>keyboard_getchar\<close> runs with interrupts enabled (in \<open>SYS_READ\<close> and \<open>keyboard_read_char\<close>), so
  a handler may call \<open>keyboard_put_char\<close> between any two of its statements. Here the
  function is given statement by statement, and interleaved with arriving characters; a handler
  itself is not interrupted, since its gate clears the interrupt flag. C leaves open
  whether \<open>kbd_buf_count--\<close> is one access to memory or a load and a store; both are modelled,
  by the parameter \<open>single\<close>.
\<close>

datatype get_pc = G_check | G_char | G_head byte | G_count byte | G_store byte u32 | G_done int

fun get_step :: "bool \<Rightarrow> get_pc \<times> kbd_state \<Rightarrow> (get_pc \<times> kbd_state) option" where
  "get_step single (G_check, s) = Some (if kbd_buf_count s = 0 then G_done (-1) else G_char, s)"
| "get_step single (G_char, s) = Some (G_head (kbd_buffer s ! unat (kbd_buf_head s)), s)"
| "get_step single (G_head c, s) = Some (G_count c, s\<lparr>kbd_buf_head := (kbd_buf_head s + 1) mod 256\<rparr>)"
| "get_step single (G_count c, s) =
     (if single then Some (G_done (uint c), s\<lparr>kbd_buf_count := kbd_buf_count s - 1\<rparr>)
      else Some (G_store c (kbd_buf_count s), s))"
| "get_step single (G_store c n, s) = Some (G_done (uint c), s\<lparr>kbd_buf_count := n - 1\<rparr>)"
| "get_step single (G_done r, s) = None"

text \<open>The function run alone: five statements at most, and the fuel is enough.\<close>

fun get_run :: "nat \<Rightarrow> bool \<Rightarrow> get_pc \<times> kbd_state \<Rightarrow> get_pc \<times> kbd_state" where
  "get_run 0 single st = st"
| "get_run (Suc n) single st = (case get_step single st of None \<Rightarrow> st | Some st' \<Rightarrow> get_run n single st')"

text \<open>
  Executions from \<open>s0\<close>: the reader at \<open>pc\<close>, the driver's state, and the characters that
  arrived so far.
\<close>

inductive interleaved :: "bool \<Rightarrow> kbd_state \<Rightarrow> get_pc \<Rightarrow> kbd_state \<Rightarrow> byte list \<Rightarrow> bool" for single s0 where
  start: "interleaved single s0 G_check s0 []"
| reader: "interleaved single s0 pc s cs \<Longrightarrow> get_step single (pc, s) = Some (pc', s') \<Longrightarrow> interleaved single s0 pc' s' cs"
| arrival: "interleaved single s0 pc s cs \<Longrightarrow> interleaved single s0 pc (keyboard_put_char c s) (cs @ [c])"

text \<open>
  The statements are the function: run without interruption, with either reading of
  the decrement, they end with the result and the state of \<open>keyboard_getchar\<close>.
\<close>

lemma getchar_statements_agree:
  "get_run 5 single (G_check, s) = (case keyboard_getchar s of (r, s') \<Rightarrow> (G_done r, s'))"
  by (simp add: numeral_eq_Suc keyboard_getchar_def Let_def)

section \<open>A single decrement\<close>

text \<open>
  The queue the two sides share: while the reader is between taking the head and the
  decrement, the character in its hand still counts.
\<close>

fun queue_view :: "get_pc \<Rightarrow> kbd_state \<Rightarrow> byte list \<Rightarrow> bool" where
  "queue_view G_check s q \<longleftrightarrow> kbd_inv s \<and> kbd_pending s = q"
| "queue_view G_char s q \<longleftrightarrow> kbd_inv s \<and> kbd_pending s = q \<and> q \<noteq> []"
| "queue_view (G_head c) s q \<longleftrightarrow> kbd_inv s \<and> kbd_pending s = q \<and> q \<noteq> [] \<and> c = hd q"
| "queue_view (G_count c) s q \<longleftrightarrow> (\<exists>t. s = t\<lparr>kbd_buf_count := kbd_buf_count t + 1\<rparr> \<and> kbd_inv t \<and>
     unat (kbd_buf_count t) < 256 \<and> q = c # kbd_pending t)"
| "queue_view (G_store c n) s q \<longleftrightarrow> False"
| "queue_view (G_done r) s q \<longleftrightarrow> kbd_inv s \<and> (if r = -1 then kbd_pending s = q else \<exists>c. r = uint c \<and> q = c # kbd_pending s)"

lemma pending_head:
  assumes "kbd_inv s" "kbd_pending s = q" "q \<noteq> []"
  shows "kbd_buffer s ! unat (kbd_buf_head s) = hd q"
proof -
  have "0 < unat (kbd_buf_count s)" using assms(2,3) length_kbd_pending [of s] by (metis length_greater_0_conv)
  moreover have "unat (kbd_buf_head s) < 256" using assms(1) by (simp add: kbd_inv_def)
  ultimately show ?thesis using assms(2) by (auto simp: kbd_pending_def hd_map)
qed

lemma take_head:
  assumes "kbd_inv s" "kbd_pending s = q" "q \<noteq> []"
  shows "queue_view (G_count (hd q)) (s\<lparr>kbd_buf_head := (kbd_buf_head s + 1) mod 256\<rparr>) q"
proof -
  let ?t = "snd (keyboard_getchar s)"
  have n: "0 < unat (kbd_buf_count s)" using assms(2,3) length_kbd_pending [of s] by (metis length_greater_0_conv)
  then have nz: "kbd_buf_count s \<noteq> 0" by auto
  then have t: "?t = s\<lparr>kbd_buf_head := (kbd_buf_head s + 1) mod 256, kbd_buf_count := kbd_buf_count s - 1\<rparr>"
    by (simp add: keyboard_getchar_def Let_def)
  have "unat (kbd_buf_count s - 1) = unat (kbd_buf_count s) - 1" using n by (simp add: unat_sub u32_nat)
  moreover have "unat (kbd_buf_count s) \<le> 256" using assms(1) by (simp add: kbd_inv_def)
  ultimately have "unat (kbd_buf_count ?t) < 256" using n by (simp add: t)
  moreover have "q = hd q # kbd_pending ?t"
    using kbd_getchar_first [OF assms(1), of "hd q" "tl q"] assms(2,3) by simp
  ultimately show ?thesis
    using kbd_inv_getchar [OF assms(1)] by (simp add: t) (auto intro!: exI [of _ ?t] simp: t)
qed

lemma count_zero: "kbd_buf_count s = 0 \<longleftrightarrow> kbd_pending s = []"
  using length_kbd_pending [of s] by (metis length_0_conv unat_eq_zero)

lemma reader_view:
  assumes "get_step True (pc, s) = Some (pc', s')" "queue_view pc s q"
  shows "queue_view pc' s' q \<and> (pc' = G_done (-1) \<longrightarrow> q = [])"
proof (cases pc)
  case G_check
  with assms show ?thesis using count_zero [of s] by (auto split: if_splits)
next
  case G_char
  with assms show ?thesis using pending_head [of s q] by auto
next
  case (G_head c)
  with assms have "pc' = G_count (hd q)" "s' = s\<lparr>kbd_buf_head := (kbd_buf_head s + 1) mod 256\<rparr>"
    "kbd_inv s" "kbd_pending s = q" "q \<noteq> []"
    by auto
  then show ?thesis using take_head [of s q] by blast
next
  case (G_count c)
  with assms obtain t where "s = t\<lparr>kbd_buf_count := kbd_buf_count t + 1\<rparr>" "kbd_inv t" "q = c # kbd_pending t"
    by auto
  with assms(1) G_count have "pc' = G_done (uint c)" "s' = t" by auto
  with \<open>kbd_inv t\<close> \<open>q = c # kbd_pending t\<close> show ?thesis by simp
qed (use assms in auto)

lemma arrival_between:
  assumes "kbd_inv t" "unat (kbd_buf_count t) < 256"
  shows "\<exists>t'. keyboard_put_char c (t\<lparr>kbd_buf_count := kbd_buf_count t + 1\<rparr>) = t'\<lparr>kbd_buf_count := kbd_buf_count t' + 1\<rparr> \<and>
    kbd_inv t' \<and> unat (kbd_buf_count t') < 256 \<and>
    kbd_pending t' = (if Suc (unat (kbd_buf_count t)) < 256 then kbd_pending t @ [c] else kbd_pending t)"
proof (cases "Suc (unat (kbd_buf_count t)) < 256")
  case True
  then have u: "unat (kbd_buf_count t + 1) = Suc (unat (kbd_buf_count t))" by (simp add: unat_add_u32)
  let ?t = "keyboard_put_char c t"
  have "kbd_buf_count t < 256" "kbd_buf_count t + 1 < 256" using True u by (simp_all add: u32_nat)
  then have "keyboard_put_char c (t\<lparr>kbd_buf_count := kbd_buf_count t + 1\<rparr>) = ?t\<lparr>kbd_buf_count := kbd_buf_count ?t + 1\<rparr>"
    "kbd_buf_count ?t = kbd_buf_count t + 1"
    by (simp_all add: keyboard_put_char_def)
  then show ?thesis
    using True u kbd_inv_put [OF assms(1), of c] kbd_pending_put [OF assms(1), of c] by (intro exI [of _ ?t]) simp
next
  case False
  then have "unat (kbd_buf_count t + 1) = 256" using assms(2) by (simp add: unat_add_u32)
  then have "\<not> kbd_buf_count t + 1 < 256" by (simp add: u32_nat)
  then show ?thesis using assms False by (intro exI [of _ t]) (simp add: keyboard_put_char_def)
qed

definition grows :: "byte list \<Rightarrow> byte \<Rightarrow> byte list \<Rightarrow> bool" where
  "grows q c q' \<longleftrightarrow> q' = q @ [c] \<or> q' = q \<and> 256 \<le> length q"

lemma put_grows: "kbd_inv s \<Longrightarrow> grows (kbd_pending s) c (kbd_pending (keyboard_put_char c s))"
  by (auto simp: grows_def kbd_pending_put)

lemma grows_hd: "grows q c q' \<Longrightarrow> q \<noteq> [] \<Longrightarrow> q' \<noteq> [] \<and> hd q' = hd q"
  by (auto simp: grows_def)

lemma grows_Cons: "grows q c q' \<Longrightarrow> grows (b # q) c (b # q')"
  by (auto simp: grows_def)

lemma arrival_view:
  assumes "queue_view pc s q"
  shows "\<exists>q'. grows q c q' \<and> queue_view pc (keyboard_put_char c s) q'"
proof (cases pc)
  case G_check
  with assms show ?thesis using kbd_inv_put [of s c] put_grows [of s c] by auto
next
  case G_char
  with assms show ?thesis using kbd_inv_put [of s c] put_grows [of s c] grows_hd by auto
next
  case (G_head b)
  with assms show ?thesis using kbd_inv_put [of s c] put_grows [of s c] grows_hd by auto
next
  case (G_count b)
  with assms obtain t where t: "s = t\<lparr>kbd_buf_count := kbd_buf_count t + 1\<rparr>" "kbd_inv t" "unat (kbd_buf_count t) < 256"
    "q = b # kbd_pending t"
    by auto
  from arrival_between [OF t(2,3), of c] obtain t' where
    "keyboard_put_char c s = t'\<lparr>kbd_buf_count := kbd_buf_count t' + 1\<rparr>" "kbd_inv t'" "unat (kbd_buf_count t') < 256"
    "kbd_pending t' = (if Suc (unat (kbd_buf_count t)) < 256 then kbd_pending t @ [c] else kbd_pending t)"
    unfolding t(1) by blast
  moreover from this t(3,4) have "grows q c (b # kbd_pending t')" by (auto simp: grows_def)
  ultimately show ?thesis unfolding G_count queue_view.simps by blast
next
  case (G_done r)
  with assms have "kbd_inv s" by simp
  show ?thesis
  proof (cases "r = -1")
    case True
    with G_done assms show ?thesis using kbd_inv_put [of s c] put_grows [of s c] by auto
  next
    case False
    with G_done assms show ?thesis
      using kbd_inv_put [of s c] grows_Cons [OF put_grows [OF \<open>kbd_inv s\<close>]] by auto
  qed
qed (use assms in auto)

lemma subseq_snoc: "subseq ds cs \<Longrightarrow> subseq ds (cs @ [c]) \<and> subseq (ds @ [c]) (cs @ [c])"
  by (simp add: list_emb_append_mono list_emb_prefix)

lemma interleaved_view:
  assumes "interleaved True s0 pc s cs" "kbd_inv s0"
  shows "\<exists>ds. subseq ds cs \<and> (length (kbd_pending s0) + length cs \<le> 256 \<longrightarrow> ds = cs) \<and>
    queue_view pc s (kbd_pending s0 @ ds) \<and> (pc = G_done (-1) \<longrightarrow> kbd_pending s0 = [])"
  using assms
proof (induction rule: interleaved.induct)
  case start
  then show ?case by (intro exI [of _ "[]"]) simp
next
  case (reader pc s cs pc' s')
  then obtain ds where "subseq ds cs" "length (kbd_pending s0) + length cs \<le> 256 \<longrightarrow> ds = cs"
    "queue_view pc s (kbd_pending s0 @ ds)"
    by blast
  with reader_view [OF reader.hyps(2) this(3)] show ?case by auto
next
  case (arrival pc s cs c)
  then obtain ds where ds: "subseq ds cs" "length (kbd_pending s0) + length cs \<le> 256 \<longrightarrow> ds = cs"
    "queue_view pc s (kbd_pending s0 @ ds)" "pc = G_done (-1) \<longrightarrow> kbd_pending s0 = []"
    by blast
  obtain q where q: "grows (kbd_pending s0 @ ds) c q" "queue_view pc (keyboard_put_char c s) q"
    using arrival_view [OF ds(3)] by blast
  from q(1) consider "q = kbd_pending s0 @ (ds @ [c])"
    | "q = kbd_pending s0 @ ds" "256 \<le> length (kbd_pending s0) + length ds"
    by (auto simp: grows_def)
  then show ?case
  proof cases
    case 1
    with ds q(2) subseq_snoc [OF ds(1), of c] show ?thesis by (intro exI [of _ "ds @ [c]"]) auto
  next
    case 2
    have "length ds \<le> length cs" using ds(1) by (rule list_emb_length)
    with 2 ds q(2) subseq_snoc [OF ds(1), of c] show ?thesis by (intro exI [of _ ds]) auto
  qed
qed

text \<open>
  C17: When the decrement is one access to memory, interrupts between the statements of
  \<open>keyboard_getchar\<close> are harmless, wherever and however often they come: when the function returns,
  the ring buffer is well formed, and what was pending followed by the accepted arrivals is the returned
  character followed by what is pending now. All arrivals are accepted, in order, when they fit, and \<open>-1\<close> is
  returned only if nothing was pending at the call.
\<close>

theorem getchar_interleaving_safe:
  assumes "kbd_inv s0" "interleaved True s0 (G_done r) s cs"
  shows "kbd_inv s \<and> (\<exists>ds. subseq ds cs \<and> (length (kbd_pending s0) + length cs \<le> 256 \<longrightarrow> ds = cs) \<and>
    (if r = -1 then kbd_pending s0 = [] \<and> kbd_pending s = ds
     else \<exists>c. r = uint c \<and> kbd_pending s0 @ ds = c # kbd_pending s))"
proof -
  obtain ds where "subseq ds cs" "length (kbd_pending s0) + length cs \<le> 256 \<longrightarrow> ds = cs"
    "queue_view (G_done r) s (kbd_pending s0 @ ds)" "r = -1 \<longrightarrow> kbd_pending s0 = []"
    using interleaved_view [OF assms(2,1)] by auto
  then show ?thesis by (intro conjI exI [of _ ds]) (auto split: if_splits)
qed

text \<open>One arriving character, after \<open>keyboard_getchar\<close> took the head and before the count changes.\<close>

definition one_key :: kbd_state where
  "one_key = keyboard_put_char 97 kbd_bss"

definition second_key :: kbd_state where
  "second_key = keyboard_put_char 98 (one_key\<lparr>kbd_buf_head := 1\<rparr>)"

lemmas one_key_defs = one_key_def second_key_def keyboard_put_char_def kbd_bss_def

lemma one_key_taken: "interleaved single one_key (G_count 97) (one_key\<lparr>kbd_buf_head := 1\<rparr>) []"
proof -
  have "interleaved single one_key G_char one_key []"
    by (rule interleaved.reader [OF interleaved.start]) (simp add: one_key_defs)
  then have "interleaved single one_key (G_head 97) one_key []"
    by (rule interleaved.reader) (simp add: one_key_defs)
  then show ?thesis by (rule interleaved.reader) (simp add: one_key_defs)
qed

theorem getchar_interleaving_safe_witness:
  "kbd_inv one_key \<and> interleaved True one_key (G_done 97) (second_key\<lparr>kbd_buf_count := 1\<rparr>) [98] \<and>
   kbd_inv (second_key\<lparr>kbd_buf_count := 1\<rparr>)"
proof -
  have "interleaved True one_key (G_count 97) second_key [98]"
    using interleaved.arrival [OF one_key_taken, of _ 98] by (simp add: second_key_def)
  then have "interleaved True one_key (G_done 97) (second_key\<lparr>kbd_buf_count := 1\<rparr>) [98]"
    by (rule interleaved.reader) (simp add: one_key_defs)
  moreover have "kbd_inv one_key" unfolding one_key_def by (intro kbd_inv_put kbd_inv_bss)
  ultimately show ?thesis using getchar_interleaving_safe by blast
qed

section \<open>A load and a store\<close>

text \<open>The reader that has loaded the count, with no key since its call.\<close>

lemma reader_alone:
  "interleaved False s0 pc s cs \<Longrightarrow> cs = [] \<Longrightarrow>
    (case pc of G_store c n \<Rightarrow> n = kbd_buf_count s0 \<and> n \<noteq> 0 \<and> c = kbd_buffer s0 ! unat (kbd_buf_head s0) \<and>
         s = s0\<lparr>kbd_buf_head := (kbd_buf_head s0 + 1) mod 256\<rparr>
     | G_count c \<Rightarrow> kbd_buf_count s0 \<noteq> 0 \<and> c = kbd_buffer s0 ! unat (kbd_buf_head s0) \<and>
         s = s0\<lparr>kbd_buf_head := (kbd_buf_head s0 + 1) mod 256\<rparr>
     | G_head c \<Rightarrow> kbd_buf_count s0 \<noteq> 0 \<and> c = kbd_buffer s0 ! unat (kbd_buf_head s0) \<and> s = s0
     | G_char \<Rightarrow> kbd_buf_count s0 \<noteq> 0 \<and> s = s0
     | G_check \<Rightarrow> s = s0
     | G_done r \<Rightarrow> True)"
proof (induction rule: interleaved.induct)
  case (reader pc s cs pc' s')
  then show ?case by (cases pc) auto
qed simp_all

text \<open>
  What can happen to the driver afterwards: further keys, further reads. The count has lost
  one: the tail is one ahead of head and count.
\<close>

datatype kbd_op = Put byte | Get

fun kbd_do :: "kbd_op \<Rightarrow> kbd_state \<Rightarrow> kbd_state" where
  "kbd_do (Put c) s = keyboard_put_char c s"
| "kbd_do Get s = snd (keyboard_getchar s)"

definition one_ahead :: "kbd_state \<Rightarrow> bool" where
  "one_ahead s \<longleftrightarrow> unat (kbd_buf_tail s) = Suc (unat (kbd_buf_head s) + unat (kbd_buf_count s)) mod 256"

lemma unat_wrap: "unat ((x + 1) mod 256 :: u32) = Suc (unat x) mod 256"
proof -
  have "Suc (unat x) mod 4294967296 mod 256 = Suc (unat x) mod 256" by (rule mod_mod_cancel) simp
  then show ?thesis by (simp add: unat_mod unat_word_ariths(1))
qed

lemma wrap_sum: "Suc (Suc a mod 256 + b) mod 256 = Suc (a + Suc b) mod 256"
  using mod_add_left_eq [of "Suc a" 256 "Suc b"] by simp

lemma unat_pred_Suc: "(x :: u32) \<noteq> 0 \<Longrightarrow> unat x = Suc (unat (x - 1))"
proof -
  assume "x \<noteq> 0"
  then have "0 < unat x" by (simp add: unat_gt_0)
  then show "unat x = Suc (unat (x - 1))" by (simp add: unat_sub u32_nat)
qed

lemma one_ahead_not_inv: "one_ahead s \<Longrightarrow> \<not> kbd_inv s"
proof -
  have "Suc n mod 256 \<noteq> n mod 256" for n :: nat by (simp add: mod_Suc)
  then show "one_ahead s \<Longrightarrow> \<not> kbd_inv s" unfolding one_ahead_def kbd_inv_def by metis
qed

lemma one_ahead_do:
  assumes "one_ahead s"
  shows "one_ahead (kbd_do op s)"
proof (cases op)
  case (Put c)
  have "unat (kbd_buf_count s + 1) = Suc (unat (kbd_buf_count s))" if "kbd_buf_count s < 256"
    using that by (subst unat_add_u32) (simp_all add: u32_nat)
  then show ?thesis using assms Put by (simp add: one_ahead_def keyboard_put_char_def unat_wrap mod_Suc_eq)
next
  case Get
  show ?thesis
  proof (cases "kbd_buf_count s = 0")
    case False
    then have "unat (kbd_buf_count s) = Suc (unat (kbd_buf_count s - 1))" by (rule unat_pred_Suc)
    with False assms Get show ?thesis by (simp add: one_ahead_def keyboard_getchar_def unat_wrap wrap_sum Let_def)
  qed (use assms Get in \<open>simp add: keyboard_getchar_def\<close>)
qed

lemma one_ahead_fold: "one_ahead s \<Longrightarrow> one_ahead (fold kbd_do ops s)"
  by (induction ops arbitrary: s) (simp_all add: one_ahead_do)

text \<open>The slot behind the pending characters is none of theirs.\<close>

lemma slot_free:
  assumes "Suc i < n" "n < 256"
  shows "(Suc h mod 256 + i) mod 256 \<noteq> (h + n) mod 256"
proof
  assume "(Suc h mod 256 + i) mod 256 = (h + n) mod 256"
  then have "(h + n) mod 256 = (h + Suc i) mod 256" using mod_add_left_eq [of "Suc h" 256 i] by simp
  then have "256 dvd n - Suc i" using mod_eq_dvd_iff_nat [of "h + Suc i" "h + n" 256] assms(1) by simp
  with assms show False using dvd_imp_le [of 256 "n - Suc i"] by simp
qed

text \<open>
  C40: When the decrement is a load and a store, a key that arrives between the two is lost,
  whatever the buffer holds: from a well-formed buffer with room, let \<open>keyboard_getchar\<close> have loaded the
  count, and let a key be stored then by the interrupt handler. The function returns the first
  character as it should, but what is pending afterwards are the remaining old characters without the
  new one, since the store overwrites the handler's increment. The bookkeeping is wrong
  then and stays wrong, over every sequence of further keys and reads.
\<close>

theorem getchar_split_loses_key:
  assumes "kbd_inv s0" and "length (kbd_pending s0) < 256" and "interleaved False s0 (G_store a n) s []"
  shows "\<exists>s'. get_step False (G_store a n, keyboard_put_char c s) = Some (G_done (uint a), s') \<and>
    kbd_pending s0 = a # kbd_pending s' \<and> (\<forall>ops. \<not> kbd_inv (fold kbd_do ops s'))"
proof -
  have r: "n = kbd_buf_count s0" "n \<noteq> 0" "a = kbd_buffer s0 ! unat (kbd_buf_head s0)"
    "s = s0\<lparr>kbd_buf_head := (kbd_buf_head s0 + 1) mod 256\<rparr>"
    using reader_alone [OF assms(3)] by auto
  let ?g = "snd (keyboard_getchar s0)" and ?s = "(keyboard_put_char c s)\<lparr>kbd_buf_count := n - 1\<rparr>"
  have lt: "unat n < 256" using assms(2) r(1) by simp
  have inv: "length (kbd_buffer s0) = 256" "unat (kbd_buf_head s0) < 256"
    "unat (kbd_buf_tail s0) = (unat (kbd_buf_head s0) + unat n) mod 256"
    using assms(1) r(1) by (simp_all add: kbd_inv_def)
  have dec: "unat n = Suc (unat (n - 1))" using r(2) by (rule unat_pred_Suc)
  have s: "?s = s0\<lparr>kbd_buffer := (kbd_buffer s0)[unat (kbd_buf_tail s0) := c], kbd_buf_tail := (kbd_buf_tail s0 + 1) mod 256,
      kbd_buf_head := (kbd_buf_head s0 + 1) mod 256, kbd_buf_count := n - 1\<rparr>"
    using lt r by (simp add: keyboard_put_char_def u32_nat)
  have "one_ahead ?s"
    using inv(3) dec unfolding s one_ahead_def by (simp add: unat_wrap wrap_sum mod_Suc_eq)
  then have "one_ahead (fold kbd_do ops ?s)" for ops by (rule one_ahead_fold)
  moreover have "kbd_pending s0 = a # kbd_pending ?s"
  proof -
    have old: "kbd_pending s0 = a # kbd_pending ?g"
      using kbd_getchar_first [OF assms(1), of "hd (kbd_pending s0)" "tl (kbd_pending s0)"] pending_head [OF assms(1) refl] r dec
      by (metis length_0_conv length_kbd_pending list.exhaust_sel nat.distinct(1) snd_conv)
    have "(kbd_buffer s0)[unat (kbd_buf_tail s0) := c] ! ((Suc (unat (kbd_buf_head s0)) mod 256 + i) mod 256) =
        kbd_buffer s0 ! ((Suc (unat (kbd_buf_head s0)) mod 256 + i) mod 256)" if "i < unat (n - 1)" for i
      using slot_free [of i "unat n" "unat (kbd_buf_head s0)"] that lt dec inv(3) by simp
    then have "kbd_pending ?s = kbd_pending ?g"
      using r(1,2) unfolding s by (simp add: kbd_pending_def keyboard_getchar_def unat_wrap Let_def)
    with old show ?thesis by simp
  qed
  ultimately show ?thesis using one_ahead_not_inv by (intro exI [of _ ?s]) auto
qed

theorem getchar_split_loses_key_witness:
  "\<exists>s'. get_step False (G_store 97 1, second_key) = Some (G_done 97, s') \<and> kbd_pending s' = [] \<and>
     \<not> kbd_inv (fold kbd_do [Put 99, Get, Get] s')"
proof -
  have st: "interleaved False one_key (G_store 97 1) (one_key\<lparr>kbd_buf_head := 1\<rparr>) []"
    using one_key_taken by (rule interleaved.reader) (simp add: one_key_defs)
  have "kbd_inv one_key" unfolding one_key_def by (intro kbd_inv_put kbd_inv_bss)
  moreover have "kbd_pending one_key = [97]" by (simp add: one_key_defs kbd_pending_def)
  ultimately obtain s' where s': "get_step False (G_store 97 1, keyboard_put_char 98 (one_key\<lparr>kbd_buf_head := 1\<rparr>)) = Some (G_done (uint (97 :: byte)), s')"
    "[97] = 97 # kbd_pending s'" "\<forall>ops. \<not> kbd_inv (fold kbd_do ops s')"
    using getchar_split_loses_key [OF _ _ st, of 98] by auto
  have u: "uint (97 :: byte) = 97" by simp
  have "kbd_pending s' = []" using s'(2) by simp
  with s'(1) [unfolded u] spec [OF s'(3), of "[Put 99, Get, Get]"] show ?thesis unfolding second_key_def by blast
qed

end
