(* ===== verification/Syscall_Safety.thy ===== *)
theory Syscall_Safety
  imports Syscall
begin

text \<open>
  What holds of \<open>SYS_READ\<close> on every machine, whatever interrupts arrive while it waits: it
  writes only into the buffer it was given. And what does not hold: a key pressed between
  the empty check and the \<open>hlt\<close> instruction does not by itself wake the reader.
\<close>

section \<open>Interrupts leave user memory alone\<close>

lemma interrupt_mem:
  assumes "interrupt_handler hw n k = Some k'"
  shows "k_mem k' = k_mem k"
proof -
  have r: "k_mem (report_exception n k) = k_mem k" by (simp add: report_exception_def Let_def)
  obtain k1 where k1: "k_mem k' = k_mem k1" "(case (if n < 256 then k_tbl k (ucast n) else None) of
      Some h \<Rightarrow> run_handler hw h k | None \<Rightarrow> Some (if n < 32 then report_exception n k else k)) = Some k1"
    using assms by (auto simp: interrupt_handler_def bind_eq_Some_conv split: if_splits)
  show ?thesis
  proof (cases "if n < 256 then k_tbl k (ucast n) else None")
    case None
    with k1 r show ?thesis by (auto split: if_splits)
  next
    case (Some h)
    with k1 run_handler_frame [of hw h k k1] show ?thesis by auto
  qed
qed

lemma irq_point_mem: "irq_point hw k = Some k' \<Longrightarrow> k_mem k' = k_mem k"
  by (auto simp: irq_point_def interrupt_mem split: if_splits option.splits)

lemma cpu_hlt_mem: "cpu_hlt hw k = Some k' \<Longrightarrow> k_mem k' = k_mem k"
  using interrupt_mem by (fastforce simp: cpu_hlt_def Let_def split: if_splits option.splits)

lemma k_serial_write_mem: "k_serial_write hw buf k = Some k' \<Longrightarrow> k_mem k' = k_mem k"
  by (auto simp: k_serial_write_def bind_eq_Some_conv)

lemma sys_read_fetch_mem: "k_mem (snd (sys_read_fetch hw k)) = k_mem k"
  by (simp add: sys_read_fetch_def Let_def split_def)

lemma sys_read_store_mem: "sys_read_store hw a c k = Some k' \<Longrightarrow> k_mem k' = (k_mem k)(a := c)"
  by (auto simp: sys_read_store_def Let_def bind_eq_Some_conv)

lemmas mem_frames = irq_point_mem cpu_hlt_mem k_serial_write_mem sys_read_fetch_mem

section \<open>The reader stays in its buffer\<close>

text \<open>Loop index within the buffer, memory outside the buffer as at the start.\<close>

definition read_frame :: "u32 \<Rightarrow> u32 \<Rightarrow> u32 \<Rightarrow> kernel \<Rightarrow> u32 \<times> kernel \<Rightarrow> bool" where
  "read_frame buf max_count idx k r \<longleftrightarrow>
     (idx \<le> max_count - 1 \<longrightarrow> fst r \<le> max_count - 1 \<and>
       (\<forall>x. \<not> in_obj buf (unat (max_count - 1)) x \<longrightarrow> k_mem (snd r) x = k_mem k x))"

lemma read_frame_mem: "read_frame buf m idx k1 r \<Longrightarrow> k_mem k1 = k_mem k \<Longrightarrow> read_frame buf m idx k r"
  by (simp add: read_frame_def)

lemma read_frame_erase:
  assumes "read_frame buf m (idx - 1) k1 r" "0 < idx" "k_mem k1 = k_mem k"
  shows "read_frame buf m idx k r"
proof -
  have "unat (idx - 1) = unat idx - 1" using assms(2) by (simp add: unat_sub u32_nat)
  with assms show ?thesis by (auto simp: read_frame_def u32_nat)
qed

lemma read_frame_store:
  assumes "read_frame buf m (idx + 1) k1 r" "idx < m - 1" "k_mem k1 = (k_mem k)(buf + idx := c)"
  shows "read_frame buf m idx k r"
proof -
  have "unat idx < unat (m - 1)" using assms(2) by (simp add: u32_nat)
  then have "unat idx + unat (1 :: u32) < 4294967296" using unat_lt_2p32 [of "m - 1"] by (simp only: unat_1)
  from unat_add_u32 [OF this] have "unat (idx + 1) = unat idx + 1" by simp
  then have "idx + 1 \<le> m - 1" using assms(2) by (simp add: u32_nat)
  moreover have "in_obj buf (unat (m - 1)) (buf + idx)" using assms(2) by (simp add: in_obj_def u32_nat)
  ultimately show ?thesis using assms(1,3) by (auto simp: read_frame_def)
qed

text \<open>One round, by what the fetched character makes the loop do next.\<close>

definition read_round :: "hardware \<Rightarrow> u32 \<Rightarrow> u32 \<Rightarrow> (u32 \<Rightarrow> kernel \<Rightarrow> (u32 \<times> kernel) option) \<Rightarrow> int \<Rightarrow> kernel \<Rightarrow> (u32 \<times> kernel) option" where
  "read_round hw buf idx next c k =
     (if c = -1 then Option.bind (irq_point hw k) (\<lambda>k. Option.bind (cpu_hlt hw k) (next idx))
      else if c = 0 \<or> c = 10 \<or> c = 13 then
        Option.bind (k_serial_write hw [13, 10] (k_fb_write [10] k)) (\<lambda>k. Some (idx, k))
      else if c = 8 \<or> c = 127 then
        (if idx > 0 then Option.bind (k_serial_write hw [8, 32, 8] (k_fb_write [8] k)) (next (idx - 1))
         else next idx k)
      else Option.bind (sys_read_store hw (buf + idx) (word_of_int c) k) (next (idx + 1)))"

lemma read_round_frame:
  assumes IH: "\<And>idx k r. next idx k = Some r \<Longrightarrow> read_frame buf m idx k r"
    and run: "read_round hw buf idx next c k = Some r" and lt: "idx < m - 1"
  shows "read_frame buf m idx k r"
proof -
  have echo: "k_mem k1 = k_mem k" if "k_serial_write hw b (k_fb_write a k) = Some k1" for a b k1
    using k_serial_write_mem [OF that] by simp
  consider (wait) "c = -1" | (eol) "c = 0 \<or> c = 10 \<or> c = 13" | (erase) "c = 8 \<or> c = 127" "idx > 0"
    | (skip) "c = 8 \<or> c = 127" "\<not> idx > 0" | (store) "c \<notin> {-1, 0, 10, 13, 8, 127}"
    by fastforce
  then show ?thesis
  proof cases
    case wait
    then obtain k1 k2 where "irq_point hw k = Some k1" "cpu_hlt hw k1 = Some k2" "next idx k2 = Some r"
      using run by (auto simp: read_round_def bind_eq_Some_conv)
    with read_frame_mem [OF IH] mem_frames show ?thesis by metis
  next
    case eol
    with run echo lt show ?thesis by (auto simp: read_round_def bind_eq_Some_conv read_frame_def)
  next
    case erase
    then obtain k1 where "k_serial_write hw [8, 32, 8] (k_fb_write [8] k) = Some k1" "next (idx - 1) k1 = Some r"
      using run by (auto simp: read_round_def bind_eq_Some_conv)
    with read_frame_erase [OF IH] erase(2) echo show ?thesis by blast
  next
    case skip
    with run have "next idx k = Some r" by (auto simp: read_round_def)
    then show ?thesis by (rule IH)
  next
    case store
    then obtain k1 where "sys_read_store hw (buf + idx) (word_of_int c) k = Some k1" "next (idx + 1) k1 = Some r"
      using run by (auto simp: read_round_def bind_eq_Some_conv)
    with read_frame_store [OF IH lt] sys_read_store_mem show ?thesis by blast
  qed
qed

lemma sys_read_loop_frame:
  assumes "sys_read_loop hw buf m idx k = Some r"
  shows "read_frame buf m idx k r"
proof (rule sys_read_loop.raw_induct [where P = "\<lambda>hw. read_frame", OF _ assms, folded read_round_def])
  fix rec and hw :: hardware and buf m idx :: u32 and k :: kernel and r :: "u32 \<times> kernel"
  assume IH: "\<And>hw buf m idx k r. rec hw buf m idx k = Some r \<Longrightarrow> read_frame buf m idx k r"
    and body: "(if idx < m - 1 then
        Option.bind (irq_point hw k) (\<lambda>k0.
          let c = fst (sys_read_fetch hw k0); k = snd (sys_read_fetch hw k0) in
          read_round hw buf idx (rec hw buf m) c k)
      else Some (idx, k)) = Some r"
  show "read_frame buf m idx k r"
  proof (cases "idx < m - 1")
    case False
    with body show ?thesis by (auto simp: read_frame_def)
  next
    case lt: True
    then obtain k0 where k0: "irq_point hw k = Some k0"
      "read_round hw buf idx (rec hw buf m) (fst (sys_read_fetch hw k0)) (snd (sys_read_fetch hw k0)) = Some r"
      using body by (auto simp: bind_eq_Some_conv Let_def)
    have "read_frame buf m idx (snd (sys_read_fetch hw k0)) r"
      by (rule read_round_frame [OF IH k0(2) lt])
    with read_frame_mem k0(1) mem_frames show ?thesis by metis
  qed
qed

lemma sys_read_within:
  assumes "do_syscall_in_C hw (Some r) k = Some (Some r', k')" and "r_eax r = SYS_READ" and "r_ebx r = 0"
  shows "(r_eax r' < r_edx r \<or> r_eax r' = 0) \<and>
    (\<forall>x. \<not> in_obj (r_ecx r) (unat (r_edx r)) x \<longrightarrow> k_mem k' x = k_mem k x)"
proof -
  let ?k = "k\<lparr>k_tr := enable_interrupts (k_tr k)\<rparr>"
  have run: "sys_read hw r k = Some (r', k')"
    using assms(1,2) by (auto simp: do_syscall_in_C_def syscall_defs bind_eq_Some_conv)
  show ?thesis
  proof (cases "r_ecx r = 0 \<or> r_edx r \<le> 1")
    case True
    then show ?thesis using run assms(3) by (auto simp: sys_read_def Let_def in_obj_def)
  next
    case False
    then obtain idx k1 where l: "sys_read_loop hw (r_ecx r) (r_edx r) 0 ?k = Some (idx, k1)"
      "r' = r\<lparr>r_eax := idx\<rparr>" "k' = k1\<lparr>k_mem := (k_mem k1)(r_ecx r + idx := 0)\<rparr>"
      using run assms(3) by (auto simp: sys_read_def Let_def bind_eq_Some_conv)
    have f: "idx \<le> r_edx r - 1" "\<forall>x. \<not> in_obj (r_ecx r) (unat (r_edx r - 1)) x \<longrightarrow> k_mem k1 x = k_mem k x"
      using sys_read_loop_frame [OF l(1)] by (simp_all add: read_frame_def)
    have u: "unat (r_edx r - 1) = unat (r_edx r) - 1" using False by (simp add: unat_sub u32_nat)
    then have lt: "unat idx < unat (r_edx r)" using f(1) False by (auto simp: u32_nat)
    have "k_mem k' x = k_mem k x" if "\<not> in_obj (r_ecx r) (unat (r_edx r)) x" for x
      using that f(2) l(3) lt u in_obj_mono [of "r_ecx r" "unat (r_edx r) - 1" x "unat (r_edx r)"] by (auto simp: in_obj_def)
    with l(2) lt show ?thesis by (simp add: u32_nat)
  qed
qed

text \<open>
  C23: \<open>SYS_READ\<close> from standard input never overruns the user's buffer: on every machine and
  under every sequence of interrupts, if the call returns, the count it returns is smaller
  than the capacity it was given (or both are 0), and every byte outside the buffer of that
  capacity is as before.
\<close>

theorem sys_read_stays_in_buffer:
  assumes "do_syscall_in_C hw (Some r) k = Some (Some r', k')" and "r_eax r = SYS_READ" and "r_ebx r = 0"
  shows "(r_eax r' < r_edx r \<or> r_eax r' = 0) \<and>
    (\<forall>x. \<not> in_obj (r_ecx r) (unat (r_edx r)) x \<longrightarrow> k_mem k' x = k_mem k x)"
  by (rule sys_read_within [OF assms])

theorem sys_read_stays_in_buffer_witness:
  "\<exists>r' k'. do_syscall_in_C (typist_hw sample_keys) (Some (user_regs 3 0 0x1000 16)) kernel_up = Some (Some r', k') \<and>
     r_eax r' = 2 \<and> k_mem k' 0x1010 = 0 \<and> k_mem k' 0xFFF = 0"
proof -
  let ?r = "user_regs 3 0 0x1000 16"
  have "line_edit (unat (r_edx ?r) - 1) [] (input sample_keys kernel_up)
      = Some ([108, 83], [], [108, 115, 8, 83, 10], [108, 115, 8, 32, 8, 83, 13, 10])"
    by (simp add: kernel_up_input sample_text user_regs_def also_echo_def)
  from sys_read_call [OF typist_hw_drains typist_typist_hw _ _ _ _ kernel_up_input(2) this]
  obtain k' where r: "do_syscall_in_C (typist_hw sample_keys) (Some ?r) kernel_up = Some (Some (?r\<lparr>r_eax := 2\<rparr>), k')"
    by (auto simp: user_regs_def syscall_defs)
  have "\<not> in_obj 0x1000 16 (0x1010 :: u32)" "\<not> in_obj 0x1000 16 (0xFFF :: u32)" by (simp_all add: in_obj_nowrap)
  with sys_read_stays_in_buffer [OF r] r show ?thesis by (auto simp: user_regs_def syscall_defs)
qed

section \<open>A lost wake-up\<close>

text \<open>The trace after an empty ring buffer sent the reader to the serial port.\<close>

abbreviation polled :: "hardware \<Rightarrow> trace \<Rightarrow> trace" where
  "polled hw tr \<equiv> In (SERIAL_LINE_STATUS_PORT SERIAL_COM1_BASE) (port_in hw tr (SERIAL_LINE_STATUS_PORT SERIAL_COM1_BASE)) # tr"

lemma fetch_nothing:
  assumes "kbd_pending (k_kbd k) = []" "port_in hw (k_tr k) (SERIAL_LINE_STATUS_PORT SERIAL_COM1_BASE) AND 1 = 0"
  shows "sys_read_fetch hw k = (-1, k\<lparr>k_tr := polled hw (k_tr k)\<rparr>)"
proof -
  have "kbd_buf_count (k_kbd k) = 0" using assms(1) length_kbd_pending [of "k_kbd k"] by (simp add: unat_eq_zero)
  then show ?thesis
    using assms(2) by (simp add: sys_read_fetch_def keyboard_getchar_def serial_read_char_def Let_def split_def)
qed

text \<open>A key that arrives while the buffer is empty is in the buffer.\<close>

lemma key_arrives:
  assumes "kbd_inv (k_kbd k)" "kbd_pending (k_kbd k) = []" "k_tbl k 33 = Some Keyboard_interrupt_handler"
    "interrupts_on (k_tr k)" "irq_line hw (k_tr k) = Some 33"
  obtains k' where "irq_point hw k = Some k'" "k_mem k' = k_mem k" "interrupts_on (k_tr k')"
    "kbd_pending (k_kbd k') = key_char (shift_active (k_kbd k)) (port_in hw (k_tr k) KBD_DATA_PORT)"
proof -
  let ?sc = "port_in hw (k_tr k) KBD_DATA_PORT"
  obtain s tr where h: "keyboard_interrupt_handler hw (k_kbd k, k_tr k) = (s, tr)" by fastforce
  have e: "tr = In KBD_DATA_PORT ?sc # k_tr k" "kbd_pending s = key_char (shift_active (k_kbd k)) ?sc"
    using keyboard_interrupt_effect [OF assms(1) refl h] assms(2) by (simp_all add: key_char_def Let_def)
  have "irq_point hw k = Some (k\<lparr>k_kbd := s, k_tr := pic_ack 33 tr\<rparr>)"
    using keyboard_irq_returns [OF assms(3), of hw] assms(4,5) h by (simp add: irq_point_def)
  with e assms(4) show ?thesis by (intro that [of "k\<lparr>k_kbd := s, k_tr := pic_ack 33 tr\<rparr>"]) (simp_all add: pic_ack_def)
qed

lemma reader_sleeps:
  assumes "idx < max_count - 1" "irq_point hw k = Some k" "sys_read_fetch hw k = (-1, k1)" "irq_point hw k1 = Some k2"
    "interrupts_on (k_tr k2)"
  shows "sys_read_loop hw buf max_count idx k = (case irq_line hw (Hlt # k_tr k2) of None \<Rightarrow> None
    | Some v \<Rightarrow> Option.bind (interrupt_handler hw (ucast v) (k2\<lparr>k_tr := Hlt # k_tr k2\<rparr>)) (sys_read_loop hw buf max_count idx))"
  using assms by (subst sys_read_loop.simps) (simp add: cpu_hlt_def Let_def split: option.split)

text \<open>
  C32: A reader can sleep on a typed character. In any round of the loop of \<open>SYS_READ\<close>, on any
  hardware: when the ring buffer and the UART are empty at the check, and a key interrupt
  arrives between the check and the \<open>hlt\<close> instruction, then its character is in the ring buffer, and
  the call halts nevertheless: it goes on only with a further interrupt, whatever that is (the
  release of the key, for instance), and does not return if none comes.
\<close>

theorem sys_read_lost_wakeup:
  assumes "idx < max_count - 1" and "interrupts_on (k_tr k)" and "kbd_inv (k_kbd k)" and "kbd_pending (k_kbd k) = []"
    and "k_tbl k 33 = Some Keyboard_interrupt_handler" and "irq_line hw (k_tr k) = None"
    and "port_in hw (k_tr k) (SERIAL_LINE_STATUS_PORT SERIAL_COM1_BASE) AND 1 = 0"
    and "irq_line hw (polled hw (k_tr k)) = Some 33"
  shows "\<exists>k'. kbd_pending (k_kbd k') = key_char (shift_active (k_kbd k)) (port_in hw (polled hw (k_tr k)) KBD_DATA_PORT) \<and>
    k_mem k' = k_mem k \<and>
    sys_read_loop hw buf max_count idx k = (case irq_line hw (Hlt # k_tr k') of None \<Rightarrow> None
      | Some v \<Rightarrow> Option.bind (interrupt_handler hw (ucast v) (k'\<lparr>k_tr := Hlt # k_tr k'\<rparr>)) (sys_read_loop hw buf max_count idx))"
proof -
  let ?k = "k\<lparr>k_tr := polled hw (k_tr k)\<rparr>"
  have point: "irq_point hw k = Some k" using assms(6) by (simp add: irq_point_def)
  obtain k' where k': "irq_point hw ?k = Some k'" "k_mem k' = k_mem ?k" "interrupts_on (k_tr k')"
    "kbd_pending (k_kbd k') = key_char (shift_active (k_kbd ?k)) (port_in hw (k_tr ?k) KBD_DATA_PORT)"
    by (rule key_arrives [of ?k hw]) (use assms in simp_all)
  from reader_sleeps [OF assms(1) point fetch_nothing [OF assms(4,7)] k'(1,3)] k'(2,4) show ?thesis by auto
qed

text \<open>
  A machine with an idle UART on which A is pressed just after the reader looked at
  the serial port, and the key is held down: no other interrupt follows.
\<close>

definition late_key_hw :: hardware where
  "late_key_hw =
     \<lparr>port_in = (\<lambda>tr p. if p = KBD_DATA_PORT then 0x1E else 0x20),
      irq_line = (\<lambda>tr. case tr of In p v # _ \<Rightarrow> Some 33 | _ \<Rightarrow> None)\<rparr>"

theorem sys_read_lost_wakeup_witness:
  "(\<exists>k'. kbd_pending (k_kbd k') = [97] \<and> cpu_hlt late_key_hw k' = None) \<and> sys_read_loop late_key_hw 0x1000 16 0 (kernel_up\<lparr>k_tr := [Sti]\<rparr>) = None \<and>
   do_syscall_in_C late_key_hw (Some (user_regs 3 0 0x1000 16)) kernel_up = None"
proof -
  let ?k = "kernel_up\<lparr>k_tr := [Sti]\<rparr>"
  have lt: "(0 :: u32) < 16 - 1" by simp
  have h: "irq_line late_key_hw (k_tr ?k) = None" "irq_line late_key_hw (polled late_key_hw (k_tr ?k)) = Some 33"
    "port_in late_key_hw (k_tr ?k) (SERIAL_LINE_STATUS_PORT SERIAL_COM1_BASE) AND 1 = 0" "irq_line late_key_hw (Hlt # tr) = None" for tr
    by (simp_all add: late_key_hw_def serial_port_defs KBD_DATA_PORT_def)
  have u: "interrupts_on (k_tr ?k)" "kbd_inv (k_kbd ?k)" "kbd_pending (k_kbd ?k) = []" "k_tbl ?k 33 = Some Keyboard_interrupt_handler"
    using kbd_inv_bss by (simp_all add: kbd_pending_def kbd_bss_def)
  have a: "key_char (shift_active (k_kbd ?k)) (port_in late_key_hw (polled late_key_hw (k_tr ?k)) KBD_DATA_PORT) = [97]"
    by (simp add: late_key_hw_def key_char_def kbd_bss_def kbd_us_ascii_def str_bytes_def Let_def)
  obtain k' :: kernel where k': "kbd_pending (k_kbd k') = [97]" "sys_read_loop late_key_hw 0x1000 16 0 ?k = None"
    using sys_read_lost_wakeup [OF lt u h(1,3,2), of "0x1000"] unfolding a h(4) by auto
  have "cpu_hlt late_key_hw k' = None" by (simp add: cpu_hlt_def h(4) Let_def)
  moreover have "\<not> (16 :: u32) \<le> 1" by (simp add: u32_nat)
  then have "do_syscall_in_C late_key_hw (Some (user_regs 3 0 0x1000 16)) kernel_up = None"
    using k'(2) by (simp add: do_syscall_in_C_def sys_read_def user_regs_def syscall_defs enable_interrupts_def)
  ultimately show ?thesis using k' by auto
qed

end
