(* ===== verification/Syscall_Mem.thy ===== *)
theory Syscall_Mem
  imports Syscall_Safety
begin

text \<open>
  What the kernel's entry points read of memory: interrupts nothing, system calls only the
  user's buffer. So a run can be replayed on a memory that differs elsewhere, and gives the same
  result; this is what lets the saved registers on the kernel's stack lie in the same memory.
\<close>

section \<open>Interrupts\<close>

lemma with_fb_mem: "with_fb f (k\<lparr>k_mem := m\<rparr>) = (with_fb f k)\<lparr>k_mem := m\<rparr>"
  by (simp add: with_fb_def split_def Let_def)

lemma run_handler_any_mem: "run_handler hw h (k\<lparr>k_mem := m\<rparr>) = map_option (\<lambda>k. k\<lparr>k_mem := m\<rparr>) (run_handler hw h k)"
  by (cases h; cases "serial_interrupt_handler hw (k_kbd k, k_tr k)") (simp_all add: run_handler_def split_def Let_def)

lemma report_any_mem: "report_exception n (k\<lparr>k_mem := m\<rparr>) = (report_exception n k)\<lparr>k_mem := m\<rparr>"
  by (simp add: report_exception_def Let_def with_fb_mem)

lemma interrupt_any_mem:
  "interrupt_handler hw n (k\<lparr>k_mem := m\<rparr>) = map_option (\<lambda>k. k\<lparr>k_mem := m\<rparr>) (interrupt_handler hw n k)"
proof -
  let ?h = "\<lambda>k. case (if n < 256 then k_tbl k (ucast n) else None) of
      Some h \<Rightarrow> run_handler hw h k | None \<Rightarrow> Some (if n < 32 then report_exception n k else k)"
  have "?h (k\<lparr>k_mem := m\<rparr>) = map_option (\<lambda>k. k\<lparr>k_mem := m\<rparr>) (?h k)"
    by (auto simp: run_handler_any_mem report_any_mem split: option.split)
  then show ?thesis
    unfolding interrupt_handler_def by (cases "?h k") auto
qed

lemma irq_point_any_mem: "irq_point hw (k\<lparr>k_mem := m\<rparr>) = map_option (\<lambda>k. k\<lparr>k_mem := m\<rparr>) (irq_point hw k)"
  by (auto simp: irq_point_def interrupt_any_mem split: option.split)

lemma mem_trace_swap: "k\<lparr>k_mem := m, k_tr := tr\<rparr> = k\<lparr>k_tr := tr, k_mem := m\<rparr>" for k :: kernel
  by simp

lemma cpu_hlt_any_mem: "cpu_hlt hw (k\<lparr>k_mem := m\<rparr>) = map_option (\<lambda>k. k\<lparr>k_mem := m\<rparr>) (cpu_hlt hw k)"
  using interrupt_any_mem [of hw _ m "k\<lparr>k_tr := Hlt # k_tr k\<rparr>"]
  by (auto simp: cpu_hlt_def Let_def mem_trace_swap split: option.split)

lemma k_serial_write_any_mem:
  "k_serial_write hw b (k\<lparr>k_mem := m\<rparr>) = map_option (\<lambda>k. k\<lparr>k_mem := m\<rparr>) (k_serial_write hw b k)"
  by (cases "serial_write hw SERIAL_COM1_BASE b (k_tr k)") (auto simp: k_serial_write_def split_def)

lemma fetch_any_mem:
  "sys_read_fetch hw (k\<lparr>k_mem := m\<rparr>) = (fst (sys_read_fetch hw k), (snd (sys_read_fetch hw k))\<lparr>k_mem := m\<rparr>)"
  by (simp add: sys_read_fetch_def split_def Let_def)

lemma store_any_mem:
  "sys_read_store hw a c (k\<lparr>k_mem := m\<rparr>) = map_option (\<lambda>k. k\<lparr>k_mem := m(a := c)\<rparr>) (sys_read_store hw a c k)"
  by (cases "serial_write_char hw SERIAL_COM1_BASE c (k_tr (k_fb_write [c] k))")
    (auto simp: sys_read_store_def split_def Let_def with_fb_def)

lemmas any_mem = interrupt_any_mem irq_point_any_mem cpu_hlt_any_mem k_serial_write_any_mem fetch_any_mem store_any_mem with_fb_mem

section \<open>The read loop\<close>

text \<open>
  A run from \<open>k\<close> that ended in \<open>r\<close>, replayed on the memory \<open>M\<close>: the same result, and where the
  memories agreed before, they agree after.
\<close>

definition same_run :: "kernel \<Rightarrow> memory \<Rightarrow> u32 \<times> kernel \<Rightarrow> (u32 \<times> kernel) option \<Rightarrow> bool" where
  "same_run k M r res \<longleftrightarrow> (\<exists>M'. res = Some (fst r, (snd r)\<lparr>k_mem := M'\<rparr>) \<and> (\<forall>x. M x = k_mem k x \<longrightarrow> M' x = k_mem (snd r) x))"

lemma same_run_done: "k_mem k1 = k_mem k \<Longrightarrow> same_run k M (i, k1) (Some (i, k1\<lparr>k_mem := M\<rparr>))"
  by (auto simp: same_run_def)

lemma same_run_mem: "same_run k1 M r res \<Longrightarrow> k_mem k1 = k_mem k \<Longrightarrow> same_run k M r res"
  by (simp add: same_run_def)

lemma same_run_store: "same_run k1 (M(a := c)) r res \<Longrightarrow> k_mem k1 = (k_mem k)(a := c) \<Longrightarrow> same_run k M r res"
  by (auto simp: same_run_def)

lemma same_round:
  assumes IH: "\<And>idx k r M. next idx k = Some r \<Longrightarrow> same_run k M r (next' idx (k\<lparr>k_mem := M\<rparr>))"
    and run: "read_round hw buf idx next c k = Some r"
  shows "same_run k M r (read_round hw buf idx next' c (k\<lparr>k_mem := M\<rparr>))"
proof -
  have echo: "k_mem k1 = k_mem k" if "k_serial_write hw b (k_fb_write a k) = Some k1" for a b k1
    using k_serial_write_mem [OF that] by simp
  consider (wait) "c = -1" | (eol) "c = 0 \<or> c = 10 \<or> c = 13" | (erase) "c = 8 \<or> c = 127" "idx > 0"
    | (skip) "c = 8 \<or> c = 127" "\<not> idx > 0" | (store) "c \<notin> {-1, 0, 10, 13, 8, 127}"
    by fastforce
  then show ?thesis
  proof cases
    case wait
    then obtain k1 k2 where "irq_point hw k = Some k1" "cpu_hlt hw k1 = Some k2" "next idx k2 = Some r"
      using run by (auto simp: read_round_def bind_eq_Some_conv)
    with wait same_run_mem [OF IH, of idx k2 r k M] irq_point_mem cpu_hlt_mem show ?thesis by (simp add: read_round_def any_mem)
  next
    case eol
    with run echo show ?thesis by (auto simp: read_round_def bind_eq_Some_conv any_mem intro!: same_run_done dest: echo)
  next
    case erase
    then obtain k1 where "k_serial_write hw [8, 32, 8] (k_fb_write [8] k) = Some k1" "next (idx - 1) k1 = Some r"
      using run by (auto simp: read_round_def bind_eq_Some_conv)
    with erase same_run_mem [OF IH, of "idx - 1" k1 r k M] echo show ?thesis by (auto simp: read_round_def any_mem)
  next
    case skip
    with run have "next idx k = Some r" by (auto simp: read_round_def)
    from IH [OF this] skip show ?thesis by (auto simp: read_round_def)
  next
    case store
    then obtain k1 where "sys_read_store hw (buf + idx) (word_of_int c) k = Some k1" "next (idx + 1) k1 = Some r"
      using run by (auto simp: read_round_def bind_eq_Some_conv)
    with store same_run_store [OF IH] sys_read_store_mem show ?thesis by (auto simp: read_round_def any_mem)
  qed
qed

lemma same_loop:
  assumes "sys_read_loop hw buf m idx k = Some r"
  shows "same_run k M r (sys_read_loop hw buf m idx (k\<lparr>k_mem := M\<rparr>))"
proof -
  have "\<forall>M. same_run k M r (sys_read_loop hw buf m idx (k\<lparr>k_mem := M\<rparr>))"
  proof (rule sys_read_loop.raw_induct [where P = "\<lambda>hw buf m idx k r. \<forall>M. same_run k M r (sys_read_loop hw buf m idx (k\<lparr>k_mem := M\<rparr>))",
        OF _ assms, folded read_round_def], rule allI)
    fix rec and hw :: hardware and buf m idx :: u32 and k :: kernel and r :: "u32 \<times> kernel" and M
    assume IH: "\<And>hw buf m idx k r. rec hw buf m idx k = Some r \<Longrightarrow> \<forall>M. same_run k M r (sys_read_loop hw buf m idx (k\<lparr>k_mem := M\<rparr>))"
      and body: "(if idx < m - 1 then
          Option.bind (irq_point hw k) (\<lambda>k0.
            let c = fst (sys_read_fetch hw k0); k = snd (sys_read_fetch hw k0) in
            read_round hw buf idx (rec hw buf m) c k)
        else Some (idx, k)) = Some r"
    have unfold: "sys_read_loop hw buf m idx k = (if idx < m - 1 then
          Option.bind (irq_point hw k) (\<lambda>k0. read_round hw buf idx (sys_read_loop hw buf m) (fst (sys_read_fetch hw k0)) (snd (sys_read_fetch hw k0)))
        else Some (idx, k))" for k
      by (subst sys_read_loop.simps) (simp add: read_round_def Let_def)
    show "same_run k M r (sys_read_loop hw buf m idx (k\<lparr>k_mem := M\<rparr>))"
    proof (cases "idx < m - 1")
      case True
      then obtain k0 where k0: "irq_point hw k = Some k0"
        "read_round hw buf idx (rec hw buf m) (fst (sys_read_fetch hw k0)) (snd (sys_read_fetch hw k0)) = Some r"
        using body by (auto simp: bind_eq_Some_conv Let_def)
      have "same_run (snd (sys_read_fetch hw k0)) M r (read_round hw buf idx (sys_read_loop hw buf m)
          (fst (sys_read_fetch hw k0)) ((snd (sys_read_fetch hw k0))\<lparr>k_mem := M\<rparr>))"
        by (rule same_round [OF _ k0(2)]) (use IH in blast)
      from same_run_mem [OF this] show ?thesis
        using True irq_point_mem [OF k0(1)] by (simp add: unfold any_mem k0(1) sys_read_fetch_mem)
    qed (use body in \<open>auto simp: unfold same_run_done\<close>)
  qed
  then show ?thesis ..
qed

section \<open>System calls\<close>

text \<open>The part of memory a call refers to.\<close>

definition syscall_buffer :: "pt_regs \<Rightarrow> u32 \<Rightarrow> bool" where
  "syscall_buffer r x \<longleftrightarrow> (r_eax r = SYS_READ \<or> r_eax r = SYS_WRITE) \<and> in_obj (r_ecx r) (unat (r_edx r)) x"

definition replays :: "kernel \<Rightarrow> memory \<Rightarrow> pt_regs \<times> kernel \<Rightarrow> (pt_regs \<times> kernel) option \<Rightarrow> bool" where
  "replays k M r res \<longleftrightarrow> (\<exists>M'. res = Some (fst r, (snd r)\<lparr>k_mem := M'\<rparr>) \<and> (\<forall>x. M x = k_mem k x \<longrightarrow> M' x = k_mem (snd r) x))"

lemma replay_read:
  assumes "sys_read hw r k = Some s"
  shows "replays k M s (sys_read hw r (k\<lparr>k_mem := M\<rparr>))"
proof (cases "r_ebx r = 0 \<and> r_ecx r \<noteq> 0 \<and> \<not> r_edx r \<le> 1")
  case True
  let ?k = "k\<lparr>k_tr := enable_interrupts (k_tr k)\<rparr>"
  obtain idx k1 where l: "sys_read_loop hw (r_ecx r) (r_edx r) 0 ?k = Some (idx, k1)"
    "s = (r\<lparr>r_eax := idx\<rparr>, k1\<lparr>k_mem := (k_mem k1)(r_ecx r + idx := 0)\<rparr>)"
    using assms True by (auto simp: sys_read_def Let_def bind_eq_Some_conv)
  obtain M' where "sys_read_loop hw (r_ecx r) (r_edx r) 0 (?k\<lparr>k_mem := M\<rparr>) = Some (idx, k1\<lparr>k_mem := M'\<rparr>)"
    "\<forall>x. M x = k_mem k x \<longrightarrow> M' x = k_mem k1 x"
    using same_loop [OF l(1), of M] by (auto simp: same_run_def)
  then show ?thesis
    using True by (auto simp: sys_read_def Let_def replays_def l(2) mem_trace_swap intro!: exI [of _ "M'(r_ecx r + idx := 0)"])
next
  case False
  then consider "r_ebx r \<noteq> 0" | "r_ebx r = 0" "r_ecx r = 0 \<or> r_edx r \<le> 1" by blast
  then show ?thesis
  proof cases
    case 2
    then show ?thesis
      using assms by (auto simp: sys_read_def replays_def Let_def
          intro!: exI [of _ "if r_ecx r \<noteq> 0 \<and> r_edx r = 1 then M(r_ecx r := 0) else M"])
  qed (use assms in \<open>auto simp: sys_read_def replays_def intro!: exI [of _ M]\<close>)
qed

lemma replay_write:
  assumes "sys_write hw r k = Some s" and "\<And>x. in_obj (r_ecx r) (unat (r_edx r)) x \<Longrightarrow> M x = k_mem k x"
  shows "replays k M s (sys_write hw r (k\<lparr>k_mem := M\<rparr>))"
proof -
  have "M (r_ecx r + word_of_nat i) = k_mem k (r_ecx r + word_of_nat i)" if "i < unat (r_edx r)" for i
    using assms(2) in_obj_offset [OF that, of "r_ecx r"] less_imp_le [OF unat_lt_2p32] by blast
  then have "read_bytes M (r_ecx r) (unat (r_edx r)) = read_bytes (k_mem k) (r_ecx r) (unat (r_edx r))"
    by (rule read_bytes_cong)
  then show ?thesis
    using assms(1) k_serial_write_mem
    by (fastforce simp: sys_write_def replays_def Let_def any_mem bind_eq_Some_conv split: if_splits intro: exI [of _ M])
qed

lemma replay_clear: "sys_clear hw r k = Some s \<Longrightarrow> replays k M s (sys_clear hw r (k\<lparr>k_mem := M\<rparr>))"
  using k_serial_write_mem by (fastforce simp: sys_clear_def replays_def any_mem bind_eq_Some_conv intro: exI [of _ M])

lemma replay_syscall:
  assumes "do_syscall_in_C hw (Some r) k = Some (Some r', k')" and "\<And>x. syscall_buffer r x \<Longrightarrow> M x = k_mem k x"
  shows "\<exists>M'. do_syscall_in_C hw (Some r) (k\<lparr>k_mem := M\<rparr>) = Some (Some r', k'\<lparr>k_mem := M'\<rparr>) \<and>
    (\<forall>x. M x = k_mem k x \<longrightarrow> M' x = k_mem k' x)"
proof -
  let ?call = "\<lambda>k. if r_eax r = SYS_WRITE then sys_write hw r k
            else if r_eax r = SYS_EXIT then Some (r\<lparr>r_eax := r_ebx r\<rparr>, k)
            else if r_eax r = SYS_CLEAR then sys_clear hw r k
            else if r_eax r = SYS_READ then sys_read hw r k
            else Some (r\<lparr>r_eax := - ENOSYS\<rparr>, k)"
  have "?call k = Some (r', k')" using assms(1) by (auto simp: do_syscall_in_C_def bind_eq_Some_conv)
  then have "replays k M (r', k') (?call (k\<lparr>k_mem := M\<rparr>))"
    using replay_read replay_clear replay_write [of hw r k _ M] assms(2)
    by (auto simp: syscall_buffer_def split: if_splits) (auto simp: replays_def)
  then show ?thesis unfolding do_syscall_in_C_def option.case by (auto simp: replays_def)
qed

end
