(* ===== verification/Gdt.thy ===== *)
theory Gdt
  imports Port_IO
begin

text \<open>
  \<open>arch/x86/cpu/gdt.c\<close>: the global descriptor table and the task state segment. The
  static arrays are records of their fields; the addresses of \<open>gdt\<close> and \<open>tss\<close> are parameters. How
  the processor reads a segment descriptor is defined separately (\<open>seg_base\<close>, \<open>seg_limit\<close>,
  \<open>seg_dpl\<close>, ...), and the table is checked against that reading.
\<close>

record gdt_entry =
  limit_low :: u16
  base_low :: u16
  base_middle :: byte
  access :: byte
  granularity :: byte
  base_high :: byte

record tss_entry =
  prev_tss :: u32
  t_esp0 :: u32
  t_ss0 :: u32
  t_esp1 :: u32
  t_ss1 :: u32
  t_esp2 :: u32
  t_ss2 :: u32
  t_cr3 :: u32
  t_eip :: u32
  t_eflags :: u32
  t_eax :: u32
  t_ecx :: u32
  t_edx :: u32
  t_ebx :: u32
  t_esp :: u32
  t_ebp :: u32
  t_esi :: u32
  t_edi :: u32
  t_es :: u32
  t_cs :: u32
  t_ss :: u32
  t_ds :: u32
  t_fs :: u32
  t_gs :: u32
  t_ldt :: u32
  t_trap :: u16
  t_iomap_base :: u16

record gdt_state =
  gdt :: "gdt_entry list"
  gdtr_limit :: u16
  gdtr_base :: u32
  tss :: tss_entry

definition SEGMENT_KERNEL_CS :: u32 where "SEGMENT_KERNEL_CS = 0x08"
definition SEGMENT_KERNEL_DS :: u32 where "SEGMENT_KERNEL_DS = 0x10"
definition SEGMENT_USER_CS :: u32 where "SEGMENT_USER_CS = 0x18"
definition SEGMENT_USER_DS :: u32 where "SEGMENT_USER_DS = 0x20"
definition SEGMENT_TSS :: u32 where "SEGMENT_TSS = 0x28"
definition USER_CS_SELECTOR :: u32 where "USER_CS_SELECTOR = SEGMENT_USER_CS OR 0x3"
definition USER_DS_SELECTOR :: u32 where "USER_DS_SELECTOR = SEGMENT_USER_DS OR 0x3"

lemmas segment_defs = SEGMENT_KERNEL_CS_def SEGMENT_KERNEL_DS_def SEGMENT_USER_CS_def
  SEGMENT_USER_DS_def SEGMENT_TSS_def USER_CS_SELECTOR_def USER_DS_SELECTOR_def

abbreviation (input) GDT_ENTRIES :: "'a::numeral" where "GDT_ENTRIES \<equiv> 6"
abbreviation (input) SIZEOF_GDT_ENTRY :: "'a::numeral" where "SIZEOF_GDT_ENTRY \<equiv> 8"
abbreviation (input) SIZEOF_TSS_ENTRY :: "'a::numeral" where "SIZEOF_TSS_ENTRY \<equiv> 104"

definition gdt_set_gate :: "nat \<Rightarrow> u32 \<Rightarrow> u32 \<Rightarrow> byte \<Rightarrow> byte \<Rightarrow> gdt_state \<Rightarrow> gdt_state" where
  "gdt_set_gate num base limit acc gran g =
     g\<lparr>gdt := (gdt g)[num :=
        \<lparr>limit_low = ucast (limit AND 0xFFFF),
         base_low = ucast (base AND 0xFFFF),
         base_middle = ucast (drop_bit 16 base AND 0xFF),
         access = acc,
         granularity = ucast (drop_bit 16 limit AND 0x0F) OR (gran AND 0xF0),
         base_high = ucast (drop_bit 24 base AND 0xFF)\<rparr>]\<rparr>"

definition tss_zero :: tss_entry where
  "tss_zero = \<lparr>prev_tss = 0, t_esp0 = 0, t_ss0 = 0, t_esp1 = 0, t_ss1 = 0, t_esp2 = 0, t_ss2 = 0, t_cr3 = 0,
     t_eip = 0, t_eflags = 0, t_eax = 0, t_ecx = 0, t_edx = 0, t_ebx = 0, t_esp = 0, t_ebp = 0, t_esi = 0,
     t_edi = 0, t_es = 0, t_cs = 0, t_ss = 0, t_ds = 0, t_fs = 0, t_gs = 0, t_ldt = 0, t_trap = 0,
     t_iomap_base = 0\<rparr>"

definition write_tss :: "u32 \<Rightarrow> nat \<Rightarrow> u16 \<Rightarrow> u32 \<Rightarrow> gdt_state \<Rightarrow> gdt_state" where
  "write_tss tss_addr num ss0 esp0 g =
     (let base = tss_addr;
          limit = SIZEOF_TSS_ENTRY - 1;
          g = gdt_set_gate num base limit 0x89 0x00 g
      in g\<lparr>tss := tss_zero\<lparr>t_ss0 := ucast ss0, t_esp0 := esp0, t_cs := SEGMENT_KERNEL_CS OR 0x3,
             t_gs := SEGMENT_KERNEL_DS OR 0x3, t_fs := SEGMENT_KERNEL_DS OR 0x3,
             t_es := SEGMENT_KERNEL_DS OR 0x3, t_ds := SEGMENT_KERNEL_DS OR 0x3,
             t_ss := SEGMENT_KERNEL_DS OR 0x3, t_iomap_base := SIZEOF_TSS_ENTRY\<rparr>\<rparr>)"

definition tss_set_kernel_stack :: "u32 \<Rightarrow> gdt_state \<Rightarrow> gdt_state" where
  "tss_set_kernel_stack stack g = g\<lparr>tss := (tss g)\<lparr>t_esp0 := stack\<rparr>\<rparr>"

definition gdt_init :: "u32 \<Rightarrow> u32 \<Rightarrow> gdt_state \<times> trace \<Rightarrow> gdt_state \<times> trace" where
  "gdt_init gdt_addr tss_addr = (\<lambda>(g, tr).
     let g = g\<lparr>gdtr_limit := SIZEOF_GDT_ENTRY * GDT_ENTRIES - 1, gdtr_base := gdt_addr\<rparr>;
         g = gdt_set_gate 0 0 0 0 0 g;
         g = gdt_set_gate 1 0 0xFFFFFFFF 0x9A 0xCF g;
         g = gdt_set_gate 2 0 0xFFFFFFFF 0x92 0xCF g;
         g = gdt_set_gate 3 0 0xFFFFFFFF 0xFA 0xCF g;
         g = gdt_set_gate 4 0 0xFFFFFFFF 0xF2 0xCF g;
         g = write_tss tss_addr 5 (ucast SEGMENT_KERNEL_DS) 0 g
     in (g, Ltr (ucast SEGMENT_TSS) # Lgdt (gdtr_limit g) (gdtr_base g) # tr))"

section \<open>How the processor reads a descriptor\<close>

definition seg_base :: "gdt_entry \<Rightarrow> u32" where
  "seg_base e = ucast (base_low e) OR push_bit 16 (ucast (base_middle e)) OR push_bit 24 (ucast (base_high e))"

definition seg_limit :: "gdt_entry \<Rightarrow> u32" where
  "seg_limit e = ucast (limit_low e) OR push_bit 16 (ucast (granularity e AND 0x0F))"

text \<open>The last valid offset: with the granularity bit set the limit counts 4 KiB pages.\<close>

definition seg_last :: "gdt_entry \<Rightarrow> u32" where
  "seg_last e = (if bit (granularity e) 7 then push_bit 12 (seg_limit e) OR 0xFFF else seg_limit e)"

definition seg_present :: "gdt_entry \<Rightarrow> bool" where "seg_present e \<longleftrightarrow> bit (access e) 7"
definition seg_dpl :: "gdt_entry \<Rightarrow> nat" where "seg_dpl e = unat (drop_bit 5 (access e) AND 3)"
definition seg_is_code_or_data :: "gdt_entry \<Rightarrow> bool" where "seg_is_code_or_data e \<longleftrightarrow> bit (access e) 4"
definition seg_executable :: "gdt_entry \<Rightarrow> bool" where "seg_executable e \<longleftrightarrow> bit (access e) 3"
definition seg_rw :: "gdt_entry \<Rightarrow> bool" where "seg_rw e \<longleftrightarrow> bit (access e) 1"
definition seg_is_tss32 :: "gdt_entry \<Rightarrow> bool" where "seg_is_tss32 e \<longleftrightarrow> access e AND 0x1F = 0x09"
definition seg_32bit :: "gdt_entry \<Rightarrow> bool" where "seg_32bit e \<longleftrightarrow> bit (granularity e) 6"

lemmas seg_defs = seg_base_def seg_limit_def seg_last_def seg_present_def seg_dpl_def
  seg_is_code_or_data_def seg_executable_def seg_rw_def seg_is_tss32_def seg_32bit_def

text \<open>The descriptor a selector names, and the privilege level it requests.\<close>

definition descriptor_of :: "gdt_state \<Rightarrow> u32 \<Rightarrow> gdt_entry" where
  "descriptor_of g sel = gdt g ! unat (drop_bit 3 sel)"

definition selector_rpl :: "u32 \<Rightarrow> nat" where
  "selector_rpl sel = unat (sel AND 3)"

section \<open>Properties\<close>

lemma low_nibble: "(g OR (h AND 0xF0)) AND 0x0F = (g AND 0x0F :: byte)"
  by (simp add: bit.conj_disj_distrib2 and.assoc)

lemma bit_high_nibble: "bit (0xF0 :: int) n \<Longrightarrow> 4 \<le> n"
proof (rule ccontr)
  assume b: "bit (0xF0 :: int) n" and "\<not> 4 \<le> n"
  then have "n \<in> {0, 1, 2, 3}" by auto
  with b show False by (auto simp: bit_numeral_rec)
qed

text \<open>
  A descriptor written by \<open>gdt_set_gate\<close> is read back by the processor as it was meant:
  the scattered fields give the 32-bit base, the low 20 bits of the limit, the access byte
  and the flags, and no other descriptor changes.
\<close>

lemma gdt_set_gate_roundtrip:
  assumes "num < length (gdt g)" and "e = gdt (gdt_set_gate num base limit acc gran g) ! num"
  shows "seg_base e = base \<and> seg_limit e = take_bit 20 limit \<and> access e = acc \<and>
    granularity e AND 0xF0 = gran AND 0xF0 \<and>
    (\<forall>k. k \<noteq> num \<longrightarrow> gdt (gdt_set_gate num base limit acc gran g) ! k = gdt g ! k)"
proof -
  let ?nib = "ucast (drop_bit 16 limit AND 0x0F) :: byte"
  have nib: "?nib AND 0x0F = ?nib" "?nib AND 0xF0 = 0"
    by (rule bit_word_eqI, auto simp: bit_simps bit_fields dest: bit_high_nibble)+
  have e: "e = \<lparr>limit_low = ucast (limit AND 0xFFFF), base_low = ucast (base AND 0xFFFF),
      base_middle = ucast (drop_bit 16 base AND 0xFF), access = acc,
      granularity = ?nib OR (gran AND 0xF0), base_high = ucast (drop_bit 24 base AND 0xFF)\<rparr>"
    using assms by (simp add: gdt_set_gate_def)
  have "seg_limit e = ucast (ucast limit :: u16) OR push_bit 16 (ucast ?nib)"
    by (simp add: e seg_limit_def low_nibble nib byte_fields and_ones(4))
  also have "\<dots> = take_bit 20 limit"
    by (rule bit_word_eqI) (auto simp: bit_simps bit_fields)
  finally have "seg_limit e = take_bit 20 limit" .
  moreover have "seg_base e = base"
    by (simp add: e seg_base_def byte_fields and_ones half_and_bytes)
  moreover have "granularity e AND 0xF0 = gran AND 0xF0"
    using nib(2) by (simp add: e bit.conj_disj_distrib2 and.assoc)
  ultimately show ?thesis by (simp add: e gdt_set_gate_def)
qed

definition gdt_bss :: gdt_state where
  "gdt_bss = \<lparr>gdt = replicate 6 \<lparr>limit_low = 0, base_low = 0, base_middle = 0, access = 0, granularity = 0, base_high = 0\<rparr>,
     gdtr_limit = 0, gdtr_base = 0, tss = tss_zero\<rparr>"

text \<open>A flat ring segment: present, base 0, every address up to \<open>0xFFFFFFFF\<close>, 32-bit.\<close>

definition flat_segment :: "nat \<Rightarrow> gdt_entry \<Rightarrow> bool" where
  "flat_segment ring e \<longleftrightarrow> seg_present e \<and> seg_is_code_or_data e \<and> seg_32bit e \<and> seg_rw e \<and>
     seg_base e = 0 \<and> seg_last e = 0xFFFFFFFF \<and> seg_dpl e = ring"

lemma gdt_init_table:
  assumes "length (gdt g) = 6"
  shows "gdt (fst (gdt_init gdt_addr tss_addr (g, tr))) =
    [\<lparr>limit_low = 0, base_low = 0, base_middle = 0, access = 0, granularity = 0, base_high = 0\<rparr>,
     \<lparr>limit_low = 0xFFFF, base_low = 0, base_middle = 0, access = 0x9A, granularity = 0xCF, base_high = 0\<rparr>,
     \<lparr>limit_low = 0xFFFF, base_low = 0, base_middle = 0, access = 0x92, granularity = 0xCF, base_high = 0\<rparr>,
     \<lparr>limit_low = 0xFFFF, base_low = 0, base_middle = 0, access = 0xFA, granularity = 0xCF, base_high = 0\<rparr>,
     \<lparr>limit_low = 0xFFFF, base_low = 0, base_middle = 0, access = 0xF2, granularity = 0xCF, base_high = 0\<rparr>,
     \<lparr>limit_low = 103, base_low = ucast tss_addr, base_middle = ucast (drop_bit 16 tss_addr), access = 0x89,
      granularity = 0, base_high = ucast (drop_bit 24 tss_addr)\<rparr>]"
proof -
  obtain e0 e1 e2 e3 e4 e5 where g: "gdt g = [e0, e1, e2, e3, e4, e5]"
    using assms by (auto simp: numeral_eq_Suc length_Suc_conv)
  show ?thesis
    by (simp add: gdt_init_def write_tss_def gdt_set_gate_def Let_def g and_ones(2,4) byte_fields)
qed

lemma flat_segments:
  "flat_segment 0 \<lparr>limit_low = 0xFFFF, base_low = 0, base_middle = 0, access = 0x9A, granularity = 0xCF, base_high = 0\<rparr>"
  "flat_segment 0 \<lparr>limit_low = 0xFFFF, base_low = 0, base_middle = 0, access = 0x92, granularity = 0xCF, base_high = 0\<rparr>"
  "flat_segment 3 \<lparr>limit_low = 0xFFFF, base_low = 0, base_middle = 0, access = 0xFA, granularity = 0xCF, base_high = 0\<rparr>"
  "flat_segment 3 \<lparr>limit_low = 0xFFFF, base_low = 0, base_middle = 0, access = 0xF2, granularity = 0xCF, base_high = 0\<rparr>"
  by (simp_all add: flat_segment_def seg_defs bit_numeral_rec)

lemma gdt_segments:
  assumes "length (gdt g) = 6" and "gdt_init gdt_addr tss_addr (g, tr) = (g', tr')"
  shows "flat_segment 0 (descriptor_of g' SEGMENT_KERNEL_CS) \<and> flat_segment 0 (descriptor_of g' SEGMENT_KERNEL_DS) \<and>
    flat_segment (selector_rpl USER_CS_SELECTOR) (descriptor_of g' USER_CS_SELECTOR) \<and>
    flat_segment (selector_rpl USER_DS_SELECTOR) (descriptor_of g' USER_DS_SELECTOR) \<and> selector_rpl USER_CS_SELECTOR = 3 \<and>
    seg_executable (descriptor_of g' SEGMENT_KERNEL_CS) \<and> \<not> seg_executable (descriptor_of g' SEGMENT_KERNEL_DS) \<and>
    seg_executable (descriptor_of g' USER_CS_SELECTOR) \<and> \<not> seg_executable (descriptor_of g' USER_DS_SELECTOR) \<and>
    seg_is_tss32 (descriptor_of g' SEGMENT_TSS) \<and> seg_present (descriptor_of g' SEGMENT_TSS) \<and>
    seg_base (descriptor_of g' SEGMENT_TSS) = tss_addr \<and> seg_last (descriptor_of g' SEGMENT_TSS) = 103 \<and>
    \<not> seg_present (descriptor_of g' 0) \<and> t_ss0 (tss g') = SEGMENT_KERNEL_DS \<and>
    tr' = Ltr 0x28 # Lgdt 47 gdt_addr # tr"
proof -
  have g': "gdt g' = gdt (fst (gdt_init gdt_addr tss_addr (g, tr)))" using assms(2) by simp
  have rpl: "selector_rpl USER_CS_SELECTOR = 3" "selector_rpl USER_DS_SELECTOR = 3"
    by (simp_all add: selector_rpl_def segment_defs)
  have tss: "t_ss0 (tss g') = SEGMENT_KERNEL_DS" "tr' = Ltr 0x28 # Lgdt 47 gdt_addr # tr"
    using assms(2) by (auto simp: gdt_init_def write_tss_def gdt_set_gate_def Let_def segment_defs tss_zero_def)
  show ?thesis
    unfolding rpl descriptor_of_def g' gdt_init_table [OF assms(1)]
    by (simp add: segment_defs flat_segments tss half_and_bytes
        seg_executable_def seg_is_tss32_def seg_present_def seg_base_def seg_last_def seg_limit_def bit_numeral_rec)
qed

text \<open>
  After \<open>gdt_init\<close> the selectors the kernel uses name the segments they are meant to:
  kernel code and data are flat ring 0 segments, user code and data flat ring 3 segments
  whose privilege matches the selectors' requested privilege, exactly the code segments
  are executable, the TSS descriptor is an available 32-bit TSS at the address of \<open>tss\<close>
  with its exact size, the ring 0 stack segment is the kernel's data segment, and the CPU
  is given the table's address and limit before the task register is loaded.
\<close>

lemma gdt_init_segments:
  assumes "length (gdt g) = 6" and "gdt_init gdt_addr tss_addr (g, tr) = (g', tr')"
  shows "flat_segment 0 (descriptor_of g' SEGMENT_KERNEL_CS) \<and> flat_segment 0 (descriptor_of g' SEGMENT_KERNEL_DS) \<and>
    flat_segment (selector_rpl USER_CS_SELECTOR) (descriptor_of g' USER_CS_SELECTOR) \<and>
    flat_segment (selector_rpl USER_DS_SELECTOR) (descriptor_of g' USER_DS_SELECTOR) \<and> selector_rpl USER_CS_SELECTOR = 3 \<and>
    seg_executable (descriptor_of g' SEGMENT_KERNEL_CS) \<and> \<not> seg_executable (descriptor_of g' SEGMENT_KERNEL_DS) \<and>
    seg_executable (descriptor_of g' USER_CS_SELECTOR) \<and> \<not> seg_executable (descriptor_of g' USER_DS_SELECTOR) \<and>
    seg_is_tss32 (descriptor_of g' SEGMENT_TSS) \<and> seg_present (descriptor_of g' SEGMENT_TSS) \<and>
    seg_base (descriptor_of g' SEGMENT_TSS) = tss_addr \<and> seg_last (descriptor_of g' SEGMENT_TSS) = 103 \<and>
    \<not> seg_present (descriptor_of g' 0) \<and> t_ss0 (tss g') = SEGMENT_KERNEL_DS \<and>
    tr' = Ltr 0x28 # Lgdt 47 gdt_addr # tr"
  by (rule gdt_segments [OF assms])

lemma gdt_init_segments_witness:
  "\<exists>g' tr'. gdt_init 0xC0104000 0xC0104020 (gdt_bss, []) = (g', tr') \<and>
     seg_base (descriptor_of g' SEGMENT_TSS) = 0xC0104020 \<and> flat_segment 3 (descriptor_of g' USER_CS_SELECTOR)"
proof -
  obtain g' tr' where r: "gdt_init 0xC0104000 0xC0104020 (gdt_bss, []) = (g', tr')" by fastforce
  have "length (gdt gdt_bss) = 6" by (simp add: gdt_bss_def)
  from gdt_init_segments [OF this r] r show ?thesis by metis
qed

end
