(* ===== verification/X86.thy ===== *)
theory X86
  imports Syscall_Mem Gdt
begin

text \<open>
  The part of the processor that the assembly files of the repository use: registers, the
  stack in memory, calls, interrupts through a gate with the switch to the stack of the TSS,
  and \<open>iret\<close>. Code is a list of instructions; only the transfers of control look at the
  instruction pointer. The state is the registers together with the kernel's state, whose
  \<open>k_mem\<close> is the memory. What the assembly calls is a parameter (\<open>env\<close>).

  Straight-line code is also given a meaning over an abstract stack, a list of words, and shown
  to agree with the one over memory (\<open>aexec_sim\<close>); the assembly routines are then executed
  symbolically on the list.
\<close>

datatype gpr = EAX | ECX | EDX | EBX | ESP | EBP | ESI | EDI
datatype sreg = CS | DS | ES | FS | GS | SS

record cpu =
  c_gpr :: "gpr \<Rightarrow> u32"
  c_seg :: "sreg \<Rightarrow> u16"
  c_eip :: u32
  c_flags :: u32
  c_cr0 :: u32
  c_cr3 :: u32

type_synonym st = "cpu \<times> kernel"

datatype operand = Reg gpr | Imm u32 | Stk u32 | Mem u32

datatype fname = C_interrupt_handler | C_do_syscall | C_kmain | C_main | A_sys_exit

text \<open>
  \<open>Stk d\<close> is \<open>[esp + d]\<close>, \<open>Mem a\<close> the word at the fixed address \<open>a\<close>. \<open>CALL\<close> and \<open>INTR\<close> carry the address of the next instruction, \<open>JMP_to\<close> the
  address of the label the following code stands at.
\<close>

datatype instr =
    PUSH operand | PUSHS sreg | POP gpr | POPS sreg
  | MOV gpr operand | MOV_to_mem u32 gpr | MOV16 gpr u16 | MOV16_stk gpr u32 | MOV8_stk gpr u32 | MOVS sreg gpr | LEA gpr u32 | ADD gpr u32 | OR_imm gpr u32 | CLD
  | MOV_to_CR3 gpr | MOV_from_CR0 gpr | MOV_to_CR0 gpr | LGDT gpr | LIDT gpr | LTR gpr | OUT_DX_AL | IN_AL_DX | STI | CLI
  | JMP_to gpr u32 | JMP_far u16 | CALL fname u32 | INTR byte u32 | RET | IRET

record env =
  e_call :: "fname \<Rightarrow> st \<Rightarrow> st option"
  e_trap :: "byte \<Rightarrow> st \<Rightarrow> st option"
  e_gdt :: gdt_state
  e_hw :: hardware

section \<open>Instructions\<close>

definition set_gpr :: "gpr \<Rightarrow> u32 \<Rightarrow> cpu \<Rightarrow> cpu" where
  "set_gpr r v c = c\<lparr>c_gpr := (c_gpr c)(r := v)\<rparr>"

definition set_seg :: "sreg \<Rightarrow> u16 \<Rightarrow> cpu \<Rightarrow> cpu" where
  "set_seg s v c = c\<lparr>c_seg := (c_seg c)(s := v)\<rparr>"

definition push_word :: "u32 \<Rightarrow> st \<Rightarrow> st" where
  "push_word v = (\<lambda>(c, k). let p = c_gpr c ESP - 4
     in (set_gpr ESP p c, k\<lparr>k_mem := store32 p v (k_mem k)\<rparr>))"

definition pop_word :: "st \<Rightarrow> u32 \<times> st" where
  "pop_word = (\<lambda>(c, k). (load32 (k_mem k) (c_gpr c ESP), (set_gpr ESP (c_gpr c ESP + 4) c, k)))"

definition load16 :: "memory \<Rightarrow> u32 \<Rightarrow> u16" where
  "load16 m a = ucast (m a) OR push_bit 8 (ucast (m (a + 1)))"

definition low16 :: "u32 \<Rightarrow> u16 \<Rightarrow> u32" where
  "low16 old v = push_bit 16 (drop_bit 16 old) OR ucast v"

definition low8 :: "u32 \<Rightarrow> byte \<Rightarrow> u32" where
  "low8 old v = push_bit 8 (drop_bit 8 old) OR ucast v"

primrec operand_val :: "operand \<Rightarrow> st \<Rightarrow> u32" where
  "operand_val (Reg r) s = c_gpr (fst s) r"
| "operand_val (Imm v) s = v"
| "operand_val (Stk d) s = load32 (k_mem (snd s)) (c_gpr (fst s) ESP + d)"
| "operand_val (Mem a) s = load32 (k_mem (snd s)) a"

definition log_event :: "io_event \<Rightarrow> kernel \<Rightarrow> kernel" where
  "log_event e k = k\<lparr>k_tr := e # k_tr k\<rparr>"

fun plain :: "instr \<Rightarrow> st \<Rightarrow> st option" where
  "plain (PUSH op) s = Some (push_word (operand_val op s) s)"
| "plain (PUSHS r) s = Some (push_word (ucast (c_seg (fst s) r)) s)"
| "plain (POP r) s = (case pop_word s of (v, (c, k)) \<Rightarrow> Some (set_gpr r v c, k))"
| "plain (POPS r) s = (case pop_word s of (v, (c, k)) \<Rightarrow> Some (set_seg r (ucast v) c, k))"
| "plain (MOV r op) (c, k) = Some (set_gpr r (operand_val op (c, k)) c, k)"
| "plain (MOV_to_mem a r) (c, k) = Some (c, k\<lparr>k_mem := store32 a (c_gpr c r) (k_mem k)\<rparr>)"
| "plain (MOV16 r v) (c, k) = Some (set_gpr r (low16 (c_gpr c r) v) c, k)"
| "plain (MOV16_stk r d) (c, k) = Some (set_gpr r (low16 (c_gpr c r) (load16 (k_mem k) (c_gpr c ESP + d))) c, k)"
| "plain (MOV8_stk r d) (c, k) = Some (set_gpr r (low8 (c_gpr c r) (k_mem k (c_gpr c ESP + d))) c, k)"
| "plain (MOVS r g) (c, k) = Some (set_seg r (ucast (c_gpr c g)) c, k)"
| "plain (LEA r d) (c, k) = Some (set_gpr r (c_gpr c ESP + d) c, k)"
| "plain (ADD r d) (c, k) = Some (set_gpr r (c_gpr c r + d) c, k)"
| "plain (OR_imm r v) (c, k) = Some (set_gpr r (c_gpr c r OR v) c, k)"
| "plain CLD (c, k) = Some (c\<lparr>c_flags := c_flags c AND NOT 0x400\<rparr>, k)"
| "plain (MOV_to_CR3 r) (c, k) = Some (c\<lparr>c_cr3 := c_gpr c r\<rparr>, log_event (Load_CR3 (c_gpr c r)) k)"
| "plain (MOV_from_CR0 r) (c, k) = Some (set_gpr r (c_cr0 c) c, k)"
| "plain (MOV_to_CR0 r) (c, k) = Some (c\<lparr>c_cr0 := c_gpr c r\<rparr>, k)"
| "plain (LGDT r) (c, k) = Some (c, log_event (Lgdt (load16 (k_mem k) (c_gpr c r)) (load32 (k_mem k) (c_gpr c r + 2))) k)"
| "plain (LIDT r) (c, k) = Some (c, log_event (Lidt (load16 (k_mem k) (c_gpr c r)) (load32 (k_mem k) (c_gpr c r + 2))) k)"
| "plain (LTR r) (c, k) = Some (c, log_event (Ltr (ucast (c_gpr c r))) k)"
| "plain OUT_DX_AL (c, k) = Some (c, log_event (Out (ucast (c_gpr c EDX)) (ucast (c_gpr c EAX))) k)"
| "plain STI (c, k) = Some (c\<lparr>c_flags := c_flags c OR 0x200\<rparr>, log_event Sti k)"
| "plain CLI (c, k) = Some (c\<lparr>c_flags := c_flags c AND NOT 0x200\<rparr>, log_event Cli k)"
| "plain (JMP_far v) (c, k) = Some (set_seg CS v c, k)"
| "plain _ s = None"

section \<open>Transfers of control\<close>

definition cpl :: "cpu \<Rightarrow> nat" where
  "cpl c = unat (c_seg c CS AND 3)"

definition return_word :: "st \<Rightarrow> st" where
  "return_word s = (case pop_word s of (v, (c, k)) \<Rightarrow> (c\<lparr>c_eip := v\<rparr>, k))"

text \<open>
  Returning to a less privileged level, the processor clears the data segment registers that
  name segments of a more privileged one.
\<close>

definition outer_seg :: "gdt_state \<Rightarrow> u16 \<Rightarrow> u16" where
  "outer_seg g v = (if seg_dpl (descriptor_of g (ucast v)) < 3 then 0 else v)"

definition outer_segs :: "gdt_state \<Rightarrow> cpu \<Rightarrow> cpu" where
  "outer_segs g c = c\<lparr>c_seg := (\<lambda>s. if s \<in> {DS, ES, FS, GS} then outer_seg g (c_seg c s) else c_seg c s)\<rparr>"

definition iret :: "gdt_state \<Rightarrow> st \<Rightarrow> st" where
  "iret g s =
     (let (ip, s) = pop_word s; (sel, s) = pop_word s; (fl, (c, k)) = pop_word s;
          outer = unat (sel AND 3) > cpl c;
          c = (set_seg CS (ucast sel) c)\<lparr>c_eip := ip, c_flags := fl\<rparr>
      in if outer then
           (let (sp, s) = pop_word (c, k); (stack, (c, k)) = pop_word s
            in (outer_segs g (set_seg SS (ucast stack) (set_gpr ESP sp c)), k))
         else (c, k))"

text \<open>
  An interrupt or exception through a gate, with the error code some exceptions push. From ring
  3 the processor first switches to the ring 0 stack named in the TSS. An interrupt gate
  clears the flags \<open>TF\<close>, \<open>IF\<close>, \<open>NT\<close>, \<open>RF\<close> and \<open>VM\<close>.
\<close>

definition interrupt_entry :: "tss_entry \<Rightarrow> idt_entry \<Rightarrow> u32 list \<Rightarrow> st \<Rightarrow> st" where
  "interrupt_entry t e err = (\<lambda>(c, k).
     let frame = (if cpl c = 0 then [] else [ucast (c_seg c SS), c_gpr c ESP])
           @ [c_flags c, ucast (c_seg c CS), c_eip c] @ err;
         c1 = (if cpl c = 0 then c else set_seg SS (ucast (t_ss0 t)) (set_gpr ESP (t_esp0 t) c));
         (c2, k) = fold push_word frame (c1, k)
     in ((set_seg CS (selector e) c2)\<lparr>c_eip := gate_offset e,
           c_flags := c_flags c AND NOT (if gate_is_interrupt32 e then 0x34300 else 0x34100)\<rparr>, k))"

text \<open>Control is back at the instruction after a call or trap only if the callee returns there.\<close>

definition back_at :: "u32 \<Rightarrow> st option \<Rightarrow> st option" where
  "back_at ra r = Option.bind r (\<lambda>s. if c_eip (fst s) = ra then Some s else None)"

fun exec1 :: "env \<Rightarrow> instr \<Rightarrow> st \<Rightarrow> st option" where
  "exec1 E (CALL f ra) s = back_at ra (e_call E f (push_word ra s))"
| "exec1 E (INTR n ra) s = back_at ra (e_trap E n ((fst s)\<lparr>c_eip := ra\<rparr>, snd s))"
| "exec1 E RET s = Some (return_word s)"
| "exec1 E IRET s = Some (iret (e_gdt E) s)"
| "exec1 E (JMP_to r a) s = (if c_gpr (fst s) r = a then Some s else None)"
| "exec1 E IN_AL_DX s =
     (let (c, k) = s; (v, tr) = inb (e_hw E) (ucast (c_gpr c EDX)) (k_tr k)
      in Some (set_gpr EAX (low8 (c_gpr c EAX) v) c, k\<lparr>k_tr := tr\<rparr>))"
| "exec1 E i s = plain i s"

fun exec :: "env \<Rightarrow> instr list \<Rightarrow> st \<Rightarrow> st option" where
  "exec E [] s = Some s"
| "exec E (i # code) s = Option.bind (exec1 E i s) (exec E code)"

lemma exec_append: "exec E (a @ b) s = Option.bind (exec E a s) (exec E b)"
  by (induction a arbitrary: s) (auto split: bind_split)

lemma exec_around:
  assumes "exec E pre s = Some s1" "exec1 E i s1 = Some s2" "exec E post s2 = Some s3"
  shows "exec E (pre @ [i] @ post @ [j]) s = exec1 E j s3"
  using assms by (cases "exec1 E j s3") (simp_all add: exec_append del: exec1.simps)

section \<open>Straight-line code on an abstract stack\<close>

type_synonym ast = "cpu \<times> u32 list"

primrec aoperand :: "operand \<Rightarrow> ast \<Rightarrow> u32 option" where
  "aoperand (Reg r) a = Some (c_gpr (fst a) r)"
| "aoperand (Imm v) a = Some v"
| "aoperand (Stk d) a =
     (if unat d mod 4 = 0 \<and> unat d div 4 < length (snd a) then Some (snd a ! (unat d div 4)) else None)"
| "aoperand (Mem p) a = None"

definition apush :: "u32 \<Rightarrow> ast \<Rightarrow> ast" where
  "apush v = (\<lambda>(c, ws). (set_gpr ESP (c_gpr c ESP - 4) c, v # ws))"

fun astep :: "instr \<Rightarrow> ast \<Rightarrow> ast option" where
  "astep (PUSH op) a = map_option (\<lambda>v. apush v a) (aoperand op a)"
| "astep (PUSHS r) a = Some (apush (ucast (c_seg (fst a) r)) a)"
| "astep (POP r) (c, w # ws) =
     (if r = ESP then None else Some (set_gpr r w (set_gpr ESP (c_gpr c ESP + 4) c), ws))"
| "astep (POPS r) (c, w # ws) = Some (set_seg r (ucast w) (set_gpr ESP (c_gpr c ESP + 4) c), ws)"
| "astep (MOV r op) (c, ws) =
     (if r = ESP then None else map_option (\<lambda>v. (set_gpr r v c, ws)) (aoperand op (c, ws)))"
| "astep (MOV16 r v) (c, ws) = (if r = ESP then None else Some (set_gpr r (low16 (c_gpr c r) v) c, ws))"
| "astep (MOVS r g) (c, ws) = Some (set_seg r (ucast (c_gpr c g)) c, ws)"
| "astep (LEA r d) (c, ws) = (if r = ESP then None else Some (set_gpr r (c_gpr c ESP + d) c, ws))"
| "astep (ADD r d) (c, ws) =
     (if r \<noteq> ESP then Some (set_gpr r (c_gpr c r + d) c, ws)
      else if unat d mod 4 = 0 \<and> unat d div 4 \<le> length ws
      then Some (set_gpr ESP (c_gpr c ESP + d) c, drop (unat d div 4) ws) else None)"
| "astep CLD (c, ws) = Some (c\<lparr>c_flags := c_flags c AND NOT 0x400\<rparr>, ws)"
| "astep _ a = None"

fun aexec :: "instr list \<Rightarrow> ast \<Rightarrow> ast option" where
  "aexec [] a = Some a"
| "aexec (i # code) a = Option.bind (astep i a) (aexec code)"

text \<open>
  The words of the list are on the stack between the stack pointer and \<open>hi\<close>, and memory
  outside the stack area from \<open>lo\<close> to \<open>hi\<close> is the one of \<open>k0\<close>.
\<close>

definition stack_area :: "u32 \<Rightarrow> u32 \<Rightarrow> u32 \<Rightarrow> bool" where
  "stack_area lo hi x \<longleftrightarrow> in_obj lo (unat (hi - lo)) x"

definition agrees :: "u32 \<Rightarrow> u32 \<Rightarrow> memory \<Rightarrow> memory \<Rightarrow> bool" where
  "agrees lo hi m m' \<longleftrightarrow> (\<forall>x. \<not> stack_area lo hi x \<longrightarrow> m' x = m x)"

definition words_at :: "memory \<Rightarrow> u32 \<Rightarrow> u32 list \<Rightarrow> bool" where
  "words_at m p ws \<longleftrightarrow> (\<forall>i < length ws. load32 m (p + word_of_nat (4 * i)) = ws ! i)"

definition framed :: "u32 \<Rightarrow> u32 \<Rightarrow> kernel \<Rightarrow> ast \<Rightarrow> st \<Rightarrow> bool" where
  "framed lo hi k0 a s \<longleftrightarrow> fst s = fst a \<and> words_at (k_mem (snd s)) (c_gpr (fst a) ESP) (snd a) \<and>
     c_gpr (fst a) ESP = hi - word_of_nat (4 * length (snd a)) \<and>
     (snd s)\<lparr>k_mem := k_mem k0\<rparr> = k0 \<and> agrees lo hi (k_mem k0) (k_mem (snd s))"

lemma agrees_refl [simp]: "agrees lo hi m m"
  by (simp add: agrees_def)

lemma agrees_trans: "agrees lo hi a b \<Longrightarrow> agrees lo hi b c \<Longrightarrow> agrees lo hi a c"
  by (simp add: agrees_def)

lemma set_gpr_simps [simp]:
  "c_gpr (set_gpr r v c) = (c_gpr c)(r := v)" "c_seg (set_gpr r v c) = c_seg c" "c_eip (set_gpr r v c) = c_eip c"
  "c_flags (set_gpr r v c) = c_flags c" "c_cr0 (set_gpr r v c) = c_cr0 c" "c_cr3 (set_gpr r v c) = c_cr3 c"
  by (simp_all add: set_gpr_def)

lemma set_seg_simps [simp]:
  "c_gpr (set_seg r v c) = c_gpr c" "c_seg (set_seg r v c) = (c_seg c)(r := v)" "c_eip (set_seg r v c) = c_eip c"
  "c_flags (set_seg r v c) = c_flags c" "c_cr0 (set_seg r v c) = c_cr0 c" "c_cr3 (set_seg r v c) = c_cr3 c"
  by (simp_all add: set_seg_def)

lemma ucast_low16 [simp]: "ucast (low16 old v) = v"
  by (rule bit_word_eqI) (auto simp: low16_def bit_simps)

lemma ucast_low8 [simp]: "ucast (low8 old v) = v"
  by (rule bit_word_eqI) (auto simp: low8_def bit_simps)

lemma all_gpr: "(\<forall>r. P r) \<longleftrightarrow> P EAX \<and> P ECX \<and> P EDX \<and> P EBX \<and> P ESP \<and> P EBP \<and> P ESI \<and> P EDI"
  by (metis gpr.exhaust)

lemma all_sreg: "(\<forall>s. P s) \<longleftrightarrow> P CS \<and> P DS \<and> P ES \<and> P FS \<and> P GS \<and> P SS"
  by (metis sreg.exhaust)

lemma words_at_Cons:
  "words_at m p (w # ws) \<longleftrightarrow> load32 m p = w \<and> words_at m (p + 4) ws"
  unfolding words_at_def
  by (auto simp: less_Suc_eq_0_disj algebra_simps split: nat.split)

lemma words_at_Nil [simp]: "words_at m p []"
  by (simp add: words_at_def)

lemma words_at_drop: "words_at m p ws \<Longrightarrow> n \<le> length ws \<Longrightarrow> words_at m (p + word_of_nat (4 * n)) (drop n ws)"
proof (induction n arbitrary: p ws)
  case (Suc n)
  then obtain w vs where ws: "ws = w # vs" by (cases ws) auto
  with Suc have "words_at m (p + 4 + word_of_nat (4 * n)) (drop n vs)" by (simp add: words_at_Cons)
  then show ?case by (simp add: ws algebra_simps)
qed simp

lemma load32_store32_apart:
  assumes "a + 4 \<le> b \<or> b + 4 \<le> a" "a + 4 \<le> 4294967296" "b + 4 \<le> 4294967296"
  shows "load32 (store32 (p + word_of_nat a) v m) (p + word_of_nat b) = load32 m (p + word_of_nat b)"
proof -
  have "\<not> in_obj (p + word_of_nat a) 4 (p + word_of_nat (b + j))" if "j < 4" for j
  proof -
    have "unat (word_of_nat (b + j) - word_of_nat a :: u32) = (if a \<le> b + j then b + j - a else b + j + 4294967296 - a)"
      using that assms by (simp add: unat_sub_if' unat_of_nat_u32 del: of_nat_add)
    then show ?thesis using that assms by (auto simp: in_obj_def simp del: of_nat_add)
  qed
  from this [of 0] this [of 1] this [of 2] this [of 3] show ?thesis
    by (intro load32_store32_other) (simp_all add: algebra_simps)
qed

lemma words_at_update:
  assumes "words_at m p ws" "i < length ws" "4 * length ws \<le> 4294967296"
  shows "words_at (store32 (p + word_of_nat (4 * i)) v m) p (ws[i := v])"
  unfolding words_at_def
proof (intro allI impI)
  fix j assume j: "j < length (ws[i := v])"
  show "load32 (store32 (p + word_of_nat (4 * i)) v m) (p + word_of_nat (4 * j)) = ws[i := v] ! j"
  proof (cases "j = i")
    case False
    then have "load32 (store32 (p + word_of_nat (4 * i)) v m) (p + word_of_nat (4 * j)) = load32 m (p + word_of_nat (4 * j))"
      using j assms by (intro load32_store32_apart) auto
    then show ?thesis using False j assms by (simp add: words_at_def)
  qed (use j in simp)
qed

lemma words_at_store:
  assumes "words_at m p ws" "4 * length ws + 4 \<le> 4294967296"
  shows "words_at (store32 (p - 4) v m) (p - 4) (v # ws)"
proof -
  have "load32 (store32 (p - 4) v m) (p + word_of_nat (4 * i)) = ws ! i" if "i < length ws" for i
    using that assms load32_store32_apart [of 0 "4 + 4 * i" "p - 4" v m] by (simp add: words_at_def algebra_simps)
  then have "words_at (store32 (p - 4) v m) (p - 4 + 4) ws" by (simp add: words_at_def)
  then show ?thesis by (simp only: words_at_Cons load32_store32_same simp_thms)
qed

lemma unat_below:
  fixes hi lo :: u32
  assumes "n \<le> unat (hi - lo)"
  shows "unat (hi - word_of_nat n - lo) = unat (hi - lo) - n"
proof -
  have n: "unat (word_of_nat n :: u32) = n" using le_less_trans [OF assms unat_lt_2p32] by (rule unat_of_nat_u32)
  then have "word_of_nat n \<le> hi - lo" using assms by (simp add: u32_nat)
  from unat_sub [OF this] n show ?thesis by (simp add: algebra_simps)
qed

lemma stack_area_word:
  assumes "4 * n \<le> unat (hi - lo)" "0 < n" "in_obj (hi - word_of_nat (4 * n)) 4 x"
  shows "stack_area lo hi x"
proof -
  let ?p = "hi - word_of_nat (4 * n) :: u32"
  have p: "unat (?p - lo) = unat (hi - lo) - 4 * n" by (rule unat_below [OF assms(1)])
  have x: "unat (x - ?p) < 4" using assms(3) by (simp add: in_obj_def)
  have "unat (x - ?p) + unat (?p - lo) < 4294967296" using p x assms(1,2) unat_lt_2p32 [of "hi - lo"] by linarith
  from unat_add_u32 [OF this] have "unat (x - lo) = unat (x - ?p) + unat (?p - lo)" by simp
  with p x assms(1,2) show ?thesis by (simp add: stack_area_def in_obj_def)
qed

lemma framed_push:
  assumes "framed lo hi k0 a s" "4 * Suc (length (snd a)) \<le> unat (hi - lo)"
  shows "framed lo hi k0 (apush v a) (push_word v s)"
proof -
  obtain c ws k where as: "a = (c, ws)" "s = (c, k)" using assms(1) by (cases a; cases s) (auto simp: framed_def)
  let ?p = "hi - word_of_nat (4 * Suc (length ws)) :: u32" and ?m = "k_mem k"
  have f: "words_at ?m (c_gpr c ESP) ws" "c_gpr c ESP = hi - word_of_nat (4 * length ws)" "k\<lparr>k_mem := k_mem k0\<rparr> = k0"
    "agrees lo hi (k_mem k0) ?m"
    using assms(1) unfolding framed_def as fst_conv snd_conv by blast+
  have p: "c_gpr c ESP - 4 = ?p" by (simp add: f(2) algebra_simps)
  have "words_at (store32 ?p v ?m) ?p (v # ws)"
    using words_at_store [OF f(1), of v] assms(2) unat_lt_2p32 [of "hi - lo"] by (simp add: as p del: of_nat_mult unat_lt_2p32)
  moreover have "agrees lo hi ?m (store32 ?p v ?m)"
    unfolding agrees_def using stack_area_word [OF assms(2)] store32_other by (simp add: as) blast
  ultimately show ?thesis
    using f(3) agrees_trans [OF f(4)] by (simp add: framed_def as apush_def push_word_def Let_def p)
qed

lemma framed_operand:
  assumes "framed lo hi k0 a s" "aoperand op a = Some v"
  shows "operand_val op s = v"
proof (cases op)
  case (Stk d)
  then have d: "unat d mod 4 = 0" "unat d div 4 < length (snd a)" "v = snd a ! (unat d div 4)"
    using assms(2) by (auto split: if_splits)
  then have "4 * (unat d div 4) = unat d" by presburger
  then have "d = word_of_nat (4 * (unat d div 4))" by simp
  with d assms(1) Stk show ?thesis unfolding framed_def words_at_def by auto
qed (use assms in \<open>auto simp: framed_def\<close>)

lemma framed_drop:
  assumes "framed lo hi k0 (c, ws) s" "n \<le> length ws"
  shows "framed lo hi k0 (set_gpr ESP (c_gpr c ESP + word_of_nat (4 * n)) c, drop n ws) (set_gpr ESP (c_gpr c ESP + word_of_nat (4 * n)) c, snd s)"
proof -
  have "4 * length ws = 4 * (length ws - n) + 4 * n" using assms(2) by simp
  then have "word_of_nat (4 * length ws) = (word_of_nat (4 * (length ws - n)) + word_of_nat (4 * n) :: u32)"
    by (metis of_nat_add)
  with assms words_at_drop [of "k_mem (snd s)" "c_gpr c ESP" ws n] show ?thesis
    by (auto simp: framed_def)
qed

lemma framed_pop:
  assumes "framed lo hi k0 (c, w # ws) s"
  shows "pop_word s = (w, (set_gpr ESP (c_gpr c ESP + 4) c, snd s))"
    "framed lo hi k0 (set_gpr ESP (c_gpr c ESP + 4) c, ws) (set_gpr ESP (c_gpr c ESP + 4) c, snd s)"
  using assms framed_drop [OF assms, of 1] by (auto simp: framed_def words_at_Cons pop_word_def split_def)

text \<open>A change of the registers other than \<open>ESP\<close> is the same on both sides.\<close>

lemma framed_cpu:
  assumes "framed lo hi k0 (c, ws) s" "c_gpr c' ESP = c_gpr c ESP"
  shows "framed lo hi k0 (c', ws) (c', snd s)"
  using assms(1) unfolding framed_def fst_conv snd_conv assms(2) by blast

lemma framed_kernel: "framed lo hi k0 a s \<Longrightarrow> snd s = k0\<lparr>k_mem := k_mem (snd s)\<rparr>"
  by (cases "snd s"; cases k0) (simp add: framed_def)

lemma framedD:
  assumes "framed lo hi k0 (c, ws) s"
  shows "fst s = c" "words_at (k_mem (snd s)) (c_gpr c ESP) ws" "c_gpr c ESP = hi - word_of_nat (4 * length ws)"
    "agrees lo hi (k_mem k0) (k_mem (snd s))"
  using assms unfolding framed_def fst_conv snd_conv by blast+

lemma astep_length: "astep i a = Some a' \<Longrightarrow> length (snd a') \<le> Suc (length (snd a))"
  by (cases "(i, a)" rule: astep.cases) (auto simp: apush_def split_def split: if_splits)

lemma astep_sim:
  assumes "framed lo hi k0 a s" "astep i a = Some a'" "4 * Suc (length (snd a)) \<le> unat (hi - lo)"
  shows "\<exists>s'. plain i s = Some s' \<and> framed lo hi k0 a' s'"
proof -
  obtain c ws k where as: "a = (c, ws)" "s = (c, k)" using assms(1) by (cases a; cases s) (auto simp: framed_def)
  note f = assms(1) [unfolded as]
  show ?thesis
  proof (cases i)
    case (PUSH op)
    then obtain v where "aoperand op a = Some v" "a' = apush v a" using assms(2) by auto
    with framed_push [OF assms(1,3)] framed_operand [OF assms(1)] PUSH show ?thesis by auto
  next
    case (PUSHS r)
    with assms framed_push [OF assms(1,3)] show ?thesis by (auto simp: as)
  next
    case (POP r)
    then obtain w vs where ws: "ws = w # vs" "r \<noteq> ESP" "a' = (set_gpr r w (set_gpr ESP (c_gpr c ESP + 4) c), vs)"
      using assms(2) by (cases ws) (auto simp: as split: if_splits)
    with framed_pop(1) [OF f [unfolded ws(1)]] framed_cpu [OF framed_pop(2) [OF f [unfolded ws(1)]]] POP
    show ?thesis by (auto simp: as)
  next
    case (POPS r)
    then obtain w vs where ws: "ws = w # vs" "a' = (set_seg r (ucast w) (set_gpr ESP (c_gpr c ESP + 4) c), vs)"
      using assms(2) by (cases ws) (auto simp: as)
    with framed_pop(1) [OF f [unfolded ws(1)]] framed_cpu [OF framed_pop(2) [OF f [unfolded ws(1)]]] POPS
    show ?thesis by (auto simp: as)
  next
    case (MOV r op)
    then obtain v where "aoperand op a = Some v" "r \<noteq> ESP" "a' = (set_gpr r v c, ws)"
      using assms(2) by (auto simp: as split: if_splits)
    with framed_operand [OF assms(1)] MOV framed_cpu [OF f] show ?thesis by (auto simp: as)
  next
    case (ADD r d)
    show ?thesis
    proof (cases "r = ESP")
      case True
      with ADD assms(2) have d: "unat d mod 4 = 0" "unat d div 4 \<le> length ws" "a' = (set_gpr ESP (c_gpr c ESP + d) c, drop (unat d div 4) ws)"
        by (auto simp: as split: if_splits)
      then have "4 * (unat d div 4) = unat d" by presburger
      then have "word_of_nat (4 * (unat d div 4)) = d" by simp
      with framed_drop [OF f d(2)] d(3) ADD True show ?thesis by (auto simp: as)
    qed (use ADD assms(2) framed_cpu [OF f] in \<open>auto simp: as\<close>)
  qed (use assms(2) framed_cpu [OF f] in \<open>auto simp: as split: if_splits\<close>)
qed

lemma astep_plain: "astep i a = Some a' \<Longrightarrow> exec1 E i s = plain i s"
  by (cases i) auto

text \<open>The agreement of the two meanings; every instruction pushes at most one word.\<close>

lemma aexec_sim:
  assumes "framed lo hi k0 a s" "aexec code a = Some a'" "4 * (length (snd a) + length code) \<le> unat (hi - lo)"
  shows "\<exists>s'. exec E code s = Some s' \<and> framed lo hi k0 a' s'"
  using assms
proof (induction code arbitrary: a s)
  case (Cons i code)
  then obtain a1 where a1: "astep i a = Some a1" "aexec code a1 = Some a'" by (auto simp: bind_eq_Some_conv)
  moreover obtain s1 where s1: "plain i s = Some s1" "framed lo hi k0 a1 s1"
    using astep_sim [OF Cons.prems(1) a1(1)] Cons.prems(3) by auto
  moreover have "4 * (length (snd a1) + length code) \<le> unat (hi - lo)" using astep_length [OF a1(1)] Cons.prems(3) by simp
  ultimately show ?case using Cons.IH [OF s1(2) a1(2)] astep_plain [OF a1(1)] by simp
qed simp

section \<open>Entering and leaving\<close>

lemma framed_start: "c_gpr c ESP = hi \<Longrightarrow> framed lo hi k (c, []) (c, k)"
  by (simp add: framed_def words_at_def)

lemma framed_here:
  "words_at (k_mem k) (c_gpr c ESP) ws \<Longrightarrow> c_gpr c ESP = hi - word_of_nat (4 * length ws) \<Longrightarrow> framed lo hi k (c, ws) (c, k)"
  by (simp add: framed_def)

lemma framed_pushes:
  "framed lo hi k0 a s \<Longrightarrow> 4 * (length (snd a) + length vs) \<le> unat (hi - lo) \<Longrightarrow>
    framed lo hi k0 (fold apush vs a) (fold push_word vs s)"
proof (induction vs arbitrary: a s)
  case (Cons v vs)
  then have "framed lo hi k0 (apush v a) (push_word v s)" by (intro framed_push) auto
  moreover have "length (snd (apush v a)) = Suc (length (snd a))" by (simp add: apush_def split_def)
  ultimately show ?case using Cons.IH Cons.prems(2) by simp
qed simp

definition entry_stack :: "tss_entry \<Rightarrow> cpu \<Rightarrow> u32" where
  "entry_stack t c = (if cpl c = 0 then c_gpr c ESP else t_esp0 t)"

definition entry_frame_words :: "u32 list \<Rightarrow> cpu \<Rightarrow> u32 list" where
  "entry_frame_words err c = rev err @ [c_eip c, ucast (c_seg c CS), c_flags c] @
     (if cpl c = 0 then [] else [c_gpr c ESP, ucast (c_seg c SS)])"

definition entry_cpu :: "tss_entry \<Rightarrow> idt_entry \<Rightarrow> u32 list \<Rightarrow> cpu \<Rightarrow> cpu" where
  "entry_cpu t e err c =
     c\<lparr>c_gpr := (c_gpr c)(ESP := entry_stack t c - word_of_nat (4 * length (entry_frame_words err c))),
       c_seg := (c_seg c)(CS := selector e, SS := (if cpl c = 0 then c_seg c SS else ucast (t_ss0 t))),
       c_eip := gate_offset e, c_flags := c_flags c AND NOT (if gate_is_interrupt32 e then 0x34300 else 0x34100)\<rparr>"

lemma fold_apush:
  "fold apush vs (c, ws) = (set_gpr ESP (c_gpr c ESP - word_of_nat (4 * length vs)) c, rev vs @ ws)"
  by (induction vs arbitrary: c ws) (simp_all add: apush_def set_gpr_def algebra_simps)

lemma interrupt_entry_framed:
  assumes "4 * length (entry_frame_words err c) \<le> unat (entry_stack t c - lo)"
  shows "framed lo (entry_stack t c) k (entry_cpu t e err c, entry_frame_words err c) (interrupt_entry t e err (c, k))"
proof -
  let ?c = "if cpl c = 0 then c else set_seg SS (ucast (t_ss0 t)) (set_gpr ESP (t_esp0 t) c)"
  let ?fr = "(if cpl c = 0 then [] else [ucast (c_seg c SS), c_gpr c ESP]) @ [c_flags c, ucast (c_seg c CS), c_eip c] @ err"
  have fr: "rev ?fr = entry_frame_words err c" by (simp add: entry_frame_words_def)
  then have len: "length ?fr = length (entry_frame_words err c)" by (metis length_rev)
  have "framed lo (entry_stack t c) k (?c, []) (?c, k)" by (rule framed_start) (simp add: entry_stack_def)
  from framed_pushes [OF this, of ?fr]
  have f: "framed lo (entry_stack t c) k (set_gpr ESP (c_gpr ?c ESP - word_of_nat (4 * length ?fr)) ?c, entry_frame_words err c) (fold push_word ?fr (?c, k))"
    using assms unfolding fold_apush fr len by simp
  have c: "set_gpr ESP (c_gpr ?c ESP - word_of_nat (4 * length ?fr)) ?c = fst (fold push_word ?fr (?c, k))"
    using f by (simp add: framed_def)
  have "entry_cpu t e err c = (set_seg CS (selector e) (fst (fold push_word ?fr (?c, k))))\<lparr>c_eip := gate_offset e,
      c_flags := c_flags c AND NOT (if gate_is_interrupt32 e then 0x34300 else 0x34100)\<rparr>"
    unfolding c [symmetric] len by (rule cpu.equality) (auto simp: entry_cpu_def entry_stack_def)
  moreover have "interrupt_entry t e err (c, k) = ((set_seg CS (selector e) (fst (fold push_word ?fr (?c, k))))\<lparr>c_eip := gate_offset e,
      c_flags := c_flags c AND NOT (if gate_is_interrupt32 e then 0x34300 else 0x34100)\<rparr>, snd (fold push_word ?fr (?c, k)))"
    by (simp add: interrupt_entry_def Let_def split_def)
  moreover have "c_gpr (entry_cpu t e err c) ESP = c_gpr (fst (fold push_word ?fr (?c, k))) ESP"
    unfolding c [symmetric] len by (simp add: entry_cpu_def entry_stack_def)
  ultimately show ?thesis using framed_cpu [OF f [unfolded c], of "entry_cpu t e err c"] by metis
qed

lemma set_gpr_twice [simp]: "set_gpr r v (set_gpr r w c) = set_gpr r v c"
  by (simp add: set_gpr_def)

lemma cpl_simps [simp]: "cpl (set_gpr r v c) = cpl c" "cpl (c\<lparr>c_eip := ip\<rparr>) = cpl c" "cpl (c\<lparr>c_flags := fl\<rparr>) = cpl c"
  "sg \<noteq> CS \<Longrightarrow> cpl (set_seg sg w c) = cpl c"
  by (simp_all add: cpl_def)

lemma iret_pops:
  assumes "pop_word s = (ip, s1)" "pop_word s1 = (sel, s2)" "pop_word s2 = (fl, (c, k))"
  shows "\<not> unat (sel AND 3) > cpl c \<Longrightarrow> iret g s = ((set_seg CS (ucast sel) c)\<lparr>c_eip := ip, c_flags := fl\<rparr>, k)"
    "unat (sel AND 3) > cpl c \<Longrightarrow> pop_word ((set_seg CS (ucast sel) c)\<lparr>c_eip := ip, c_flags := fl\<rparr>, k) = (sp, s3) \<Longrightarrow>
      pop_word s3 = (sg, (c', k')) \<Longrightarrow> iret g s = (outer_segs g (set_seg SS (ucast sg) (set_gpr ESP sp c')), k')"
  using assms by (simp_all add: iret_def)

lemma iret_same_ring:
  assumes "framed lo hi k0 (c, ip # sel # fl # ws) s" "\<not> unat (sel AND 3) > cpl c"
  shows "iret g s = ((set_seg CS (ucast sel) (set_gpr ESP (12 + c_gpr c ESP) c))\<lparr>c_eip := ip, c_flags := fl\<rparr>, snd s)"
proof -
  note p1 = framed_pop [OF assms(1)] and p2 = framed_pop [OF framed_pop(2) [OF assms(1)]]
  note p3 = framed_pop(1) [OF p2(2)]
  from iret_pops(1) [OF p1(1) p2(1) [simplified] p3 [simplified]] assms(2) show ?thesis by simp
qed

lemma iret_outer_ring:
  assumes "framed lo hi k0 (c, ip # sel # fl # sp # sg # ws) s" "unat (sel AND 3) > cpl c"
  shows "iret g s = (outer_segs g (set_seg SS (ucast sg) ((set_seg CS (ucast sel) (set_gpr ESP sp c))\<lparr>c_eip := ip, c_flags := fl\<rparr>)), snd s)"
proof -
  note p1 = framed_pop [OF assms(1)] and p2 = framed_pop [OF framed_pop(2) [OF assms(1)]]
  note p3 = framed_pop [OF p2(2)]
  let ?c = "(set_seg CS (ucast sel) (set_gpr ESP (12 + c_gpr c ESP) c))\<lparr>c_eip := ip, c_flags := fl\<rparr>"
  have "framed lo hi k0 (?c, sp # sg # ws) (?c, snd s)" using framed_cpu [OF p3(2), of ?c] by simp
  note p4 = framed_pop [OF this] and p5 = framed_pop(1) [OF framed_pop(2) [OF this]]
  have "set_gpr ESP sp ?c = (set_seg CS (ucast sel) (set_gpr ESP sp c))\<lparr>c_eip := ip, c_flags := fl\<rparr>"
    by (rule cpu.equality) simp_all
  with iret_pops(2) [OF p1(1) p2(1) [simplified] p3(1) [simplified] _ p4(1) p5] assms(2) show ?thesis by simp
qed

section \<open>Calls of compiled functions\<close>

text \<open>
  What a compiled C function leaves behind besides its effect on the kernel's state. By the
  calling convention it keeps \<open>ebx\<close>, \<open>esi\<close>, \<open>edi\<close>, \<open>ebp\<close>, the stack pointer and the segment
  registers, and on the stack it changes only what lies below its return address, down to
  the end \<open>lo\<close> of the stack, and its \<open>n\<close> argument words.
\<close>

type_synonym residue = "cpu \<times> memory \<Rightarrow> cpu \<times> memory"

definition cdecl :: "u32 \<Rightarrow> nat \<Rightarrow> residue \<Rightarrow> bool" where
  "cdecl lo n res \<longleftrightarrow> (\<forall>c m. case res (c, m) of (c', m') \<Rightarrow>
     (\<forall>r. r \<notin> {EAX, ECX, EDX} \<longrightarrow> c_gpr c' r = c_gpr c r) \<and> c_seg c' = c_seg c \<and> c_cr0 c' = c_cr0 c \<and> c_cr3 c' = c_cr3 c \<and>
     (\<forall>x. \<not> stack_area lo (c_gpr c ESP) x \<and> \<not> in_obj (c_gpr c ESP + 4) (4 * n) x \<longrightarrow> m' x = m x))"

definition c_return :: "residue \<Rightarrow> st \<Rightarrow> st" where
  "c_return res = (\<lambda>(c, k). let (c', m') = res (c, k_mem k) in return_word (c', k\<lparr>k_mem := m'\<rparr>))"

definition callee_saved :: "cpu \<Rightarrow> cpu \<Rightarrow> bool" where
  "callee_saved c c' \<longleftrightarrow> (\<forall>r. r \<notin> {EAX, ECX, EDX, ESP} \<longrightarrow> c_gpr c' r = c_gpr c r) \<and> c_seg c' = c_seg c \<and>
     c_cr0 c' = c_cr0 c \<and> c_cr3 c' = c_cr3 c"

lemma stack_area_below:
  assumes "n \<le> unat (hi - lo)" "stack_area lo (hi - word_of_nat n) x"
  shows "unat (x - lo) < unat (hi - lo) - n"
  using assms unat_below [OF assms(1)] by (simp add: stack_area_def in_obj_def)

text \<open>Offsets from the stack pointer, as offsets from the end of the stack.\<close>

lemma unat_above:
  fixes hi lo :: u32
  assumes "n \<le> unat (hi - lo)" "i < n"
  shows "unat (hi - word_of_nat n + word_of_nat i - lo) = unat (hi - lo) - n + i"
proof -
  have e: "hi - word_of_nat n + word_of_nat i = hi - word_of_nat (n - i)" using assms(2) by (simp add: of_nat_diff)
  have "unat (hi - word_of_nat (n - i) - lo) = unat (hi - lo) - (n - i)" using assms by (intro unat_below) simp
  with assms show ?thesis unfolding e by linarith
qed

lemma words_at_cong:
  assumes "words_at m p ws" "p = hi - word_of_nat (4 * length ws)" "4 * length ws \<le> unat (hi - lo)"
    and "\<And>x. stack_area lo hi x \<Longrightarrow> m' x = m x"
  shows "words_at m' p ws"
  unfolding words_at_def
proof (intro allI impI)
  fix i assume i: "i < length ws"
  have "stack_area lo hi (p + word_of_nat (4 * i + j))" if "j < 4" for j
    using unat_above [OF assms(3), of "4 * i + j"] that i assms(3) unfolding assms(2) stack_area_def in_obj_def by simp
  then have "m' (p + word_of_nat (4 * i + j)) = m (p + word_of_nat (4 * i + j))" if "j < 4" for j using that assms(4) by blast
  from this [of 0] this [of 1] this [of 2] this [of 3]
  have "load32 m' (p + word_of_nat (4 * i)) = load32 m (p + word_of_nat (4 * i))" by (intro load32_cong) (simp_all add: algebra_simps)
  then show "load32 m' (p + word_of_nat (4 * i)) = ws ! i" using assms(1) i by (simp add: words_at_def)
qed

lemma cdecl_keeps:
  assumes "cdecl lo n res" "res (c, m) = (c', m')"
  shows "\<And>r. r \<notin> {EAX, ECX, EDX} \<Longrightarrow> c_gpr c' r = c_gpr c r" "callee_saved c c'"
    "\<And>x. \<not> stack_area lo (c_gpr c ESP) x \<Longrightarrow> \<not> in_obj (c_gpr c ESP + 4) (4 * n) x \<Longrightarrow> m' x = m x"
  using assms unfolding cdecl_def callee_saved_def by (fastforce split: prod.splits)+

lemma cdecl_untouched:
  assumes "cdecl lo a res" "res (c, m) = (c', m')" "c_gpr c ESP = hi - word_of_nat n" "n \<le> unat (hi - lo)"
    "4 + 4 * a \<le> n" "i < n" "i < 4 \<or> 4 + 4 * a \<le> i"
  shows "m' (c_gpr c ESP + word_of_nat i) = m (c_gpr c ESP + word_of_nat i)"
proof (rule cdecl_keeps(3) [OF assms(1,2)])
  have small: "n < 4294967296" using le_less_trans [OF assms(4) unat_lt_2p32] .
  show "\<not> stack_area lo (c_gpr c ESP) (c_gpr c ESP + word_of_nat i)"
    using stack_area_below [OF assms(4)] unat_above [OF assms(4,6)] unfolding assms(3) by fastforce
  have "unat (word_of_nat i - 4 :: u32) \<ge> 4 * a"
  proof (cases "i < 4")
    case True
    then have "unat (word_of_nat i - 4 :: u32) = 4294967296 + i - 4" by (simp add: unat_sub_if' unat_of_nat_u32)
    then show ?thesis using assms(5) small by linarith
  next
    case False
    then have "(word_of_nat i - 4 :: u32) = word_of_nat (i - 4)" by (simp add: of_nat_diff)
    moreover have "unat (word_of_nat (i - 4) :: u32) = i - 4" using assms(6) small by (intro unat_of_nat_u32) linarith
    ultimately show ?thesis using False assms(7) by (metis add_le_imp_le_diff add.commute)
  qed
  then show "\<not> in_obj (c_gpr c ESP + 4) (4 * a) (c_gpr c ESP + word_of_nat i)" by (simp add: in_obj_def)
qed

lemma cdecl_load:
  assumes "cdecl lo a res" "res (c, m) = (c', m')" "c_gpr c ESP = hi - word_of_nat n" "n \<le> unat (hi - lo)"
    "4 + 4 * a \<le> n" "i + 4 \<le> n" "i = 0 \<or> 4 + 4 * a \<le> i"
  shows "load32 m' (c_gpr c ESP + word_of_nat i) = load32 m (c_gpr c ESP + word_of_nat i)"
proof -
  have "m' (c_gpr c ESP + word_of_nat (i + j)) = m (c_gpr c ESP + word_of_nat (i + j))" if "j < 4" for j
    using that assms(6,7) by (intro cdecl_untouched [OF assms(1-5)]) auto
  from this [of 0] this [of 1] this [of 2] this [of 3] show ?thesis
    by (intro load32_cong) (simp_all add: algebra_simps)
qed

lemma cdecl_agrees:
  assumes "cdecl lo a res" "res (c, m) = (c', m')" "c_gpr c ESP = hi - word_of_nat n" "n \<le> unat (hi - lo)" "4 + 4 * a \<le> n"
  shows "agrees lo hi m m'"
  unfolding agrees_def
proof (intro allI impI)
  fix x assume x: "\<not> stack_area lo hi x"
  then have "\<not> stack_area lo (c_gpr c ESP) x"
    using stack_area_below [OF assms(4)] unfolding assms(3) by (fastforce simp: stack_area_def in_obj_def)
  moreover have "\<not> in_obj (c_gpr c ESP + 4) (4 * a) x"
  proof
    assume "in_obj (c_gpr c ESP + 4) (4 * a) x"
    then obtain j where j: "j < 4 * a" "unat (x - (c_gpr c ESP + 4)) = j" by (simp add: in_obj_def)
    then have "x - (c_gpr c ESP + 4) = word_of_nat j" by (metis unat_lt_2p32 of_nat_eq_u32_iff)
    then have "x = hi - word_of_nat n + word_of_nat (4 + j)" by (simp add: assms(3) algebra_simps)
    then have "unat (x - lo) = unat (hi - lo) - n + (4 + j)" using unat_above [OF assms(4), of "4 + j"] j(1) assms(5) by simp
    then have "unat (x - lo) < unat (hi - lo)" using assms(4,5) j(1) by linarith
    with x show False by (simp add: stack_area_def in_obj_def)
  qed
  ultimately show "m' x = m x" by (rule cdecl_keeps(3) [OF assms(1,2)])
qed

lemma c_return_framed:
  assumes f: "framed lo hi k0 (c, ra # args @ ws) (c, k)" and cd: "cdecl lo (length args) res"
    and room: "4 * length (ra # args @ ws) \<le> unat (hi - lo)"
  obtains c' args' where "length args' = length args" "framed lo hi k0 (c', args' @ ws) (c_return res (c, k))" "c_eip c' = ra"
    "callee_saved c c'" "fst (c_return res (c, k)) = c'"
proof -
  obtain c1 m1 where r: "res (c, k_mem k) = (c1, m1)" by fastforce
  let ?p = "c_gpr c ESP" and ?a = "length args" and ?n = "4 * length (ra # args @ ws)"
  have p: "?p = hi - word_of_nat ?n" and w: "words_at (k_mem k) ?p (ra # args @ ws)"
    using f unfolding framed_def fst_conv snd_conv by blast+
  note same = cdecl_load [OF cd r p room]
  let ?new = "map (\<lambda>i. load32 m1 (?p + 4 + word_of_nat (4 * i))) [0..<?a]"
  have "load32 m1 (?p + 4 + word_of_nat (4 * i)) = (?new @ ws) ! i" if "i < length (?new @ ws)" for i
  proof (cases "i < ?a")
    case False
    then have i: "Suc i < length (ra # args @ ws)" "(ra # args @ ws) ! Suc i = ws ! (i - ?a)" using that by (simp_all add: nth_append)
    have "load32 m1 (?p + word_of_nat (4 * Suc i)) = load32 (k_mem k) (?p + word_of_nat (4 * Suc i))"
      using i(1) False by (intro same) auto
    also have "\<dots> = ws ! (i - ?a)" using w i unfolding words_at_def by metis
    finally show ?thesis using False by (simp add: nth_append algebra_simps)
  qed (simp add: nth_append)
  then have "words_at m1 (?p + 4) (?new @ ws)" by (simp add: words_at_def)
  moreover have "load32 m1 ?p = ra" using same [of 0] w by (simp add: words_at_Cons)
  ultimately have "words_at m1 ?p (ra # ?new @ ws)" by (simp only: words_at_Cons simp_thms)
  moreover have "agrees lo hi (k_mem k0) m1"
    using f agrees_trans [OF _ cdecl_agrees [OF cd r p room]] by (simp add: framed_def)
  ultimately have f1: "framed lo hi k0 (c1, ra # ?new @ ws) (c1, k\<lparr>k_mem := m1\<rparr>)"
    using f p cdecl_keeps(1) [OF cd r, of ESP] by (simp add: framed_def)
  let ?c = "(set_gpr ESP (c_gpr c1 ESP + 4) c1)\<lparr>c_eip := ra\<rparr>"
  have ret: "c_return res (c, k) = (?c, k\<lparr>k_mem := m1\<rparr>)"
    using framed_pop(1) [OF f1] by (simp add: c_return_def r return_word_def)
  moreover have "framed lo hi k0 (?c, ?new @ ws) (?c, k\<lparr>k_mem := m1\<rparr>)" using framed_cpu [OF framed_pop(2) [OF f1], of ?c] by simp
  moreover have "callee_saved c ?c" using cdecl_keeps(2) [OF cd r] by (simp add: callee_saved_def)
  ultimately show thesis by (intro that [of ?new ?c]) simp_all
qed

text \<open>The kernel's state changes while its memory stays.\<close>

lemma framed_change:
  assumes "framed lo hi k0 a (c, k)" "k_mem k' = k_mem k"
  shows "framed lo hi (k'\<lparr>k_mem := k_mem k0\<rparr>) a (c, k')"
proof -
  have "k'\<lparr>k_mem := k_mem (k'\<lparr>k_mem := k_mem k0\<rparr>)\<rparr> = k'\<lparr>k_mem := k_mem k0\<rparr>" "k_mem (k'\<lparr>k_mem := k_mem k0\<rparr>) = k_mem k0" by simp_all
  then show ?thesis using assms(1) unfolding framed_def fst_conv snd_conv assms(2) by metis
qed

end
