(* ===== verification/Stubs.thy ===== *)
theory Stubs
  imports X86
begin

text \<open>
  The assembly entry points of the kernel: \<open>arch/x86/cpu/isr.s\<close> (one stub per vector, all
  continuing in \<open>common_interrupt_handler\<close>) and \<open>kernel/syscall.s\<close> (\<open>Int128Handler\<close>), with the C
  structures they build on the stack. A \<open>jmp\<close> to a label is the code at the label. Return
  addresses of the calls are parameters.
\<close>

section \<open>arch/x86/cpu/isr.s\<close>

text \<open>The vectors whose stubs expect the processor to push an error code.\<close>

definition error_vectors :: "nat list" where
  "error_vectors = [8, 10, 11, 12, 13, 14, 17]"

definition common_save :: "instr list" where
  "common_save =
     [PUSH (Reg EAX), PUSH (Reg ECX), PUSH (Reg EDX), PUSH (Reg EBX), PUSH (Reg ESP), PUSH (Reg EBP), PUSH (Reg ESI), PUSH (Reg EDI),
      PUSH (Stk 32),
      LEA EAX 40, PUSH (Reg EAX),
      LEA EAX 8, PUSH (Reg EAX)]"

definition common_restore :: "instr list" where
  "common_restore =
     [ADD ESP 12,
      POP EDI, POP ESI, POP EBP, ADD ESP 4, POP EBX, POP EDX, POP ECX, POP EAX,
      ADD ESP 8]"

definition common_interrupt_handler :: "u32 \<Rightarrow> instr list" where
  "common_interrupt_handler ra = common_save @ [CALL C_interrupt_handler ra] @ common_restore @ [IRET]"

text \<open>The two macros: only vectors without an error code of the processor get a 0 in its place.\<close>

definition stub_head :: "nat \<Rightarrow> instr list" where
  "stub_head n = (if n \<in> set error_vectors then [PUSH (Imm (word_of_nat n))] else [PUSH (Imm 0), PUSH (Imm (word_of_nat n))])"

definition interrupt_stub :: "u32 \<Rightarrow> nat \<Rightarrow> instr list" where
  "interrupt_stub ra n = stub_head n @ common_interrupt_handler ra"

text \<open>The structures of \<open>include/arch/x86/isr.h\<close>, read from memory.\<close>

record registers =
  g_edi :: u32
  g_esi :: u32
  g_ebp :: u32
  g_esp :: u32
  g_ebx :: u32
  g_edx :: u32
  g_ecx :: u32
  g_eax :: u32

record stack_state =
  s_error_code :: u32
  s_eip :: u32
  s_cs :: u32
  s_eflags :: u32

definition registers_at :: "memory \<Rightarrow> u32 \<Rightarrow> registers" where
  "registers_at m p = \<lparr>g_edi = load32 m p, g_esi = load32 m (p + 4), g_ebp = load32 m (p + 8), g_esp = load32 m (p + 12),
     g_ebx = load32 m (p + 16), g_edx = load32 m (p + 20), g_ecx = load32 m (p + 24), g_eax = load32 m (p + 28)\<rparr>"

definition stack_state_at :: "memory \<Rightarrow> u32 \<Rightarrow> stack_state" where
  "stack_state_at m p = \<lparr>s_error_code = load32 m p, s_eip = load32 m (p + 4), s_cs = load32 m (p + 8), s_eflags = load32 m (p + 12)\<rparr>"

text \<open>
  The compiled \<open>interrupt_handler\<close>, at its entry: the return address at the stack pointer,
  the three arguments above it. It does not use the first two.
\<close>

definition call_interrupt_handler :: "hardware \<Rightarrow> residue \<Rightarrow> st \<Rightarrow> st option" where
  "call_interrupt_handler hw res = (\<lambda>(c, k).
     map_option (\<lambda>k. c_return res (c, k)) (interrupt_handler hw (load32 (k_mem k) (c_gpr c ESP + 12)) k))"

section \<open>kernel/syscall.s\<close>

definition syscall_save :: "instr list" where
  "syscall_save =
     [PUSH (Reg EAX), PUSHS GS, PUSHS FS, PUSHS ES, PUSHS DS, PUSH (Imm (- ENOSYS)),
      PUSH (Reg EBP), PUSH (Reg EDI), PUSH (Reg ESI), PUSH (Reg EDX), PUSH (Reg ECX), PUSH (Reg EBX),
      MOV16 EAX 0x10, MOVS DS EAX, MOVS ES EAX,
      CLD,
      PUSH (Reg ESP)]"

definition syscall_restore :: "instr list" where
  "syscall_restore =
     [ADD ESP 4,
      POP EBX, POP ECX, POP EDX, POP ESI, POP EDI, POP EBP,
      ADD ESP 4,
      POPS DS, POPS ES, POPS FS, POPS GS,
      POP EAX]"

definition Int128Handler :: "u32 \<Rightarrow> instr list" where
  "Int128Handler ra = syscall_save @ [CALL C_do_syscall ra] @ syscall_restore @ [IRET]"

text \<open>The structure of \<open>include/kernel/syscall.h\<close>, read from memory.\<close>

definition pt_regs_at :: "memory \<Rightarrow> u32 \<Rightarrow> pt_regs" where
  "pt_regs_at m p = \<lparr>r_ebx = load32 m p, r_ecx = load32 m (p + 4), r_edx = load32 m (p + 8), r_esi = load32 m (p + 12),
     r_edi = load32 m (p + 16), r_ebp = load32 m (p + 20), r_orig_eax = load32 m (p + 24), r_ds = load32 m (p + 28),
     r_es = load32 m (p + 32), r_fs = load32 m (p + 36), r_gs = load32 m (p + 40), r_eax = load32 m (p + 44),
     r_eip = load32 m (p + 48), r_cs = load32 m (p + 52), r_eflags = load32 m (p + 56), r_esp = load32 m (p + 60),
     r_ss = load32 m (p + 64)\<rparr>"

text \<open>
  The compiled \<open>do_syscall_in_C\<close>: its argument points to the saved registers, of which it
  assigns \<open>eax\<close> only.
\<close>

definition call_do_syscall :: "hardware \<Rightarrow> residue \<Rightarrow> st \<Rightarrow> st option" where
  "call_do_syscall hw res = (\<lambda>(c, k).
     let p = load32 (k_mem k) (c_gpr c ESP + 4);
         regs = (if p = 0 then None else Some (pt_regs_at (k_mem k) p))
     in Option.bind (do_syscall_in_C hw regs k) (\<lambda>(r, k).
          Some (c_return res (c, case r of None \<Rightarrow> k
            | Some r \<Rightarrow> k\<lparr>k_mem := store32 (p + 44) (r_eax r) (k_mem k)\<rparr>))))"

section \<open>Interrupts\<close>

record platform =
  p_hw :: hardware
  p_res :: "fname \<Rightarrow> residue"
  p_tss :: tss_entry
  p_gdt :: gdt_state
  p_idt :: idt_state
  p_stubs :: "u32 list"
  p_int128 :: u32
  p_ret_isr :: u32
  p_ret_syscall :: u32
  p_stack :: u32

definition kernel_text :: "platform \<Rightarrow> u32 \<Rightarrow> instr list option" where
  "kernel_text P a =
     (if a = p_int128 P then Some (Int128Handler (p_ret_syscall P))
      else map_option (interrupt_stub (p_ret_isr P)) (find (\<lambda>i. p_stubs P ! i = a) [0..<48]))"

definition kernel_env :: "platform \<Rightarrow> env" where
  "kernel_env P = \<lparr>e_call = (\<lambda>f. case f of C_interrupt_handler \<Rightarrow> call_interrupt_handler (p_hw P) (p_res P C_interrupt_handler)
       | C_do_syscall \<Rightarrow> call_do_syscall (p_hw P) (p_res P C_do_syscall) | _ \<Rightarrow> (\<lambda>_. None)),
     e_trap = (\<lambda>_ _. None), e_gdt = p_gdt P, e_hw = p_hw P\<rparr>"

text \<open>The processor takes vector \<open>n\<close>: it enters through the gate and runs the code there.\<close>

definition deliver :: "platform \<Rightarrow> nat \<Rightarrow> u32 list \<Rightarrow> st \<Rightarrow> st option" where
  "deliver P n err s =
     (let s = interrupt_entry (p_tss P) (idt (p_idt P) ! n) err s
      in Option.bind (kernel_text P (c_eip (fst s))) (\<lambda>code. exec (kernel_env P) code s))"

text \<open>
  A platform as the kernel sets it up: the tables of \<open>idt_init\<close> and \<open>syscall_init\<close>, the labels
  different addresses, the compiled C functions following the calling convention on the kernel's
  stack, with one and three argument words.
\<close>

definition platform_ok :: "platform \<Rightarrow> bool" where
  "platform_ok P \<longleftrightarrow> length (p_stubs P) = 48 \<and> distinct (p_int128 P # p_stubs P) \<and>
     idt (p_idt P) = (map (\<lambda>i. mk_gate (p_stubs P ! i) 0x08 0x8E) [0..<48] @ replicate 208 (mk_gate 0 0 0))
       [128 := mk_gate (p_int128 P) 0x08 0xEE] \<and>
     cdecl (p_stack P) 1 (p_res P C_do_syscall) \<and> cdecl (p_stack P) 3 (p_res P C_interrupt_handler)"

lemma platform_tables:
  assumes "length (idt s) = 256" "idt_init idt_addr (p_stubs P) (s, tr) = (s1, tr')" "p_idt P = syscall_init (p_int128 P) s1"
    "length (p_stubs P) = 48" "distinct (p_int128 P # p_stubs P)" "cdecl (p_stack P) 1 (p_res P C_do_syscall)"
    "cdecl (p_stack P) 3 (p_res P C_interrupt_handler)"
  shows "platform_ok P"
proof -
  have "idt s1 = map (\<lambda>i. mk_gate (p_stubs P ! i) 0x08 0x8E) [0..<48] @ replicate 208 (mk_gate 0 0 0)"
    using idt_init_table [OF assms(1)] assms(2) by (metis fst_conv)
  then show ?thesis using assms(3-7) by (simp add: platform_ok_def syscall_init_def idt_set_gate_mk)
qed

lemma gate_of_vector:
  assumes "platform_ok P" "n < 48"
  shows "idt (p_idt P) ! n = mk_gate (p_stubs P ! n) 0x08 0x8E"
  using assms by (simp add: platform_ok_def nth_append)

lemma gate_of_syscall: "platform_ok P \<Longrightarrow> idt (p_idt P) ! 128 = mk_gate (p_int128 P) 0x08 0xEE"
  by (simp add: platform_ok_def)

lemma text_of_stub:
  assumes "platform_ok P" "n < 48"
  shows "kernel_text P (p_stubs P ! n) = Some (interrupt_stub (p_ret_isr P) n)"
proof -
  have d: "distinct (p_stubs P)" "length (p_stubs P) = 48" "p_int128 P \<notin> set (p_stubs P)"
    using assms(1) by (simp_all add: platform_ok_def)
  then have "p_stubs P ! n \<noteq> p_int128 P" using assms(2) by (metis nth_mem)
  moreover have "find (\<lambda>i. p_stubs P ! i = p_stubs P ! n) [0..<48] = Some n"
    using d assms(2) by (subst find_Some_iff) (auto simp: nth_eq_iff_index_eq intro!: exI [of _ n])
  ultimately show ?thesis by (simp add: kernel_text_def)
qed

lemma text_of_syscall: "kernel_text P (p_int128 P) = Some (Int128Handler (p_ret_syscall P))"
  by (simp add: kernel_text_def)

section \<open>A concrete platform\<close>

text \<open>
  A callee that overwrites its scratch registers and its first argument word, and the tables
  of a booted kernel at plausible addresses.
\<close>

definition sample_residue :: residue where
  "sample_residue = (\<lambda>(c, m). (set_gpr EAX 0 (set_gpr ECX 1 (set_gpr EDX 2 c)), store32 (c_gpr c ESP + 4) 0xDEADBEEF m))"

lemma cdecl_sample: "0 < n \<Longrightarrow> cdecl lo n sample_residue"
proof -
  assume "0 < n"
  then have "\<not> in_obj a (4 * n) x \<Longrightarrow> \<not> in_obj a 4 x" for a x :: u32 using in_obj_mono [of a 4 x "4 * n"] by auto
  then show ?thesis by (simp add: cdecl_def sample_residue_def store32_other)
qed

definition sample_stubs :: "u32 list" where
  "sample_stubs = map (\<lambda>i. 0xC0100200 + word_of_nat (16 * i)) [0..<48]"

definition sample_gdt :: gdt_state where
  "sample_gdt = tss_set_kernel_stack 0xC0121000 (fst (gdt_init 0xC0104000 0xC0104040 (gdt_bss, [])))"

definition sample_platform :: "hardware \<Rightarrow> platform" where
  "sample_platform hw = \<lparr>p_hw = hw, p_res = (\<lambda>_. sample_residue), p_tss = tss sample_gdt, p_gdt = sample_gdt,
     p_idt = syscall_init 0xC0100100 (fst (idt_init 0xC0105000 sample_stubs (idt_bss, []))), p_stubs = sample_stubs,
     p_int128 = 0xC0100100, p_ret_isr = 0xC01001A0, p_ret_syscall = 0xC0100140, p_stack = 0xC0120000\<rparr>"

definition user_cpu :: "u32 \<Rightarrow> u32 \<Rightarrow> cpu" where
  "user_cpu ip sp = \<lparr>c_gpr = (\<lambda>r. if r = ESP then sp else 7), c_seg = (\<lambda>s. if s = CS then 0x1B else 0x23), c_eip = ip,
     c_flags = 0x202, c_cr0 = 0x80000011, c_cr3 = 0x108000\<rparr>"

lemma sample_platform_ok: "platform_ok (sample_platform hw)"
proof (rule platform_tables)
  show "length (idt idt_bss) = 256" by (simp add: idt_bss_def)
  show "idt_init 0xC0105000 (p_stubs (sample_platform hw)) (idt_bss, []) =
      (fst (idt_init 0xC0105000 sample_stubs (idt_bss, [])), snd (idt_init 0xC0105000 sample_stubs (idt_bss, [])))"
    by (simp add: sample_platform_def)
  have "inj_on (\<lambda>i. 0xC0100200 + word_of_nat (16 * i) :: u32) {0..<48}"
    by (intro inj_onI) (simp add: of_nat_u32_inject del: of_nat_mult)
  moreover have "0xC0100200 + word_of_nat (16 * i) \<noteq> (0xC0100100 :: u32)" if "i < 48" for i
  proof -
    have "unat (0xC0100200 + word_of_nat (16 * i) :: u32) = 0xC0100200 + 16 * i"
      using that by (simp add: unat_add_u32 unat_of_nat_u32 del: of_nat_mult)
    then show ?thesis by (auto simp: u32_nat)
  qed
  ultimately show "distinct (p_int128 (sample_platform hw) # p_stubs (sample_platform hw))"
    by (auto simp: sample_platform_def sample_stubs_def distinct_map)
qed (simp_all add: sample_platform_def sample_stubs_def cdecl_sample)

lemma sample_platform_simps [simp]:
  "p_hw (sample_platform hw) = hw" "p_gdt (sample_platform hw) = sample_gdt" "p_stack (sample_platform hw) = 0xC0120000"
  "t_esp0 (p_tss (sample_platform hw)) = 0xC0121000"
  by (simp_all add: sample_platform_def sample_gdt_def tss_set_kernel_stack_def)

lemma user_cpu_simps [simp]:
  "c_gpr (user_cpu ip sp) ESP = sp" "c_eip (user_cpu ip sp) = ip" "cpl (user_cpu ip sp) = 3" "c_seg (user_cpu ip sp) SS = 0x23"
  by (simp_all add: user_cpu_def cpl_def)

end
