(* ===== verification/Isr_Stub.thy ===== *)
theory Isr_Stub
  imports Stubs
begin

text \<open>
  The interrupt stubs of \<open>arch/x86/cpu/isr.s\<close> at work: the arguments \<open>interrupt_handler\<close> gets,
  and that an interrupt or exception, from ring 0 or ring 3, leaves no trace in the
  interrupted program.
\<close>

section \<open>The two halves of the common handler\<close>

definition err_ok :: "nat \<Rightarrow> u32 list \<Rightarrow> bool" where
  "err_ok n err \<longleftrightarrow> length err = (if n \<in> set error_vectors then 1 else 0)"

definition err_word :: "u32 list \<Rightarrow> u32" where
  "err_word err = (case err of [] \<Rightarrow> 0 | e # _ \<Rightarrow> e)"

lemma aexec_append: "aexec (a @ b) s = Option.bind (aexec a s) (aexec b)"
  by (induction a arbitrary: s) (auto split: bind_split)

lemma stub_head_run:
  assumes "err_ok n err"
  shows "aexec (stub_head n) (c, rev err @ ws) =
    Some (set_gpr ESP (c_gpr c ESP - word_of_nat (4 * (2 - length err))) c, word_of_nat n # err_word err # ws)"
proof (cases "n \<in> set error_vectors")
  case True
  then obtain e where "err = [e]" using assms by (auto simp: err_ok_def length_Suc_conv)
  with True show ?thesis by (simp add: stub_head_def apush_def err_word_def)
next
  case False
  then have "err = []" using assms by (simp add: err_ok_def)
  with False show ?thesis by (simp add: stub_head_def apush_def err_word_def)
qed

lemma common_save_run:
  "\<exists>c'. aexec common_save (c, n # er # ws) = Some (c',
     [c_gpr c ESP - 32, c_gpr c ESP + 4, n, c_gpr c EDI, c_gpr c ESI, c_gpr c EBP, c_gpr c ESP - 16, c_gpr c EBX, c_gpr c EDX,
      c_gpr c ECX, c_gpr c EAX, n, er] @ ws) \<and>
     c_seg c' = c_seg c \<and> c_gpr c' EBX = c_gpr c EBX \<and> c_cr0 c' = c_cr0 c \<and> c_cr3 c' = c_cr3 c \<and> c_gpr c' ESP = c_gpr c ESP - 44"
  by (simp add: common_save_def apush_def)

lemma common_restore_run:
  "aexec common_restore (c, [a1, a2, a3, edi, esi, ebp, sp, ebx, edx, ecx, eax, n, er] @ ws) = Some (c', ws) \<Longrightarrow>
    c_gpr c' = (\<lambda>r. case r of EDI \<Rightarrow> edi | ESI \<Rightarrow> esi | EBP \<Rightarrow> ebp | EBX \<Rightarrow> ebx | EDX \<Rightarrow> edx | ECX \<Rightarrow> ecx | EAX \<Rightarrow> eax | ESP \<Rightarrow> c_gpr c ESP + 52) \<and>
    c_seg c' = c_seg c \<and> c_cr0 c' = c_cr0 c \<and> c_cr3 c' = c_cr3 c"
  by (auto simp: common_restore_def fun_eq_iff split: gpr.split)

lemma common_restore_returns:
  "\<exists>c'. aexec common_restore (c, [a1, a2, a3, edi, esi, ebp, sp, ebx, edx, ecx, eax, n, er] @ ws) = Some (c', ws)"
  by (simp add: common_restore_def)

section \<open>Delivery\<close>

lemma rpl_ucast [simp]: "unat (ucast (x :: u16) AND 3 :: u32) = unat (x AND 3)"
proof -
  have "(ucast x AND 3 :: u32) = ucast (x AND 3)"
    by (rule bit_word_eqI) (auto simp: bit_simps bit_numeral_rec dest: bit_imp_le_length)
  moreover have "take_bit 32 (unat (x AND 3)) = unat (x AND 3)"
    by (rule take_bit_nat_eq_self, rule less_trans [OF unsigned_less]) simp
  ultimately show ?thesis by (simp add: unsigned_ucast_eq take_bit_word_eq_self)
qed

lemma ucast_selector [simp]: "ucast (ucast (x :: u16) :: u32) = x"
  by (rule bit_word_eqI) (auto simp: bit_simps)

text \<open>What the processor left on the stack, and the stack while the C handler runs.\<close>

definition frame_tail :: "cpu \<Rightarrow> u32 list" where
  "frame_tail c = [c_eip c, ucast (c_seg c CS), c_flags c] @ (if cpl c = 0 then [] else [c_gpr c ESP, ucast (c_seg c SS)])"

definition saved_words :: "cpu \<Rightarrow> u32 \<Rightarrow> nat \<Rightarrow> u32 list \<Rightarrow> u32 list" where
  "saved_words c p n err = [p - 32, p + 4, word_of_nat n, c_gpr c EDI, c_gpr c ESI, c_gpr c EBP, p - 16, c_gpr c EBX, c_gpr c EDX,
     c_gpr c ECX, c_gpr c EAX, word_of_nat n, err_word err] @ frame_tail c"

definition entry_pointer :: "tss_entry \<Rightarrow> cpu \<Rightarrow> u32" where
  "entry_pointer t c = entry_stack t c - word_of_nat (4 * (2 + length (frame_tail c)))"

lemma stub_saves:
  assumes "err_ok n err"
  shows "\<exists>c'. aexec (stub_head n @ common_save) (entry_cpu t e err c, entry_frame_words err c) =
      Some (c', saved_words c (entry_pointer t c) n err) \<and>
    c_seg c' = c_seg (entry_cpu t e err c) \<and> c_cr0 c' = c_cr0 c \<and> c_cr3 c' = c_cr3 c"
proof -
  let ?c = "set_gpr ESP (c_gpr (entry_cpu t e err c) ESP - word_of_nat (4 * (2 - length err))) (entry_cpu t e err c)"
  have "length err \<le> 2" using assms by (simp add: err_ok_def)
  then have "4 * length (entry_frame_words err c) + 4 * (2 - length err) = 4 * (2 + length (frame_tail c))"
    by (simp add: entry_frame_words_def frame_tail_def)
  then have "word_of_nat (4 * length (entry_frame_words err c)) + word_of_nat (4 * (2 - length err)) =
      (word_of_nat (4 * (2 + length (frame_tail c))) :: u32)"
    by (metis of_nat_add)
  then have esp: "c_gpr ?c ESP = entry_pointer t c"
    by (simp add: entry_cpu_def entry_pointer_def algebra_simps del: of_nat_mult of_nat_add)
  have other: "r \<noteq> ESP \<Longrightarrow> c_gpr ?c r = c_gpr c r" for r by (simp add: entry_cpu_def)
  have "aexec (stub_head n) (entry_cpu t e err c, entry_frame_words err c) = Some (?c, word_of_nat n # err_word err # frame_tail c)"
    using stub_head_run [OF assms, of _ "frame_tail c"] by (simp add: entry_frame_words_def frame_tail_def)
  with common_save_run [of ?c "word_of_nat n" "err_word err" "frame_tail c"] show ?thesis
    unfolding aexec_append esp saved_words_def by (auto simp: other entry_cpu_def)
qed

lemma stub_reaches_call:
  assumes "err_ok n err" "128 \<le> unat (entry_stack t c - lo)"
  shows "\<exists>c2 s2. exec E (stub_head n @ common_save) (interrupt_entry t e err (c, k)) = Some s2 \<and>
    framed lo (entry_stack t c) k (c2, saved_words c (entry_pointer t c) n err) s2 \<and>
    c_seg c2 = c_seg (entry_cpu t e err c) \<and> c_cr0 c2 = c_cr0 c \<and> c_cr3 c2 = c_cr3 c"
    "framed lo (entry_stack t c) k (entry_cpu t e err c, entry_frame_words err c) (interrupt_entry t e err (c, k))"
proof -
  have len: "length (frame_tail c) \<le> 5" "length err \<le> 1" using assms(1) by (auto simp: frame_tail_def err_ok_def)
  have "length (stub_head n) + length (entry_frame_words err c) \<le> 7" "length (entry_frame_words err c) \<le> 6"
    using assms(1) len by (auto simp: stub_head_def err_ok_def entry_frame_words_def frame_tail_def)
  then have "4 * length (entry_frame_words err c) \<le> unat (entry_stack t c - lo)"
    and r: "4 * (length (snd (entry_cpu t e err c, entry_frame_words err c)) + length (stub_head n @ common_save)) \<le> unat (entry_stack t c - lo)"
    using assms(2) by (simp_all add: common_save_def)
  then show f: "framed lo (entry_stack t c) k (entry_cpu t e err c, entry_frame_words err c) (interrupt_entry t e err (c, k))"
    by (intro interrupt_entry_framed)
  obtain c2 where "aexec (stub_head n @ common_save) (entry_cpu t e err c, entry_frame_words err c) =
      Some (c2, saved_words c (entry_pointer t c) n err)" "c_seg c2 = c_seg (entry_cpu t e err c) \<and> c_cr0 c2 = c_cr0 c \<and> c_cr3 c2 = c_cr3 c"
    using stub_saves [OF assms(1)] by blast
  with aexec_sim [OF f _ r] show "\<exists>c2 s2. exec E (stub_head n @ common_save) (interrupt_entry t e err (c, k)) = Some s2 \<and>
      framed lo (entry_stack t c) k (c2, saved_words c (entry_pointer t c) n err) s2 \<and>
      c_seg c2 = c_seg (entry_cpu t e err c) \<and> c_cr0 c2 = c_cr0 c \<and> c_cr3 c2 = c_cr3 c"
    by blast
qed

text \<open>The call: from the saved registers through the C function and back to the saved registers.\<close>

lemma handler_entered:
  assumes f: "framed (p_stack P) hi k (c2, saved_words c p n err) s"
    and room: "4 * (Suc (length (saved_words c p n err))) \<le> unat (hi - p_stack P)"
  obtains c3 k3 where "push_word ra s = (c3, k3)" "callee_saved c2 c3"
    "framed (p_stack P) hi k (c3, ra # saved_words c p n err) (c3, k3)"
    "e_call (kernel_env P) C_interrupt_handler (c3, k3) =
       map_option (\<lambda>k'. c_return (p_res P C_interrupt_handler) (c3, k'\<lparr>k_mem := k_mem k3\<rparr>)) (interrupt_handler (p_hw P) (word_of_nat n) k)"
proof -
  let ?ws = "saved_words c p n err"
  have f3: "framed (p_stack P) hi k (apush ra (c2, ?ws)) (push_word ra s)"
    using framed_push [OF f] room by simp
  obtain c3 k3 where s3: "push_word ra s = (c3, k3)" by fastforce
  have c3: "apush ra (c2, ?ws) = (c3, ra # ?ws)" "callee_saved c2 c3"
    using f3 unfolding s3 by (auto simp: framed_def apush_def callee_saved_def)
  note f3 = f3 [unfolded s3 c3(1)]
  have k3: "k3 = k\<lparr>k_mem := k_mem k3\<rparr>" using framed_kernel [OF f3] by simp
  have "load32 (k_mem k3) (c_gpr c3 ESP + word_of_nat (4 * 3)) = word_of_nat n"
    using framedD(2) [OF f3, unfolded words_at_def] by (elim allE [of _ 3]) (simp add: saved_words_def)
  moreover have "interrupt_handler (p_hw P) (word_of_nat n) k3 =
      map_option (\<lambda>k'. k'\<lparr>k_mem := k_mem k3\<rparr>) (interrupt_handler (p_hw P) (word_of_nat n) k)"
    by (subst k3) (simp only: interrupt_any_mem)
  ultimately show thesis
    using that [OF s3 c3(2) f3] by (simp add: kernel_env_def call_interrupt_handler_def option.map_comp comp_def)
qed

lemma handler_call:
  assumes ok: "platform_ok P" and f: "framed (p_stack P) hi k (c2, saved_words c p n err) s" and n: "n < 48"
    and room: "4 * (Suc (length (saved_words c p n err))) \<le> unat (hi - p_stack P)"
    and run: "interrupt_handler (p_hw P) (word_of_nat n) k = Some k'"
  obtains c' args s' where "exec1 (kernel_env P) (CALL C_interrupt_handler ra) s = Some s'" "length args = 3"
    "framed (p_stack P) hi k' (c', args @ drop 3 (saved_words c p n err)) s'" "callee_saved c2 c'"
proof -
  let ?ws = "saved_words c p n err"
  obtain c3 k3 where s3: "push_word ra s = (c3, k3)" and c3: "callee_saved c2 c3" and f3: "framed (p_stack P) hi k (c3, ra # ?ws) (c3, k3)"
    and call: "e_call (kernel_env P) C_interrupt_handler (c3, k3) = Some (c_return (p_res P C_interrupt_handler) (c3, k'\<lparr>k_mem := k_mem k3\<rparr>))"
    using handler_entered [OF f room] run by (metis option.simps(9))
  have mem: "k_mem k' = k_mem k" using interrupt_mem [OF run] .
  have f4: "framed (p_stack P) hi k' (c3, ra # take 3 ?ws @ drop 3 ?ws) (c3, k'\<lparr>k_mem := k_mem k3\<rparr>)"
    using framed_change [OF f3, of "k'\<lparr>k_mem := k_mem k3\<rparr>"] mem [symmetric] by simp
  have "cdecl (p_stack P) (length (take 3 ?ws)) (p_res P C_interrupt_handler)" using ok by (simp add: platform_ok_def saved_words_def numeral_3_eq_3)
  moreover have "4 * length (ra # take 3 ?ws @ drop 3 ?ws) \<le> unat (hi - p_stack P)" using room by simp
  ultimately obtain c' args where r: "length args = length (take 3 ?ws)"
    "framed (p_stack P) hi k' (c', args @ drop 3 ?ws) (c_return (p_res P C_interrupt_handler) (c3, k'\<lparr>k_mem := k_mem k3\<rparr>))"
    "c_eip c' = ra" "callee_saved c3 c'" "fst (c_return (p_res P C_interrupt_handler) (c3, k'\<lparr>k_mem := k_mem k3\<rparr>)) = c'"
    by (rule c_return_framed [OF f4])
  show thesis
  proof (rule that)
    show "exec1 (kernel_env P) (CALL C_interrupt_handler ra) s = Some (c_return (p_res P C_interrupt_handler) (c3, k'\<lparr>k_mem := k_mem k3\<rparr>))"
      using call r(3,5) by (simp add: s3 back_at_def)
    show "callee_saved c2 c'" using c3 r(4) by (simp add: callee_saved_def)
  qed (use r in \<open>simp_all add: saved_words_def\<close>)
qed

text \<open>The registers are back, and \<open>iret\<close> finds the frame the processor pushed.\<close>

text \<open>
  The interrupted program's data segment registers name segments that it may keep, and \<open>ds\<close> and \<open>es\<close> name
  flat ones: \<open>common_interrupt_handler\<close> does not load the kernel's, so the C handler runs with them.
\<close>

definition segs_kept :: "gdt_state \<Rightarrow> cpu \<Rightarrow> bool" where
  "segs_kept g c \<longleftrightarrow> (\<forall>s \<in> {DS, ES, FS, GS}. outer_seg g (c_seg c s) = c_seg c s) \<and>
     flat_segment 3 (descriptor_of g (ucast (c_seg c DS))) \<and> flat_segment 3 (descriptor_of g (ucast (c_seg c ES)))"

lemma outer_segs_same: "segs_kept g c \<Longrightarrow> outer_segs g c = c"
  by (rule cpu.equality) (auto simp: outer_segs_def segs_kept_def fun_eq_iff)

text \<open>
  \<open>iret\<close> on the frame of the interrupted program \<open>c\<close>, in a state \<open>c5\<close> whose other registers are
  those of \<open>c\<close>.
\<close>

lemma iret_restores:
  assumes f: "framed lo (entry_stack t c) k0 (c5, frame_tail c) s" and ring: "cpl c = 0 \<or> cpl c = 3"
    and segs: "cpl c \<noteq> 0 \<Longrightarrow> segs_kept g c"
    and c5: "\<And>r. r \<noteq> ESP \<Longrightarrow> c_gpr c5 r = c_gpr c r" "\<And>sg. sg \<notin> {CS, SS} \<Longrightarrow> c_seg c5 sg = c_seg c sg" "c_seg c5 CS = 8"
      "cpl c = 0 \<Longrightarrow> c_seg c5 SS = c_seg c SS" "c_cr0 c5 = c_cr0 c" "c_cr3 c5 = c_cr3 c"
  shows "iret g s = (c, snd s)"
proof -
  have k: "cpl c5 = 0" by (simp add: cpl_def c5(3))
  show ?thesis
  proof (cases "cpl c = 0")
    case True
    then have f': "framed lo (entry_stack t c) k0 (c5, c_eip c # ucast (c_seg c CS) # c_flags c # []) s"
      using f by (simp add: frame_tail_def)
    have "12 + c_gpr c5 ESP = c_gpr c ESP" using framedD(3) [OF f'] True by (simp add: entry_stack_def)
    then have "(set_seg CS (ucast (ucast (c_seg c CS) :: u32)) (set_gpr ESP (12 + c_gpr c5 ESP) c5))\<lparr>c_eip := c_eip c, c_flags := c_flags c\<rparr> = c"
      using c5 True by (intro cpu.equality) (auto simp: fun_eq_iff)
    with iret_same_ring [OF f'] k True show ?thesis by (simp add: cpl_def)
  next
    case False
    then have f': "framed lo (entry_stack t c) k0 (c5, c_eip c # ucast (c_seg c CS) # c_flags c # c_gpr c ESP # ucast (c_seg c SS) # []) s"
      using f by (simp add: frame_tail_def)
    have "set_seg SS (ucast (ucast (c_seg c SS) :: u32)) ((set_seg CS (ucast (ucast (c_seg c CS) :: u32)) (set_gpr ESP (c_gpr c ESP) c5))\<lparr>c_eip := c_eip c, c_flags := c_flags c\<rparr>) = c"
      using c5 by (intro cpu.equality) (auto simp: fun_eq_iff)
    with iret_outer_ring [OF f'] k False outer_segs_same [OF segs [OF False]] show ?thesis by (simp add: cpl_def)
  qed
qed

lemma deliver_code:
  assumes "platform_ok P" "n < 48" "err_ok n err" "128 \<le> unat (entry_stack (p_tss P) c - p_stack P)"
  shows "deliver P n err (c, k) =
    exec (kernel_env P) ((stub_head n @ common_save) @ [CALL C_interrupt_handler (p_ret_isr P)] @ common_restore @ [IRET])
      (interrupt_entry (p_tss P) (idt (p_idt P) ! n) err (c, k))"
proof -
  have "c_eip (fst (interrupt_entry (p_tss P) (idt (p_idt P) ! n) err (c, k))) = p_stubs P ! n"
    using framedD(1) [OF stub_reaches_call(2) [OF assms(3,4), of k "idt (p_idt P) ! n"]] gate_of_vector [OF assms(1,2)]
    by (simp add: entry_cpu_def)
  then show ?thesis by (simp add: deliver_def text_of_stub [OF assms(1,2)] interrupt_stub_def common_interrupt_handler_def)
qed

lemma interrupt_transparently:
  assumes ok: "platform_ok P" and n: "n < 48" and err: "err_ok n err" and ring: "cpl c = 0 \<or> cpl c = 3"
    and segs: "cpl c \<noteq> 0 \<Longrightarrow> segs_kept (p_gdt P) c" and room: "128 \<le> unat (entry_stack (p_tss P) c - p_stack P)"
    and run: "interrupt_handler (p_hw P) (word_of_nat n) k = Some k'"
  shows "\<exists>m. deliver P n err (c, k) = Some (c, k'\<lparr>k_mem := m\<rparr>) \<and>
    agrees (p_stack P) (entry_stack (p_tss P) c) (k_mem k) m"
proof -
  let ?lo = "p_stack P" and ?hi = "entry_stack (p_tss P) c" and ?e = "idt (p_idt P) ! n" and ?E = "kernel_env P"
  let ?ws = "saved_words c (entry_pointer (p_tss P) c) n err"
  let ?s0 = "interrupt_entry (p_tss P) ?e err (c, k)" and ?c0 = "entry_cpu (p_tss P) ?e err c"
  have len: "length (frame_tail c) \<le> 5" by (simp add: frame_tail_def)
  then have lens: "length ?ws \<le> 18" by (simp add: saved_words_def)
  note code = deliver_code [OF ok n err room, of k]
  obtain c2 s2 where s2: "exec ?E (stub_head n @ common_save) ?s0 = Some s2" "framed ?lo ?hi k (c2, ?ws) s2"
    and c2: "c_seg c2 = c_seg ?c0" "c_cr0 c2 = c_cr0 c" "c_cr3 c2 = c_cr3 c"
    using stub_reaches_call(1) [OF err room] by blast
  have "4 * Suc (length ?ws) \<le> unat (?hi - ?lo)" by (rule order_trans [OF _ room]) (use lens in simp)
  with handler_call [OF ok s2(2) n _ run] obtain c4 args s4 where s4: "exec1 ?E (CALL C_interrupt_handler (p_ret_isr P)) s2 = Some s4" "length args = 3"
    "framed ?lo ?hi k' (c4, args @ drop 3 ?ws) s4" "callee_saved c2 c4"
    by blast
  obtain a1 a2 a3 where args: "args = [a1, a2, a3]" using s4(2) by (auto simp: numeral_3_eq_3 length_Suc_conv)
  let ?regs = "[a1, a2, a3, c_gpr c EDI, c_gpr c ESI, c_gpr c EBP, entry_pointer (p_tss P) c - 16, c_gpr c EBX, c_gpr c EDX, c_gpr c ECX, c_gpr c EAX,
    word_of_nat n, err_word err] @ frame_tail c"
  have f4: "framed ?lo ?hi k' (c4, ?regs) s4" using s4(3) by (simp add: args saved_words_def)
  obtain c5 where c5: "aexec common_restore (c4, ?regs) = Some (c5, frame_tail c)" using common_restore_returns by blast
  note c5_regs = common_restore_run [OF this]
  have "4 * (length (snd (c4, ?regs)) + length common_restore) \<le> unat (?hi - ?lo)" using room len by (simp add: common_restore_def)
  from aexec_sim [OF f4 c5 this] obtain s5 where s5: "exec ?E common_restore s4 = Some s5" "framed ?lo ?hi k' (c5, frame_tail c) s5"
    by blast
  have c4: "c_seg c4 = c_seg ?c0" "c_cr0 c4 = c_cr0 c" "c_cr3 c4 = c_cr3 c" using s4(4) c2 by (simp_all add: callee_saved_def)
  have "iret (p_gdt P) s5 = (c, snd s5)"
    using s5(2) ring segs
  proof (rule iret_restores)
    show "c_gpr c5 r = c_gpr c r" if "r \<noteq> ESP" for r using c5_regs that by (cases r) auto
  qed (use c5_regs c4 gate_of_vector [OF ok n] in \<open>auto simp: entry_cpu_def\<close>)
  then have "deliver P n err (c, k) = Some (c, snd s5)"
    unfolding code exec_around [OF s2(1) s4(1) s5(1)] by (simp add: kernel_env_def)
  then show ?thesis
    using framed_kernel [OF s5(2)] framedD(4) [OF s5(2)] interrupt_mem [OF run] by (metis snd_conv)
qed

text \<open>Conversely, the stub comes back only if the handler does.\<close>

lemma deliver_handled:
  assumes "platform_ok P" "n < 48" "err_ok n err" "128 \<le> unat (entry_stack (p_tss P) c - p_stack P)"
    and "deliver P n err (c, k) = Some s"
  shows "\<exists>k'. interrupt_handler (p_hw P) (word_of_nat n) k = Some k'"
proof (rule ccontr)
  assume "\<not> ?thesis"
  then have none: "interrupt_handler (p_hw P) (word_of_nat n) k = None" by simp
  let ?ws = "saved_words c (entry_pointer (p_tss P) c) n err"
  obtain c2 s2 where s2: "exec (kernel_env P) (stub_head n @ common_save) (interrupt_entry (p_tss P) (idt (p_idt P) ! n) err (c, k)) = Some s2"
    "framed (p_stack P) (entry_stack (p_tss P) c) k (c2, ?ws) s2"
    using stub_reaches_call(1) [OF assms(3,4)] by blast
  have "length ?ws \<le> 18" by (simp add: saved_words_def frame_tail_def)
  then have "4 * Suc (length ?ws) \<le> unat (entry_stack (p_tss P) c - p_stack P)" by (intro order_trans [OF _ assms(4)]) simp
  from s2(2) this obtain c3 k3 where "push_word (p_ret_isr P) s2 = (c3, k3)" "e_call (kernel_env P) C_interrupt_handler (c3, k3) = None"
    by (rule handler_entered) (simp add: none)
  then have "exec1 (kernel_env P) (CALL C_interrupt_handler (p_ret_isr P)) s2 = None" by (simp add: back_at_def)
  then show False
    using assms(5) s2(1) unfolding deliver_code [OF assms(1-4)] exec_append by simp
qed

section \<open>Properties\<close>

lemma user_segs_kept:
  assumes "length (gdt g) = 6" "gdt_init gdt_addr tss_addr (g, tr) = (g', tr')" "\<And>s. s \<in> {DS, ES, FS, GS} \<Longrightarrow> c_seg c s = 0x23"
  shows "segs_kept (tss_set_kernel_stack sp g') c"
proof -
  have "flat_segment 3 (descriptor_of g' 0x23)"
    using gdt_segments [OF assms(1,2)] by (simp add: segment_defs selector_rpl_def)
  then have "outer_seg (tss_set_kernel_stack sp g') 0x23 = 0x23" "flat_segment 3 (descriptor_of (tss_set_kernel_stack sp g') 0x23)"
    by (simp_all add: outer_seg_def flat_segment_def descriptor_of_def tss_set_kernel_stack_def)
  then show ?thesis using assms(3) by (simp add: segs_kept_def)
qed

lemma sample_segs: "segs_kept sample_gdt (user_cpu ip sp)"
  unfolding sample_gdt_def by (rule user_segs_kept [of gdt_bss _ _ "[]"]) (auto simp: gdt_bss_def user_cpu_def prod_eq_iff)

text \<open>
  C10: An interrupt or exception is invisible to the program it interrupts, in ring 0 and in
  ring 3. The processor enters through the gate of \<open>idt_init\<close>, the stub of the vector saves the
  registers, calls the compiled \<open>interrupt_handler\<close> with the vector's number, restores them and
  returns; every register, flag, segment and the instruction pointer is as before, and memory
  changes only inside the kernel's stack below the point of entry. This holds for vectors with
  and without an error code; it needs 128 bytes of stack for the stub itself, and data segments
  of the interrupted program that the handler can use, since the stub does not load its own.
\<close>

theorem interrupt_transparent:
  assumes "platform_ok P" and "n < 48" and "err_ok n err" and "cpl c = 0 \<or> cpl c = 3"
    and "cpl c \<noteq> 0 \<Longrightarrow> segs_kept (p_gdt P) c" and "128 \<le> unat (entry_stack (p_tss P) c - p_stack P)"
    and "interrupt_handler (p_hw P) (word_of_nat n) k = Some k'"
  shows "\<exists>m. deliver P n err (c, k) = Some (c, k'\<lparr>k_mem := m\<rparr>) \<and>
    agrees (p_stack P) (entry_stack (p_tss P) c) (k_mem k) m"
  by (rule interrupt_transparently [OF assms])

theorem interrupt_transparent_witness:
  "\<exists>k' m. interrupt_handler (const_hw 0x1E) 33 kernel_up = Some k' \<and>
     deliver (sample_platform (const_hw 0x1E)) 33 [] (user_cpu 0x1234 0xBFFFFF00, kernel_up) =
       Some (user_cpu 0x1234 0xBFFFFF00, k'\<lparr>k_mem := m\<rparr>)"
proof -
  have "interrupt_handler (const_hw 0x1E) 33 kernel_up \<noteq> None"
    by (simp add: interrupt_handler_def run_handler_def register_interrupt_handler_def split_def Let_def)
  then obtain k' where k': "interrupt_handler (const_hw 0x1E) 33 kernel_up = Some k'" by blast
  let ?P = "sample_platform (const_hw 0x1E)"
  have "\<exists>m. deliver ?P 33 [] (user_cpu 0x1234 0xBFFFFF00, kernel_up) = Some (user_cpu 0x1234 0xBFFFFF00, k'\<lparr>k_mem := m\<rparr>) \<and>
      agrees (p_stack ?P) (entry_stack (p_tss ?P) (user_cpu 0x1234 0xBFFFFF00)) (k_mem kernel_up) m"
    by (rule interrupt_transparent [OF sample_platform_ok])
      (use k' sample_segs in \<open>simp_all add: err_ok_def error_vectors_def entry_stack_def\<close>)
  with k' show ?thesis by blast
qed

text \<open>
  C20: The words the stubs push have the layout of the C structures. When \<open>interrupt_handler\<close> is
  called, its third argument is the vector, its second points to a \<open>struct stack_state\<close> with the
  error code (0 where the processor pushes none) and the interrupted \<open>eip\<close>, \<open>cs\<close> and \<open>eflags\<close>, and
  its first to a \<open>struct registers\<close> with the interrupted general registers; the field \<open>esp\<close> is
  the kernel's own stack pointer at the time of the push.
\<close>

theorem isr_stub_arguments:
  assumes "err_ok n err" and "128 \<le> unat (entry_stack t c - lo)"
  shows "\<exists>c' k'. exec E (stub_head n @ common_save) (interrupt_entry t e err (c, k)) = Some (c', k') \<and>
    (let m = k_mem k'; p = c_gpr c' ESP in
      load32 m (p + 8) = word_of_nat n \<and>
      stack_state_at m (load32 m (p + 4)) =
        \<lparr>s_error_code = err_word err, s_eip = c_eip c, s_cs = ucast (c_seg c CS), s_eflags = c_flags c\<rparr> \<and>
      registers_at m (load32 m p) =
        \<lparr>g_edi = c_gpr c EDI, g_esi = c_gpr c ESI, g_ebp = c_gpr c EBP, g_esp = p + 28, g_ebx = c_gpr c EBX,
         g_edx = c_gpr c EDX, g_ecx = c_gpr c ECX, g_eax = c_gpr c EAX\<rparr>)"
proof -
  let ?ws = "saved_words c (entry_pointer t c) n err"
  obtain c' s where s: "exec E (stub_head n @ common_save) (interrupt_entry t e err (c, k)) = Some s"
    "framed lo (entry_stack t c) k (c', ?ws) s"
    using stub_reaches_call(1) [OF assms] by blast
  have p: "entry_pointer t c = c_gpr c' ESP + 44"
    using framedD(3) [OF s(2)] by (simp add: entry_pointer_def saved_words_def algebra_simps)
  have "words_at (k_mem (snd s)) (c_gpr c' ESP) ?ws" by (rule framedD(2) [OF s(2)])
  then show ?thesis
    using s(1) framedD(1) [OF s(2)] unfolding p
    by (intro exI [of _ c'] exI [of _ "snd s"])
      (simp add: prod_eq_iff saved_words_def frame_tail_def words_at_Cons registers_at_def stack_state_at_def Let_def ac_simps)
qed

theorem isr_stub_arguments_witness:
  "\<exists>c' k'. exec (kernel_env (sample_platform (const_hw 0))) (stub_head 14 @ common_save)
       (interrupt_entry (tss sample_gdt) (idt idt_bss ! 14) [6] (user_cpu 0x1234 0xBFFFFF00, kernel_up)) = Some (c', k') \<and>
     s_error_code (stack_state_at (k_mem k') (load32 (k_mem k') (c_gpr c' ESP + 4))) = 6"
proof -
  have "err_ok 14 [6]" by (simp add: err_ok_def error_vectors_def)
  moreover have "128 \<le> unat (entry_stack (tss sample_gdt) (user_cpu 0x1234 0xBFFFFF00) - 0xC0120000)"
    by (simp add: entry_stack_def sample_gdt_def tss_set_kernel_stack_def)
  ultimately show ?thesis
    using isr_stub_arguments [of 14 "[6]" "tss sample_gdt" "user_cpu 0x1234 0xBFFFFF00" "0xC0120000" _ "idt idt_bss ! 14" kernel_up]
    by (fastforce simp: Let_def err_word_def)
qed

end
