(* ===== verification/Syscall_Stub.thy ===== *)
theory Syscall_Stub
  imports Isr_Stub
begin

text \<open>
  \<open>Int128Handler\<close> of \<open>kernel/syscall.s\<close> between a user program and \<open>do_syscall_in_C\<close>: the trap
  hands the program's registers to the dispatcher as a \<open>struct pt_regs\<close>, and the program goes on
  with the dispatcher's result in \<open>eax\<close> and everything else as it was.
\<close>

section \<open>What a system call changes\<close>

lemma syscall_only_eax:
  assumes "do_syscall_in_C hw (Some r) k = Some (Some r', k')"
  shows "r' = r\<lparr>r_eax := r_eax r'\<rparr>"
  using assms
  by (auto simp: do_syscall_in_C_def sys_write_def sys_clear_def sys_read_def Let_def bind_eq_Some_conv split: if_splits)

lemma syscall_outside_buffer:
  assumes run: "do_syscall_in_C hw (Some r) k = Some (Some r', k')" and x: "\<not> syscall_buffer r x"
  shows "k_mem k' x = k_mem k x"
proof (cases "r_eax r = SYS_READ \<and> r_ebx r = 0")
  case True
  with sys_read_within [OF run] x show ?thesis by (simp add: syscall_buffer_def)
next
  case False
  then show ?thesis
    using run k_serial_write_mem
    by (fastforce simp: do_syscall_in_C_def sys_write_def sys_clear_def sys_read_def Let_def bind_eq_Some_conv split: if_splits)
qed

section \<open>The two halves of the handler\<close>

text \<open>The registers of a user program as the dispatcher sees them.\<close>

definition user_frame :: "cpu \<Rightarrow> pt_regs" where
  "user_frame c = \<lparr>r_ebx = c_gpr c EBX, r_ecx = c_gpr c ECX, r_edx = c_gpr c EDX, r_esi = c_gpr c ESI, r_edi = c_gpr c EDI,
     r_ebp = c_gpr c EBP, r_orig_eax = - ENOSYS, r_ds = ucast (c_seg c DS), r_es = ucast (c_seg c ES), r_fs = ucast (c_seg c FS),
     r_gs = ucast (c_seg c GS), r_eax = c_gpr c EAX, r_eip = c_eip c, r_cs = ucast (c_seg c CS), r_eflags = c_flags c,
     r_esp = c_gpr c ESP, r_ss = ucast (c_seg c SS)\<rparr>"

definition syscall_words :: "cpu \<Rightarrow> u32 \<Rightarrow> u32 list" where
  "syscall_words c v = [c_gpr c EBX, c_gpr c ECX, c_gpr c EDX, c_gpr c ESI, c_gpr c EDI, c_gpr c EBP, - ENOSYS, ucast (c_seg c DS),
     ucast (c_seg c ES), ucast (c_seg c FS), ucast (c_seg c GS), v, c_eip c, ucast (c_seg c CS), c_flags c, c_gpr c ESP, ucast (c_seg c SS)]"

lemma length_syscall_words [simp]: "length (syscall_words c v) = 17"
  by (simp add: syscall_words_def)

lemma user_frame_tail: "cpl c = 3 \<Longrightarrow> entry_frame_words [] c = [c_eip c, ucast (c_seg c CS), c_flags c, c_gpr c ESP, ucast (c_seg c SS)]"
  by (simp add: entry_frame_words_def)

lemma syscall_save_run:
  assumes "cpl c = 3"
  shows "\<exists>c'. aexec syscall_save (entry_cpu t e [] c, entry_frame_words [] c) =
      Some (c', (t_esp0 t - 68) # syscall_words c (c_gpr c EAX)) \<and>
    c_seg c' = (c_seg (entry_cpu t e [] c))(DS := 0x10, ES := 0x10) \<and> c_cr0 c' = c_cr0 c \<and> c_cr3 c' = c_cr3 c"
  using assms
  by (simp add: syscall_save_def apush_def syscall_words_def entry_cpu_def entry_frame_words_def entry_stack_def)

lemma syscall_restore_run:
  "\<exists>c'. aexec syscall_restore (c4, a # syscall_words c v) =
      Some (c', [c_eip c, ucast (c_seg c CS), c_flags c, c_gpr c ESP, ucast (c_seg c SS)]) \<and>
    (\<forall>r. r \<noteq> ESP \<longrightarrow> c_gpr c' r = c_gpr (set_gpr EAX v c) r) \<and> (\<forall>s. s \<notin> {CS, SS} \<longrightarrow> c_seg c' s = c_seg c s) \<and>
    c_seg c' CS = c_seg c4 CS \<and> c_cr0 c' = c_cr0 c4 \<and> c_cr3 c' = c_cr3 c4"
  by (simp add: syscall_restore_def syscall_words_def all_gpr all_sreg)

lemma pt_regs_words:
  assumes "words_at m p (syscall_words c (c_gpr c EAX))"
  shows "pt_regs_at m p = user_frame c"
  using assms by (simp add: syscall_words_def words_at_Cons pt_regs_at_def user_frame_def ac_simps)

text \<open>The dispatcher runs on the memory that holds the saved registers, and assigns the field \<open>eax\<close>.\<close>

lemma dispatcher_framed:
  assumes f: "framed lo hi k (c3, ra # p # syscall_words c (c_gpr c EAX)) (c3, k3)" and p: "p = c_gpr c3 ESP + 8"
    and room: "4 * 19 \<le> unat (hi - lo)"
    and sep: "\<And>x. syscall_buffer (user_frame c) x \<Longrightarrow> \<not> stack_area lo hi x"
    and run: "do_syscall_in_C hw (Some (user_frame c)) k = Some (Some r', k')"
  shows "\<exists>m. do_syscall_in_C hw (Some (user_frame c)) k3 = Some (Some r', k'\<lparr>k_mem := m\<rparr>) \<and>
    framed lo hi k' (c3, ra # p # syscall_words c (r_eax r')) (c3, k'\<lparr>k_mem := store32 (p + 44) (r_eax r') m\<rparr>)"
proof -
  let ?ws = "ra # p # syscall_words c (c_gpr c EAX)" and ?M = "k_mem k3"
  note w = framedD(2) [OF f, unfolded snd_conv] and out = framedD(4) [OF f, unfolded snd_conv]
  have k3: "k3 = k\<lparr>k_mem := ?M\<rparr>" using framed_kernel [OF f] by simp
  obtain m where m: "do_syscall_in_C hw (Some (user_frame c)) k3 = Some (Some r', k'\<lparr>k_mem := m\<rparr>)"
    "\<forall>x. ?M x = k_mem k x \<longrightarrow> m x = k_mem k' x"
    using replay_syscall [OF run, of ?M] sep out k3 unfolding agrees_def by metis
  have esp: "c_gpr c3 ESP = hi - 76" using framedD(3) [OF f] by simp
  have on_stack: "m x = ?M x" if "stack_area lo hi x" for x
    using syscall_outside_buffer [OF m(1)] sep that by auto
  have "words_at m (c_gpr c3 ESP) ?ws"
    using room by (intro words_at_cong [OF w, of hi lo]) (simp_all add: esp on_stack)
  from words_at_update [OF this, of 13 "r_eax r'"]
  have "words_at (store32 (p + 44) (r_eax r') m) (c_gpr c3 ESP) (ra # p # syscall_words c (r_eax r'))"
    by (simp add: p syscall_words_def ac_simps)
  moreover have "agrees lo hi (k_mem k') (store32 (p + 44) (r_eax r') m)"
    unfolding agrees_def
  proof (intro allI impI)
    fix x assume x: "\<not> stack_area lo hi x"
    have "p + 44 = hi - word_of_nat (4 * 6)" by (simp add: p esp)
    moreover have "4 * 6 \<le> unat (hi - lo)" using room by simp
    ultimately have "\<not> in_obj (p + 44) 4 x" using stack_area_word [of 6 hi lo x] x by (metis zero_less_numeral)
    then show "store32 (p + 44) (r_eax r') m x = k_mem k' x" using m(2) out x by (simp add: store32_other agrees_def)
  qed
  moreover have "c_gpr c3 ESP = hi - word_of_nat (4 * length (ra # p # syscall_words c (r_eax r')))" by (simp add: esp)
  ultimately have "framed lo hi k' (c3, ra # p # syscall_words c (r_eax r')) (c3, k'\<lparr>k_mem := store32 (p + 44) (r_eax r') m\<rparr>)"
    unfolding framed_def fst_conv snd_conv by simp
  with m(1) show ?thesis by blast
qed

lemma dispatcher_entered:
  assumes f: "framed (p_stack P) hi k (c2, (hi - 68) # syscall_words c (c_gpr c EAX)) s"
    and room: "unat (p_stack P) + 256 \<le> unat hi"
  obtains c3 k3 where "push_word ra s = (c3, k3)" "callee_saved c2 c3" "hi - 68 = c_gpr c3 ESP + 8" "256 \<le> unat (hi - p_stack P)"
    "framed (p_stack P) hi k (c3, ra # (hi - 68) # syscall_words c (c_gpr c EAX)) (c3, k3)"
    "e_call (kernel_env P) C_do_syscall (c3, k3) = Option.bind (do_syscall_in_C (p_hw P) (Some (user_frame c)) k3) (\<lambda>(r, k).
       Some (c_return (p_res P C_do_syscall) (c3, case r of None \<Rightarrow> k
         | Some r \<Rightarrow> k\<lparr>k_mem := store32 (hi - 68 + 44) (r_eax r) (k_mem k)\<rparr>)))"
proof -
  let ?ws = "(hi - 68) # syscall_words c (c_gpr c EAX)"
  have "unat (hi - p_stack P) = unat hi - unat (p_stack P)" using room by (intro unat_sub) (simp add: u32_nat)
  with room have room': "256 \<le> unat (hi - p_stack P)" by simp
  have "unat hi \<noteq> unat (68 :: u32)" using room by simp
  then have nz: "hi - 68 \<noteq> 0" by auto
  have f3: "framed (p_stack P) hi k (apush ra (c2, ?ws)) (push_word ra s)"
    using framed_push [OF f] room' by simp
  obtain c3 k3 where s3: "push_word ra s = (c3, k3)" by fastforce
  have c3: "apush ra (c2, ?ws) = (c3, ra # ?ws)" "callee_saved c2 c3"
    using f3 unfolding s3 by (auto simp: framed_def apush_def callee_saved_def)
  note f3 = f3 [unfolded s3 c3(1)]
  have p: "hi - 68 = c_gpr c3 ESP + 8" using framedD(3) [OF f3] by simp
  have w: "load32 (k_mem k3) (c_gpr c3 ESP + 4) = hi - 68" "words_at (k_mem k3) (hi - 68) (syscall_words c (c_gpr c EAX))"
    using framedD(2) [OF f3] by (simp_all add: words_at_Cons p add.assoc)
  have "e_call (kernel_env P) C_do_syscall (c3, k3) = Option.bind (do_syscall_in_C (p_hw P) (Some (user_frame c)) k3) (\<lambda>(r, k).
       Some (c_return (p_res P C_do_syscall) (c3, case r of None \<Rightarrow> k
         | Some r \<Rightarrow> k\<lparr>k_mem := store32 (hi - 68 + 44) (r_eax r) (k_mem k)\<rparr>)))"
    unfolding kernel_env_def env.select_convs fname.case call_do_syscall_def prod.case w(1) Let_def
    using nz pt_regs_words [OF w(2)] by simp
  with that [OF s3 c3(2) p room' f3] show thesis by blast
qed

lemma dispatcher_call:
  assumes ok: "platform_ok P" and f: "framed (p_stack P) hi k (c2, (hi - 68) # syscall_words c (c_gpr c EAX)) s"
    and room: "unat (p_stack P) + 256 \<le> unat hi"
    and sep: "\<And>x. syscall_buffer (user_frame c) x \<Longrightarrow> \<not> stack_area (p_stack P) hi x"
    and run: "do_syscall_in_C (p_hw P) (Some (user_frame c)) k = Some (Some r', k')"
  shows "\<exists>c' a s'. exec1 (kernel_env P) (CALL C_do_syscall ra) s = Some s' \<and>
    framed (p_stack P) hi k' (c', a # syscall_words c (r_eax r')) s' \<and> callee_saved c2 c'"
proof -
  obtain c3 k3 where s3: "push_word ra s = (c3, k3)" and c3: "callee_saved c2 c3" and p: "hi - 68 = c_gpr c3 ESP + 8"
    and room': "256 \<le> unat (hi - p_stack P)" and f3: "framed (p_stack P) hi k (c3, ra # (hi - 68) # syscall_words c (c_gpr c EAX)) (c3, k3)"
    and entry: "e_call (kernel_env P) C_do_syscall (c3, k3) = Option.bind (do_syscall_in_C (p_hw P) (Some (user_frame c)) k3) (\<lambda>(r, k).
       Some (c_return (p_res P C_do_syscall) (c3, case r of None \<Rightarrow> k
         | Some r \<Rightarrow> k\<lparr>k_mem := store32 (hi - 68 + 44) (r_eax r) (k_mem k)\<rparr>)))"
    by (rule dispatcher_entered [OF f room])
  obtain m where m: "do_syscall_in_C (p_hw P) (Some (user_frame c)) k3 = Some (Some r', k'\<lparr>k_mem := m\<rparr>)"
    "framed (p_stack P) hi k' (c3, ra # (hi - 68) # syscall_words c (r_eax r')) (c3, k'\<lparr>k_mem := store32 (hi - 68 + 44) (r_eax r') m\<rparr>)"
    using dispatcher_framed [OF f3 p _ sep run] room' by auto
  let ?k = "k'\<lparr>k_mem := store32 (hi - 68 + 44) (r_eax r') m\<rparr>"
  have call: "e_call (kernel_env P) C_do_syscall (c3, k3) = Some (c_return (p_res P C_do_syscall) (c3, ?k))"
    using m(1) by (simp add: entry)
  have cd: "cdecl (p_stack P) (length [hi - 68]) (p_res P C_do_syscall)" using ok by (simp add: platform_ok_def)
  have f4: "framed (p_stack P) hi k' (c3, ra # [hi - 68] @ syscall_words c (r_eax r')) (c3, ?k)" using m(2) by simp
  have "4 * length (ra # [hi - 68] @ syscall_words c (r_eax r')) \<le> unat (hi - p_stack P)" using room' by simp
  then obtain c' args where r: "length args = length [hi - 68]"
    "framed (p_stack P) hi k' (c', args @ syscall_words c (r_eax r')) (c_return (p_res P C_do_syscall) (c3, ?k))"
    "c_eip c' = ra" "callee_saved c3 c'" "fst (c_return (p_res P C_do_syscall) (c3, ?k)) = c'"
    by (rule c_return_framed [OF f4 cd])
  obtain a where "args = [a]" using r(1) by (auto simp: length_Suc_conv)
  moreover have "callee_saved c2 c'" using c3 r(4) by (simp add: callee_saved_def)
  ultimately show ?thesis using call r(2,3,5) by (auto simp: s3 back_at_def)
qed

section \<open>The trap\<close>

lemma trap_reaches_call:
  assumes ok: "platform_ok P" and ring: "cpl c = 3" and room: "unat (p_stack P) + 256 \<le> unat (t_esp0 (p_tss P))"
  obtains c2 s2 where "exec (kernel_env P) syscall_save (interrupt_entry (p_tss P) (idt (p_idt P) ! 128) [] (c, k)) = Some s2"
    "framed (p_stack P) (t_esp0 (p_tss P)) k (c2, (t_esp0 (p_tss P) - 68) # syscall_words c (c_gpr c EAX)) s2"
    "c_seg c2 = (c_seg (entry_cpu (p_tss P) (idt (p_idt P) ! 128) [] c))(DS := 0x10, ES := 0x10)" "c_cr0 c2 = c_cr0 c" "c_cr3 c2 = c_cr3 c"
    "256 \<le> unat (t_esp0 (p_tss P) - p_stack P)"
    "deliver P 128 [] (c, k) = exec (kernel_env P) (syscall_save @ [CALL C_do_syscall (p_ret_syscall P)] @ syscall_restore @ [IRET])
       (interrupt_entry (p_tss P) (idt (p_idt P) ! 128) [] (c, k))"
proof -
  let ?lo = "p_stack P" and ?hi = "t_esp0 (p_tss P)" and ?e = "idt (p_idt P) ! 128" and ?E = "kernel_env P"
  let ?s0 = "interrupt_entry (p_tss P) ?e [] (c, k)" and ?c0 = "entry_cpu (p_tss P) ?e [] c"
  have hi: "entry_stack (p_tss P) c = ?hi" using ring by (simp add: entry_stack_def)
  have "unat (?hi - ?lo) = unat ?hi - unat ?lo" using room by (intro unat_sub) (simp add: u32_nat)
  with room have room': "256 \<le> unat (?hi - ?lo)" by simp
  have f0: "framed ?lo ?hi k (?c0, entry_frame_words [] c) ?s0"
    using interrupt_entry_framed [of "[]" c "p_tss P" ?lo k ?e] room' user_frame_tail [OF ring] by (simp add: hi)
  have "c_eip (fst ?s0) = p_int128 P" using framedD(1) [OF f0] gate_of_syscall [OF ok] by (simp add: entry_cpu_def)
  then have code: "deliver P 128 [] (c, k) = exec ?E (syscall_save @ [CALL C_do_syscall (p_ret_syscall P)] @ syscall_restore @ [IRET]) ?s0"
    by (simp add: deliver_def text_of_syscall Int128Handler_def)
  obtain c2 where c2: "aexec syscall_save (?c0, entry_frame_words [] c) = Some (c2, (?hi - 68) # syscall_words c (c_gpr c EAX))"
    "c_seg c2 = (c_seg ?c0)(DS := 0x10, ES := 0x10)" "c_cr0 c2 = c_cr0 c" "c_cr3 c2 = c_cr3 c"
    using syscall_save_run [OF ring] by blast
  have "4 * (length (snd (?c0, entry_frame_words [] c)) + length syscall_save) \<le> unat (?hi - ?lo)"
    using room' user_frame_tail [OF ring] by (simp add: syscall_save_def)
  from aexec_sim [OF f0 c2(1) this] obtain s2 where s2: "exec ?E syscall_save ?s0 = Some s2"
    "framed ?lo ?hi k (c2, (?hi - 68) # syscall_words c (c_gpr c EAX)) s2"
    by blast
  show thesis by (rule that [OF s2 c2(2-4) room' code])
qed

lemma syscall_trapped:
  assumes ok: "platform_ok P" and ring: "cpl c = 3" and segs: "segs_kept (p_gdt P) c"
    and room: "unat (p_stack P) + 256 \<le> unat (t_esp0 (p_tss P))"
    and sep: "\<And>x. syscall_buffer (user_frame c) x \<Longrightarrow> \<not> stack_area (p_stack P) (t_esp0 (p_tss P)) x"
    and run: "do_syscall_in_C (p_hw P) (Some (user_frame c)) k = Some (Some r', k')"
  shows "\<exists>m. deliver P 128 [] (c, k) = Some (set_gpr EAX (r_eax r') c, k'\<lparr>k_mem := m\<rparr>) \<and>
    agrees (p_stack P) (t_esp0 (p_tss P)) (k_mem k') m"
proof -
  let ?lo = "p_stack P" and ?hi = "t_esp0 (p_tss P)" and ?e = "idt (p_idt P) ! 128" and ?E = "kernel_env P"
  let ?s0 = "interrupt_entry (p_tss P) ?e [] (c, k)" and ?c0 = "entry_cpu (p_tss P) ?e [] c" and ?c' = "set_gpr EAX (r_eax r') c"
  obtain c2 s2 where s2: "exec ?E syscall_save ?s0 = Some s2" "framed ?lo ?hi k (c2, (?hi - 68) # syscall_words c (c_gpr c EAX)) s2"
    and c2: "c_seg c2 = (c_seg ?c0)(DS := 0x10, ES := 0x10)" "c_cr0 c2 = c_cr0 c" "c_cr3 c2 = c_cr3 c"
    and room': "256 \<le> unat (?hi - ?lo)"
    and code: "deliver P 128 [] (c, k) = exec ?E (syscall_save @ [CALL C_do_syscall (p_ret_syscall P)] @ syscall_restore @ [IRET]) ?s0"
    by (rule trap_reaches_call [OF ok ring room])
  obtain c4 a s4 where s4: "exec1 ?E (CALL C_do_syscall (p_ret_syscall P)) s2 = Some s4"
    "framed ?lo ?hi k' (c4, a # syscall_words c (r_eax r')) s4" "callee_saved c2 c4"
    using dispatcher_call [OF ok s2(2) room sep run] by blast
  obtain c5 where c5: "aexec syscall_restore (c4, a # syscall_words c (r_eax r')) = Some (c5, frame_tail ?c')"
    "\<forall>r. r \<noteq> ESP \<longrightarrow> c_gpr c5 r = c_gpr ?c' r" "\<forall>s. s \<notin> {CS, SS} \<longrightarrow> c_seg c5 s = c_seg c s"
    "c_seg c5 CS = c_seg c4 CS" "c_cr0 c5 = c_cr0 c4" "c_cr3 c5 = c_cr3 c4"
    using syscall_restore_run [of c4 a c "r_eax r'"] ring by (auto simp: frame_tail_def)
  have "4 * (length (snd (c4, a # syscall_words c (r_eax r'))) + length syscall_restore) \<le> unat (?hi - ?lo)"
    using room' by (simp add: syscall_restore_def)
  from aexec_sim [OF s4(2) c5(1) this] obtain s5 where s5: "exec ?E syscall_restore s4 = Some s5" "framed ?lo ?hi k' (c5, frame_tail ?c') s5"
    by blast
  have c4: "c_seg c4 = c_seg c2" "c_cr0 c4 = c_cr0 c" "c_cr3 c4 = c_cr3 c" using s4(3) c2(2,3) by (simp_all add: callee_saved_def)
  have "framed ?lo (entry_stack (p_tss P) ?c') k' (c5, frame_tail ?c') s5" using s5(2) ring by (simp add: entry_stack_def)
  then have "iret (p_gdt P) s5 = (?c', snd s5)"
  proof (rule iret_restores)
    show "segs_kept (p_gdt P) ?c'" using segs by (simp add: segs_kept_def)
  qed (use ring c5 c4 c2(1) gate_of_syscall [OF ok] in \<open>auto simp: entry_cpu_def\<close>)
  then have "deliver P 128 [] (c, k) = Some (?c', snd s5)"
    unfolding code exec_around [OF s2(1) s4(1) s5(1)] by (simp add: kernel_env_def)
  then show ?thesis using framed_kernel [OF s5(2)] framedD(4) [OF s5(2)] by metis
qed

text \<open>Conversely, the trap comes back only if the dispatcher does.\<close>

lemma syscall_dispatched:
  assumes ok: "platform_ok P" and ring: "cpl c = 3" and room: "unat (p_stack P) + 256 \<le> unat (t_esp0 (p_tss P))"
    and sep: "\<And>x. syscall_buffer (user_frame c) x \<Longrightarrow> \<not> stack_area (p_stack P) (t_esp0 (p_tss P)) x"
    and run: "deliver P 128 [] (c, k) = Some s"
  shows "\<exists>r' k'. do_syscall_in_C (p_hw P) (Some (user_frame c)) k = Some (Some r', k')"
proof -
  let ?lo = "p_stack P" and ?hi = "t_esp0 (p_tss P)" and ?E = "kernel_env P"
  obtain c2 s2 where s2: "exec ?E syscall_save (interrupt_entry (p_tss P) (idt (p_idt P) ! 128) [] (c, k)) = Some s2"
    "framed ?lo ?hi k (c2, (?hi - 68) # syscall_words c (c_gpr c EAX)) s2"
    and code: "deliver P 128 [] (c, k) = exec ?E (syscall_save @ [CALL C_do_syscall (p_ret_syscall P)] @ syscall_restore @ [IRET])
       (interrupt_entry (p_tss P) (idt (p_idt P) ! 128) [] (c, k))"
    by (rule trap_reaches_call [OF ok ring room])
  have some: "exec1 ?E (CALL C_do_syscall (p_ret_syscall P)) s2 \<noteq> None"
    using run s2(1) unfolding code exec_append by (auto simp: bind_eq_Some_conv)
  obtain c3 k3 where s3: "push_word (p_ret_syscall P) s2 = (c3, k3)" "framed ?lo ?hi k (c3, p_ret_syscall P # (?hi - 68) # syscall_words c (c_gpr c EAX)) (c3, k3)"
    and entry: "e_call ?E C_do_syscall (c3, k3) = Option.bind (do_syscall_in_C (p_hw P) (Some (user_frame c)) k3) (\<lambda>(r, k).
       Some (c_return (p_res P C_do_syscall) (c3, case r of None \<Rightarrow> k
         | Some r \<Rightarrow> k\<lparr>k_mem := store32 (?hi - 68 + 44) (r_eax r) (k_mem k)\<rparr>)))"
    by (rule dispatcher_entered [OF s2(2) room])
  have "do_syscall_in_C (p_hw P) (Some (user_frame c)) k3 \<noteq> None"
    using some s3(1) by (auto simp: entry back_at_def bind_eq_Some_conv)
  then obtain r' k' where k3: "do_syscall_in_C (p_hw P) (Some (user_frame c)) k3 = Some (Some r', k')"
    by (auto simp: do_syscall_in_C_def bind_eq_Some_conv)
  have "k3\<lparr>k_mem := k_mem k\<rparr> = k" using s3(2) by (simp add: framed_def)
  with replay_syscall [OF k3, of "k_mem k"] sep framedD(4) [OF s3(2)] show ?thesis unfolding agrees_def by (metis snd_conv)
qed

text \<open>
  C11: The system call trap is a procedure call into the kernel. A user program that executes
  \<open>int 0x80\<close> enters through the gate of \<open>syscall_init\<close> on the stack of the TSS; \<open>Int128Handler\<close> builds
  a \<open>struct pt_regs\<close> with exactly the program's registers, \<open>do_syscall_in_C\<close> runs on it, and the
  program continues after the instruction with the dispatcher's \<open>eax\<close> and every other register,
  flag and segment unchanged. The effect on the kernel's state and on memory outside the
  kernel's stack is the dispatcher's. The hypotheses are a kernel stack of 256 bytes and a buffer
  argument that does not point into it (the dispatcher does not check).
\<close>

theorem syscall_trap:
  assumes "platform_ok P" and "cpl c = 3" and "segs_kept (p_gdt P) c"
    and "unat (p_stack P) + 256 \<le> unat (t_esp0 (p_tss P))"
    and "\<And>x. syscall_buffer (user_frame c) x \<Longrightarrow> \<not> stack_area (p_stack P) (t_esp0 (p_tss P)) x"
    and "do_syscall_in_C (p_hw P) (Some (user_frame c)) k = Some (Some r', k')"
  shows "\<exists>m. deliver P 128 [] (c, k) = Some (set_gpr EAX (r_eax r') c, k'\<lparr>k_mem := m\<rparr>) \<and>
    agrees (p_stack P) (t_esp0 (p_tss P)) (k_mem k') m"
  by (rule syscall_trapped [OF assms])

theorem syscall_trap_witness:
  "\<exists>k' m. deliver (sample_platform (const_hw 0x20)) 128 [] (set_gpr EAX 5 (user_cpu 0x1234 0xBFFFFF00), kernel_up) =
     Some (set_gpr EAX 0 (user_cpu 0x1234 0xBFFFFF00), k'\<lparr>k_mem := m\<rparr>) \<and> com1 k' = [27, 91, 50, 74, 27, 91, 72]"
proof -
  let ?c = "set_gpr EAX 5 (user_cpu 0x1234 0xBFFFFF00)" and ?P = "sample_platform (const_hw 0x20)"
  have d: "transmitter_drains (const_hw 0x20) SERIAL_COM1_BASE"
    unfolding transmitter_drains_def by (intro allI exI [of _ 0]) simp
  obtain es where es: "k_serial_write (const_hw 0x20) ([27] @ str_bytes ''[2J'' @ [27] @ str_bytes ''[H'') (with_fb fb_clear kernel_up) =
      Some ((with_fb fb_clear kernel_up)\<lparr>k_tr := es @ k_tr (with_fb fb_clear kernel_up)\<rparr>)"
    "outs (SERIAL_DATA_PORT SERIAL_COM1_BASE) es = [27] @ str_bytes ''[2J'' @ [27] @ str_bytes ''[H''"
    using k_serial_write_returns [OF d] by metis
  let ?k' = "(with_fb fb_clear kernel_up)\<lparr>k_tr := es @ k_tr (with_fb fb_clear kernel_up)\<rparr>"
  have a: "r_eax (user_frame ?c) = 5" by (simp add: user_frame_def)
  have run: "do_syscall_in_C (p_hw ?P) (Some (user_frame ?c)) kernel_up = Some (Some ((user_frame ?c)\<lparr>r_eax := 0\<rparr>), ?k')"
    using es(1) by (simp add: do_syscall_in_C_def a sys_clear_def syscall_defs)
  have "\<exists>m. deliver ?P 128 [] (?c, kernel_up) = Some (set_gpr EAX (r_eax ((user_frame ?c)\<lparr>r_eax := 0\<rparr>)) ?c, ?k'\<lparr>k_mem := m\<rparr>) \<and>
      agrees (p_stack ?P) (t_esp0 (p_tss ?P)) (k_mem ?k') m"
  proof (rule syscall_trap [OF sample_platform_ok _ _ _ _ run])
    show "segs_kept (p_gdt ?P) ?c" using sample_segs by (simp add: segs_kept_def)
    show "\<not> stack_area (p_stack ?P) (t_esp0 (p_tss ?P)) x" if "syscall_buffer (user_frame ?c) x" for x
      using that by (simp add: syscall_buffer_def a syscall_defs)
  qed simp_all
  moreover have "com1 ?k' = [27, 91, 50, 74, 27, 91, 72]"
    using es(2) com1_fb(2) [of kernel_up] by (simp add: com1_def str_bytes_def)
  ultimately show ?thesis by auto
qed

end
