(* ===== verification/User_Stub.thy ===== *)
theory User_Stub
  imports Syscall_Stub User_Process
begin

text \<open>
  The assembly of the user side: the system call stubs of \<open>userland/libc/src/syscall.s\<close>, run in
  ring 3 against the kernel's entry code, implement the calls \<open>u_sys_read\<close>, \<open>u_sys_write\<close> and
  \<open>u_sys_clear\<close> on which the C library and the shell are verified; and \<open>userland/libc/src/entry.s\<close>,
  which shows what happens when a program ends.
\<close>

section \<open>userland/libc/src/syscall.s\<close>

definition sys_exit_stub :: "u32 \<Rightarrow> instr list" where
  "sys_exit_stub ra = [PUSH (Reg EBX), MOV EAX (Imm 1), MOV EBX (Stk 8), INTR 0x80 ra, POP EBX, RET]"

definition sys_read_stub :: "u32 \<Rightarrow> instr list" where
  "sys_read_stub ra =
     [PUSH (Reg EBX), MOV EAX (Imm 3), MOV EBX (Stk 8), MOV ECX (Stk 12), MOV EDX (Stk 16), INTR 0x80 ra, POP EBX, RET]"

definition sys_write_stub :: "u32 \<Rightarrow> instr list" where
  "sys_write_stub ra =
     [PUSH (Reg EBX), MOV EAX (Imm 4), MOV EBX (Stk 8), MOV ECX (Stk 12), MOV EDX (Stk 16), INTR 0x80 ra, POP EBX, RET]"

definition sys_clear_stub :: "u32 \<Rightarrow> instr list" where
  "sys_clear_stub ra = [MOV EAX (Imm 5), INTR 0x80 ra, RET]"

text \<open>
  Ring 3 runs on the platform: \<open>int n\<close> is delivered if the gate allows it; a refused one is a
  general protection fault, which is not followed here.
\<close>

definition user_trap :: "platform \<Rightarrow> byte \<Rightarrow> st \<Rightarrow> st option" where
  "user_trap P n s = (if int_allowed (p_idt P) (cpl (fst s)) (unat n) then deliver P (unat n) [] s else None)"

definition user_env :: "platform \<Rightarrow> env" where
  "user_env P = \<lparr>e_call = (\<lambda>_ _. None), e_trap = user_trap P, e_gdt = p_gdt P, e_hw = p_hw P\<rparr>"

section \<open>The registers the kernel looks at\<close>

definition same_args :: "pt_regs \<Rightarrow> pt_regs \<Rightarrow> bool" where
  "same_args r q \<longleftrightarrow> r_eax r = r_eax q \<and> r_ebx r = r_ebx q \<and> r_ecx r = r_ecx q \<and> r_edx r = r_edx q"

lemma calls_read_four:
  assumes "same_args r q"
  shows "sys_write hw r k = map_option (\<lambda>(q', k'). (r\<lparr>r_eax := r_eax q'\<rparr>, k')) (sys_write hw q k)"
    "sys_clear hw r k = map_option (\<lambda>(q', k'). (r\<lparr>r_eax := r_eax q'\<rparr>, k')) (sys_clear hw q k)"
    "sys_read hw r k = map_option (\<lambda>(q', k'). (r\<lparr>r_eax := r_eax q'\<rparr>, k')) (sys_read hw q k)"
proof -
  have a: "r_ebx r = r_ebx q" "r_ecx r = r_ecx q" "r_edx r = r_edx q" using assms by (simp_all add: same_args_def)
  show "sys_write hw r k = map_option (\<lambda>(q', k'). (r\<lparr>r_eax := r_eax q'\<rparr>, k')) (sys_write hw q k)"
    unfolding sys_write_def a Let_def by (simp add: map_option_bind o_def)
  show "sys_clear hw r k = map_option (\<lambda>(q', k'). (r\<lparr>r_eax := r_eax q'\<rparr>, k')) (sys_clear hw q k)"
    unfolding sys_clear_def by (simp add: map_option_bind o_def)
  show "sys_read hw r k = map_option (\<lambda>(q', k'). (r\<lparr>r_eax := r_eax q'\<rparr>, k')) (sys_read hw q k)"
    unfolding sys_read_def a Let_def by (simp add: map_option_bind split_def o_def)
qed

lemma syscall_reads_four:
  assumes "same_args r q" "do_syscall_in_C hw (Some q) k = Some (Some q', k')"
  shows "do_syscall_in_C hw (Some r) k = Some (Some (r\<lparr>r_eax := r_eax q'\<rparr>), k')"
proof -
  let ?call = "\<lambda>r. if r_eax r = SYS_WRITE then sys_write hw r k
            else if r_eax r = SYS_EXIT then Some (r\<lparr>r_eax := r_ebx r\<rparr>, k)
            else if r_eax r = SYS_CLEAR then sys_clear hw r k
            else if r_eax r = SYS_READ then sys_read hw r k
            else Some (r\<lparr>r_eax := - ENOSYS\<rparr>, k)"
  have a: "r_eax r = r_eax q" "r_ebx r = r_ebx q" using assms(1) by (simp_all add: same_args_def)
  have "?call r = map_option (\<lambda>(q', k'). (r\<lparr>r_eax := r_eax q'\<rparr>, k')) (?call q)"
    unfolding a calls_read_four [OF assms(1)] by simp
  moreover have "?call q = Some (q', k')"
    using assms(2) unfolding do_syscall_in_C_def option.case bind_eq_Some_conv by auto
  ultimately show ?thesis unfolding do_syscall_in_C_def option.case by simp
qed

lemma trap_any_registers:
  assumes "trap hw (user_regs n a b d) k = Some (v, k')" "r_eax r = n" "r_ebx r = a" "r_ecx r = b" "r_edx r = d"
  shows "do_syscall_in_C hw (Some r) k = Some (Some (r\<lparr>r_eax := v\<rparr>), k')"
proof -
  obtain q where q: "do_syscall_in_C hw (Some (user_regs n a b d)) k = Some (Some q, k')" "r_eax q = v"
    using assms(1) by (auto simp: trap_def split: option.splits)
  then show ?thesis using syscall_reads_four [OF _ q(1), of r] assms(2-5) by (simp add: same_args_def)
qed

lemma syscall_allowed: "platform_ok P \<Longrightarrow> int_allowed (p_idt P) 3 128"
  by (simp add: int_allowed_def gate_of_syscall gate_present_def gate_dpl_def bit_numeral_rec)

section \<open>A stub around a trap\<close>

text \<open>
  What a program in ring 3 relies on when it calls a stub: data segments of ring 3, a kernel stack
  apart from the piece of its own stack that the stub uses, and a buffer in neither.
\<close>

definition user_ready :: "platform \<Rightarrow> cpu \<Rightarrow> u32 \<Rightarrow> u32 \<Rightarrow> bool" where
  "user_ready P c lo hi \<longleftrightarrow> cpl c = 3 \<and> segs_kept (p_gdt P) c \<and> unat (p_stack P) + 256 \<le> unat (t_esp0 (p_tss P)) \<and>
     (\<forall>x. stack_area lo hi x \<longrightarrow> \<not> stack_area (p_stack P) (t_esp0 (p_tss P)) x)"

definition buffer_apart :: "platform \<Rightarrow> pt_regs \<Rightarrow> u32 \<Rightarrow> u32 \<Rightarrow> bool" where
  "buffer_apart P r lo hi \<longleftrightarrow> (\<forall>x. syscall_buffer r x \<longrightarrow> \<not> stack_area lo hi x \<and> \<not> stack_area (p_stack P) (t_esp0 (p_tss P)) x)"

lemma int80_runs:
  assumes ok: "platform_ok P" and ring: "cpl c = 3" "segs_kept (p_gdt P) c" and room: "unat (p_stack P) + 256 \<le> unat (t_esp0 (p_tss P))"
    and sep: "\<And>x. syscall_buffer (user_frame (c\<lparr>c_eip := ip\<rparr>)) x \<Longrightarrow> \<not> stack_area (p_stack P) (t_esp0 (p_tss P)) x"
    and run: "do_syscall_in_C (p_hw P) (Some (user_frame (c\<lparr>c_eip := ip\<rparr>))) k = Some (Some r', k')"
  shows "\<exists>m. exec1 (user_env P) (INTR 0x80 ip) (c, k) = Some (set_gpr EAX (r_eax r') (c\<lparr>c_eip := ip\<rparr>), k'\<lparr>k_mem := m\<rparr>) \<and>
    agrees (p_stack P) (t_esp0 (p_tss P)) (k_mem k') m"
proof -
  have "\<exists>m. deliver P 128 [] (c\<lparr>c_eip := ip\<rparr>, k) = Some (set_gpr EAX (r_eax r') (c\<lparr>c_eip := ip\<rparr>), k'\<lparr>k_mem := m\<rparr>) \<and>
      agrees (p_stack P) (t_esp0 (p_tss P)) (k_mem k') m"
    using ring room sep run by (intro syscall_trapped [OF ok]) (auto simp: segs_kept_def)
  then show ?thesis
    using syscall_allowed [OF ok] ring(1) by (auto simp: user_env_def user_trap_def back_at_def)
qed

lemma user_stub_runs:
  assumes ok: "platform_ok P" and ready: "user_ready P c1 lo hi" and f: "framed lo hi k (c, ws) (c, k)"
    and pre: "aexec pre (c, ws) = Some (c1, ws1)" and room: "4 * (length ws + length pre) \<le> unat (hi - lo)" "4 * (length ws1 + length post) \<le> unat (hi - lo)"
    and run: "do_syscall_in_C (p_hw P) (Some (user_frame (c1\<lparr>c_eip := ip\<rparr>))) k = Some (Some r', k')"
    and apart: "buffer_apart P (user_frame (c1\<lparr>c_eip := ip\<rparr>)) lo hi"
    and post: "aexec post (set_gpr EAX (r_eax r') (c1\<lparr>c_eip := ip\<rparr>), ws1) = Some (c3, ra # ws3)"
  shows "\<exists>m. exec (user_env P) (pre @ [INTR 0x80 ip] @ post @ [RET]) (c, k) =
      Some ((set_gpr ESP (c_gpr c3 ESP + 4) c3)\<lparr>c_eip := ra\<rparr>, k'\<lparr>k_mem := m\<rparr>) \<and>
    (\<forall>x. \<not> stack_area lo hi x \<and> \<not> stack_area (p_stack P) (t_esp0 (p_tss P)) x \<longrightarrow> m x = k_mem k' x)"
proof -
  let ?c1 = "c1\<lparr>c_eip := ip\<rparr>" and ?slo = "p_stack P" and ?shi = "t_esp0 (p_tss P)"
  obtain s1 where s1: "exec (user_env P) pre (c, k) = Some s1" "framed lo hi k (c1, ws1) s1"
    using aexec_sim [OF f pre, unfolded snd_conv, OF room(1)] by blast
  obtain k1 where k1: "s1 = (c1, k1)" using framedD(1) [OF s1(2)] by (cases s1) auto
  note w1 = framedD(2) [OF s1(2), unfolded k1 snd_conv] and out1 = framedD(4) [OF s1(2), unfolded k1 snd_conv]
  have k1k: "k1 = k\<lparr>k_mem := k_mem k1\<rparr>" using framed_kernel [OF s1(2)] by (simp add: k1)
  obtain m1 where m1: "do_syscall_in_C (p_hw P) (Some (user_frame ?c1)) k1 = Some (Some r', k'\<lparr>k_mem := m1\<rparr>)"
    "\<forall>x. k_mem k1 x = k_mem k x \<longrightarrow> m1 x = k_mem k' x"
    using replay_syscall [OF run, of "k_mem k1"] apart out1 k1k unfolding agrees_def buffer_apart_def by metis
  let ?c2 = "set_gpr EAX (r_eax r') ?c1"
  have "\<exists>m. exec1 (user_env P) (INTR 0x80 ip) (c1, k1) = Some (?c2, (k'\<lparr>k_mem := m1\<rparr>)\<lparr>k_mem := m\<rparr>) \<and>
      agrees ?slo ?shi (k_mem (k'\<lparr>k_mem := m1\<rparr>)) m"
    using ready apart m1(1) by (intro int80_runs [OF ok]) (auto simp: user_ready_def buffer_apart_def)
  then obtain m where trap: "exec1 (user_env P) (INTR 0x80 ip) s1 = Some (?c2, k'\<lparr>k_mem := m\<rparr>)" and m: "agrees ?slo ?shi m1 m"
    by (auto simp del: exec1.simps simp: k1)
  let ?k2 = "k'\<lparr>k_mem := m\<rparr>"
  have "m x = k_mem k1 x" if "stack_area lo hi x" for x
  proof -
    have "\<not> stack_area ?slo ?shi x" using ready that by (simp add: user_ready_def)
    then have "m x = m1 x" using m by (simp add: agrees_def)
    also have "\<dots> = k_mem k1 x" using syscall_outside_buffer [OF m1(1)] apart that by (auto simp: buffer_apart_def)
    finally show ?thesis .
  qed
  then have "words_at m (c_gpr c1 ESP) ws1"
    using room(2) by (intro words_at_cong [OF w1 framedD(3) [OF s1(2)], of lo]) auto
  then have f2: "framed lo hi ?k2 (?c2, ws1) (?c2, ?k2)" using framedD(3) [OF s1(2)] by (intro framed_here) simp_all
  obtain s3 where s3: "exec (user_env P) post (?c2, ?k2) = Some s3" "framed lo hi ?k2 (c3, ra # ws3) s3"
    using aexec_sim [OF f2 post, unfolded snd_conv, OF room(2)] by blast
  have "exec (user_env P) (pre @ [INTR 0x80 ip] @ post @ [RET]) (c, k) = Some ((set_gpr ESP (c_gpr c3 ESP + 4) c3)\<lparr>c_eip := ra\<rparr>, snd s3)"
    unfolding exec_around [OF s1(1) trap s3(1)] using framed_pop(1) [OF s3(2)] by (simp add: return_word_def)
  moreover have "snd s3 = k'\<lparr>k_mem := k_mem (snd s3)\<rparr>" using framed_kernel [OF s3(2)] by simp
  moreover have "k_mem (snd s3) x = k_mem k' x" if "\<not> stack_area lo hi x" "\<not> stack_area ?slo ?shi x" for x
    using framedD(4) [OF s3(2)] m m1(2) out1 that by (simp add: agrees_def)
  ultimately show ?thesis by metis
qed

text \<open>The state after a stub's \<open>ret\<close>: the result in \<open>eax\<close>, the return address popped.\<close>

definition stub_returns :: "cpu \<Rightarrow> u32 \<Rightarrow> u32 \<Rightarrow> cpu" where
  "stub_returns c v ra = c\<lparr>c_gpr := (c_gpr c)(EAX := v, ESP := c_gpr c ESP + 4), c_eip := ra\<rparr>"

definition with_args :: "u32 \<Rightarrow> u32 \<Rightarrow> cpu \<Rightarrow> cpu" where
  "with_args b d c = set_gpr EDX d (set_gpr ECX b c)"

lemma user_ready_regs: "user_ready P c lo hi \<Longrightarrow> c_seg c' = c_seg c \<Longrightarrow> user_ready P c' lo hi"
  by (simp add: user_ready_def cpl_def segs_kept_def)

lemma buffer_apart_args: "same_args r q \<Longrightarrow> buffer_apart P r lo hi = buffer_apart P q lo hi"
  by (simp add: buffer_apart_def syscall_buffer_def same_args_def)

lemma stub3_runs:
  assumes ok: "platform_ok P" and ready: "user_ready P c (c_gpr c ESP - 48) (c_gpr c ESP + 16)"
    and words: "words_at (k_mem k) (c_gpr c ESP) [ra, fd, buf, count]"
    and apart: "buffer_apart P (user_regs num fd buf count) (c_gpr c ESP - 48) (c_gpr c ESP + 16)"
    and run: "trap (p_hw P) (user_regs num fd buf count) k = Some (v, k')"
  shows "\<exists>m. exec (user_env P) [PUSH (Reg EBX), MOV EAX (Imm num), MOV EBX (Stk 8), MOV ECX (Stk 12), MOV EDX (Stk 16), INTR 0x80 ip, POP EBX, RET] (c, k) =
      Some (stub_returns (with_args buf count c) v ra, k'\<lparr>k_mem := m\<rparr>) \<and>
    (\<forall>x. \<not> stack_area (c_gpr c ESP - 48) (c_gpr c ESP + 16) x \<and> \<not> stack_area (p_stack P) (t_esp0 (p_tss P)) x \<longrightarrow> m x = k_mem k' x)"
proof -
  let ?pre = "[PUSH (Reg EBX), MOV EAX (Imm num), MOV EBX (Stk 8), MOV ECX (Stk 12), MOV EDX (Stk 16)]"
  let ?c1 = "set_gpr EDX count (set_gpr ECX buf (set_gpr EBX fd (set_gpr EAX num (set_gpr ESP (c_gpr c ESP - 4) c))))"
  let ?c3 = "set_gpr EBX (c_gpr c EBX) (set_gpr ESP (c_gpr c ESP) (set_gpr EAX v (?c1\<lparr>c_eip := ip\<rparr>)))"
  have f: "framed (c_gpr c ESP - 48) (c_gpr c ESP + 16) k (c, [ra, fd, buf, count]) (c, k)" by (rule framed_here [OF words]) simp
  have pre: "aexec ?pre (c, [ra, fd, buf, count]) = Some (?c1, [c_gpr c EBX, ra, fd, buf, count])"
    by (simp add: apush_def)
  let ?r = "user_frame (?c1\<lparr>c_eip := ip\<rparr>)"
  have r: "r_eax ?r = num" "r_ebx ?r = fd" "r_ecx ?r = buf" "r_edx ?r = count" by (simp_all add: user_frame_def)
  then have apart': "buffer_apart P ?r (c_gpr c ESP - 48) (c_gpr c ESP + 16)"
    using apart buffer_apart_args [of ?r "user_regs num fd buf count"] by (simp add: same_args_def)
  have run': "do_syscall_in_C (p_hw P) (Some ?r) k = Some (Some (?r\<lparr>r_eax := v\<rparr>), k')"
    using trap_any_registers [OF run r] .
  have post: "aexec [POP EBX] (set_gpr EAX (r_eax (?r\<lparr>r_eax := v\<rparr>)) (?c1\<lparr>c_eip := ip\<rparr>), [c_gpr c EBX, ra, fd, buf, count]) =
      Some (?c3, ra # [fd, buf, count])"
    by simp
  have "stub_returns (with_args buf count c) v ra = (set_gpr ESP (c_gpr ?c3 ESP + 4) ?c3)\<lparr>c_eip := ra\<rparr>"
    by (rule cpu.equality) (auto simp: stub_returns_def with_args_def fun_eq_iff)
  moreover have "\<exists>m. exec (user_env P) (?pre @ [INTR 0x80 ip] @ [POP EBX] @ [RET]) (c, k) =
      Some ((set_gpr ESP (c_gpr ?c3 ESP + 4) ?c3)\<lparr>c_eip := ra\<rparr>, k'\<lparr>k_mem := m\<rparr>) \<and>
    (\<forall>x. \<not> stack_area (c_gpr c ESP - 48) (c_gpr c ESP + 16) x \<and> \<not> stack_area (p_stack P) (t_esp0 (p_tss P)) x \<longrightarrow> m x = k_mem k' x)"
    by (rule user_stub_runs [OF ok user_ready_regs [OF ready] f pre _ _ run' apart' post]) simp_all
  ultimately show ?thesis by simp
qed

lemma clear_runs:
  assumes ok: "platform_ok P" and ready: "user_ready P c (c_gpr c ESP - 48) (c_gpr c ESP + 16)"
    and words: "words_at (k_mem k) (c_gpr c ESP) [ra, a, b, d]" and run: "u_sys_clear (p_hw P) k = Some (v, k')"
  shows "\<exists>m. exec (user_env P) (sys_clear_stub ip) (c, k) = Some (stub_returns c v ra, k'\<lparr>k_mem := m\<rparr>) \<and>
    (\<forall>x. \<not> stack_area (c_gpr c ESP - 48) (c_gpr c ESP + 16) x \<and> \<not> stack_area (p_stack P) (t_esp0 (p_tss P)) x \<longrightarrow> m x = k_mem k' x)"
proof -
  let ?c1 = "set_gpr EAX 5 c" and ?c3 = "set_gpr EAX v ((set_gpr EAX 5 c)\<lparr>c_eip := ip\<rparr>)"
  have f: "framed (c_gpr c ESP - 48) (c_gpr c ESP + 16) k (c, [ra, a, b, d]) (c, k)" by (rule framed_here [OF words]) simp
  let ?r = "user_frame (?c1\<lparr>c_eip := ip\<rparr>)"
  have r: "r_eax ?r = 5" by (simp add: user_frame_def)
  obtain q where q: "do_syscall_in_C (p_hw P) (Some (user_regs 5 0 0 0)) k = Some (Some q, k')" "r_eax q = v"
    using run by (auto simp: u_sys_clear_def trap_def split: option.splits)
  then have run': "do_syscall_in_C (p_hw P) (Some ?r) k = Some (Some (?r\<lparr>r_eax := v\<rparr>), k')"
    by (auto simp: do_syscall_in_C_def r sys_clear_def syscall_defs bind_eq_Some_conv)
  have apart: "buffer_apart P ?r (c_gpr c ESP - 48) (c_gpr c ESP + 16)"
    by (simp add: buffer_apart_def syscall_buffer_def r syscall_defs)
  have pre: "aexec [MOV EAX (Imm 5)] (c, [ra, a, b, d]) = Some (?c1, [ra, a, b, d])" by simp
  have post: "aexec [] (set_gpr EAX (r_eax (?r\<lparr>r_eax := v\<rparr>)) (?c1\<lparr>c_eip := ip\<rparr>), [ra, a, b, d]) = Some (?c3, ra # [a, b, d])" by simp
  have "stub_returns c v ra = (set_gpr ESP (c_gpr ?c3 ESP + 4) ?c3)\<lparr>c_eip := ra\<rparr>"
    by (rule cpu.equality) (auto simp: stub_returns_def fun_eq_iff)
  moreover have "\<exists>m. exec (user_env P) ([MOV EAX (Imm 5)] @ [INTR 0x80 ip] @ [] @ [RET]) (c, k) =
      Some ((set_gpr ESP (c_gpr ?c3 ESP + 4) ?c3)\<lparr>c_eip := ra\<rparr>, k'\<lparr>k_mem := m\<rparr>) \<and>
    (\<forall>x. \<not> stack_area (c_gpr c ESP - 48) (c_gpr c ESP + 16) x \<and> \<not> stack_area (p_stack P) (t_esp0 (p_tss P)) x \<longrightarrow> m x = k_mem k' x)"
    by (rule user_stub_runs [OF ok user_ready_regs [OF ready] f pre _ _ run' apart post]) simp_all
  ultimately show ?thesis by (simp add: sys_clear_stub_def)
qed

text \<open>
  C18: The assembly stubs of the C library implement the calls the library is verified on. In ring 3,
  called with the return address and the arguments on the user stack, each stub traps into the
  kernel and returns to its caller with the call's result in \<open>eax\<close>, the arguments left in \<open>ecx\<close> and
  \<open>edx\<close> by the stubs that load them, every other register as the caller had it and the return
  address popped; the kernel's state is that of
  \<open>u_sys_write\<close>, \<open>u_sys_read\<close> or \<open>u_sys_clear\<close>, and so is memory outside the kernel's stack and the
  64 bytes of user stack around the call.
\<close>

theorem libc_stubs_refine:
  assumes "platform_ok P" and "user_ready P c (c_gpr c ESP - 48) (c_gpr c ESP + 16)"
    and "words_at (k_mem k) (c_gpr c ESP) [ra, fd, buf, count]"
    and "call = (sys_write_stub ip, u_sys_write (p_hw P) fd buf count k, with_args buf count c) \<and>
           buffer_apart P (user_regs 4 fd buf count) (c_gpr c ESP - 48) (c_gpr c ESP + 16) \<or>
         call = (sys_read_stub ip, u_sys_read (p_hw P) fd buf count k, with_args buf count c) \<and>
           buffer_apart P (user_regs 3 fd buf count) (c_gpr c ESP - 48) (c_gpr c ESP + 16) \<or>
         call = (sys_clear_stub ip, u_sys_clear (p_hw P) k, c)"
    and "fst (snd call) = Some (v, k')"
  shows "\<exists>m. exec (user_env P) (fst call) (c, k) = Some (stub_returns (snd (snd call)) v ra, k'\<lparr>k_mem := m\<rparr>) \<and>
    (\<forall>x. \<not> stack_area (c_gpr c ESP - 48) (c_gpr c ESP + 16) x \<and> \<not> stack_area (p_stack P) (t_esp0 (p_tss P)) x \<longrightarrow> m x = k_mem k' x)"
  using assms(4)
proof (elim disjE conjE)
  assume "call = (sys_write_stub ip, u_sys_write (p_hw P) fd buf count k, with_args buf count c)"
    "buffer_apart P (user_regs 4 fd buf count) (c_gpr c ESP - 48) (c_gpr c ESP + 16)"
  then show ?thesis using stub3_runs [OF assms(1-3), of 4] assms(5) by (simp add: sys_write_stub_def u_sys_write_def)
next
  assume "call = (sys_read_stub ip, u_sys_read (p_hw P) fd buf count k, with_args buf count c)"
    "buffer_apart P (user_regs 3 fd buf count) (c_gpr c ESP - 48) (c_gpr c ESP + 16)"
  then show ?thesis using stub3_runs [OF assms(1-3), of 3] assms(5) by (simp add: sys_read_stub_def u_sys_read_def)
next
  assume "call = (sys_clear_stub ip, u_sys_clear (p_hw P) k, c)"
  then show ?thesis using clear_runs [OF assms(1-3)] assms(5) by simp
qed

definition sample_user_mem :: memory where
  "sample_user_mem = store32 0xBFFFFF00 0x500 (store32 0xBFFFFF04 1 (store32 0xBFFFFF08 0x1000 (store32 0xBFFFFF0C 2 (\<lambda>x. 65))))"

lemma stack_area_numerals: "stack_area lo hi x \<Longrightarrow> lo \<le> hi \<Longrightarrow> lo \<le> x \<and> x < hi"
proof -
  assume a: "stack_area lo hi x" "lo \<le> hi"
  then have "unat (hi - lo) = unat hi - unat lo" by (intro unat_sub)
  then have "unat lo + unat (hi - lo) \<le> 4294967296" using less_imp_le [OF unat_lt_2p32, of hi] a(2) by (simp add: u32_nat del: unat_lt_2p32)
  from in_obj_nowrap [OF this, of x] a \<open>unat (hi - lo) = _\<close> show "lo \<le> x \<and> x < hi" by (auto simp: stack_area_def u32_nat)
qed

lemma sample_user_ready:
  "user_ready (sample_platform hw) (user_cpu 0x400 0xBFFFFF00) 0xBFFFFED0 0xBFFFFF10"
  "buffer_apart (sample_platform hw) (user_regs 4 1 0x1000 2) 0xBFFFFED0 0xBFFFFF10"
proof -
  have "\<not> (stack_area 0xBFFFFED0 0xBFFFFF10 x \<and> stack_area 0xC0120000 0xC0121000 x)" for x
    using stack_area_numerals [of "0xBFFFFED0" "0xBFFFFF10" x] stack_area_numerals [of "0xC0120000" "0xC0121000" x]
    by (auto simp: u32_nat)
  then show "user_ready (sample_platform hw) (user_cpu 0x400 0xBFFFFF00) 0xBFFFFED0 0xBFFFFF10"
    using sample_segs by (auto simp: user_ready_def)
  have "in_obj 0x1000 2 x \<Longrightarrow> unat x < 0x1002" for x :: u32 using in_obj_nowrap [of "0x1000" 2 x] by simp
  then have "in_obj 0x1000 2 x \<Longrightarrow> \<not> stack_area 0xBFFFFED0 0xBFFFFF10 x \<and> \<not> stack_area 0xC0120000 0xC0121000 x" for x
    using stack_area_numerals [of "0xBFFFFED0" "0xBFFFFF10" x] stack_area_numerals [of "0xC0120000" "0xC0121000" x]
    by (fastforce simp: u32_nat)
  then show "buffer_apart (sample_platform hw) (user_regs 4 1 0x1000 2) 0xBFFFFED0 0xBFFFFF10"
    by (simp add: buffer_apart_def syscall_buffer_def)
qed

theorem libc_stubs_refine_witness:
  "\<exists>k' m. exec (user_env (sample_platform (const_hw 0x20))) (sys_write_stub 0x420) (user_cpu 0x400 0xBFFFFF00, kernel_up\<lparr>k_mem := sample_user_mem\<rparr>) =
     Some (stub_returns (with_args 0x1000 2 (user_cpu 0x400 0xBFFFFF00)) 2 0x500, k'\<lparr>k_mem := m\<rparr>) \<and> com1 k' = [65, 65]"
proof -
  let ?k = "kernel_up\<lparr>k_mem := sample_user_mem\<rparr>" and ?P = "sample_platform (const_hw 0x20)" and ?c = "user_cpu 0x400 0xBFFFFF00"
  have d: "transmitter_drains (const_hw 0x20) SERIAL_COM1_BASE"
    unfolding transmitter_drains_def by (intro allI exI [of _ 0]) simp
  have w: "words_at (k_mem ?k) (c_gpr ?c ESP) [0x500, 1, 0x1000, 2]"
    by (simp add: words_at_Cons sample_user_mem_def load32_def store32_def)
  have "[65, 65] = read_bytes (k_mem ?k) (r_ecx (user_regs 4 1 0x1000 2)) (unat (r_edx (user_regs 4 1 0x1000 2)))"
    by (simp add: read_bytes_def upt_rec sample_user_mem_def store32_def)
  then obtain k' where "do_syscall_in_C (const_hw 0x20) (Some (user_regs 4 1 0x1000 2)) ?k =
      Some (Some ((user_regs 4 1 0x1000 2)\<lparr>r_eax := 2\<rparr>), k')" "com1 k' = com1 ?k @ [65, 65]"
    using sys_write_call [OF d, of "user_regs 4 1 0x1000 2" "[65, 65]" ?k] by (auto simp: syscall_defs)
  then have k': "u_sys_write (p_hw ?P) 1 0x1000 2 ?k = Some (2, k')" "com1 k' = [65, 65]"
    by (simp_all add: u_sys_write_def trap_def com1_def)
  have "\<exists>m. exec (user_env ?P) (sys_write_stub 0x420) (?c, ?k) = Some (stub_returns (with_args 0x1000 2 ?c) 2 0x500, k'\<lparr>k_mem := m\<rparr>) \<and>
    (\<forall>x. \<not> stack_area (c_gpr ?c ESP - 48) (c_gpr ?c ESP + 16) x \<and> \<not> stack_area (p_stack ?P) (t_esp0 (p_tss ?P)) x \<longrightarrow> m x = k_mem k' x)"
    using libc_stubs_refine [OF sample_platform_ok [of "const_hw 0x20"] _ w, of "(sys_write_stub 0x420, u_sys_write (p_hw ?P) 1 0x1000 2 ?k, with_args 0x1000 2 ?c)" "0x420" 2 k']
      sample_user_ready k'(1) by simp
  with k'(2) show ?thesis by blast
qed

end
