(* ===== verification/Program_End.thy ===== *)
theory Program_End
  imports User_Stub
begin

text \<open>
  \<open>userland/libc/src/entry.s\<close>: the start code of a user program, and what happens when \<open>main\<close>
  returns. \<open>sys_exit\<close> comes back, since the kernel has no notion of a finished process; the
  program then executes \<open>hlt\<close>, which ring 3 may not, and the kernel's exception handler returns
  to the very instruction that faulted.
\<close>

definition start_code :: "u32 \<Rightarrow> u32 \<Rightarrow> instr list" where
  "start_code after_main halt = [CALL C_main after_main, PUSH (Reg EAX), CALL A_sys_exit halt]"

text \<open>The compiled \<open>main\<close> is a parameter; \<open>sys_exit\<close> is the stub, whose \<open>int\<close> returns to \<open>ip\<close>.\<close>

definition start_env :: "platform \<Rightarrow> (st \<Rightarrow> st option) \<Rightarrow> u32 \<Rightarrow> env" where
  "start_env P main ip = \<lparr>e_call = (\<lambda>f. case f of C_main \<Rightarrow> main
       | A_sys_exit \<Rightarrow> exec (user_env P) (sys_exit_stub ip) | _ \<Rightarrow> (\<lambda>_. None)),
     e_trap = user_trap P, e_gdt = p_gdt P, e_hw = p_hw P\<rparr>"

text \<open>
  \<open>.halt: hlt; jmp .halt\<close> in ring 3: the instruction is privileged, so the processor raises a general
  protection fault with error code 0 at it instead of executing it.
\<close>

definition user_hlt :: "platform \<Rightarrow> st \<Rightarrow> st option" where
  "user_hlt P s = (if cpl (fst s) = 3 then deliver P 13 [0] s else None)"

primrec hlt_rounds :: "platform \<Rightarrow> nat \<Rightarrow> st \<Rightarrow> st option" where
  "hlt_rounds P 0 s = Some s"
| "hlt_rounds P (Suc n) s = Option.bind (user_hlt P s) (hlt_rounds P n)"

section \<open>The fault repeats\<close>

lemma reported:
  "k_tbl k 13 = None \<Longrightarrow> interrupt_handler hw 13 k = Some (report_exception 13 k)"
  by (simp add: interrupt_handler_def)

lemma report_tbl [simp]: "k_tbl (report_exception n k) = k_tbl k"
  by (simp add: report_exception_def Let_def)

lemma reports_any_mem: "(report_exception n ^^ i) (k\<lparr>k_mem := m\<rparr>) = ((report_exception n ^^ i) k)\<lparr>k_mem := m\<rparr>"
  by (induction i) (simp_all add: report_any_mem)

lemma hlt_faults_again:
  assumes "platform_ok P" "cpl c = 3" "segs_kept (p_gdt P) c" "unat (p_stack P) + 256 \<le> unat (t_esp0 (p_tss P))" "k_tbl k 13 = None"
  shows "\<exists>m. hlt_rounds P n (c, k) = Some (c, ((report_exception 13 ^^ n) k)\<lparr>k_mem := m\<rparr>)"
  using assms(5)
proof (induction n arbitrary: k)
  case 0
  then show ?case by (auto intro: exI [of _ "k_mem k"])
next
  case (Suc n)
  have "unat (t_esp0 (p_tss P) - p_stack P) = unat (t_esp0 (p_tss P)) - unat (p_stack P)"
    using assms(4) by (intro unat_sub) (simp add: u32_nat)
  then have "128 \<le> unat (entry_stack (p_tss P) c - p_stack P)" using assms(2,4) by (simp add: entry_stack_def)
  moreover have "interrupt_handler (p_hw P) (word_of_nat 13) k = Some (report_exception 13 k)" using reported [OF Suc.prems] by simp
  moreover have "err_ok 13 [0]" by (simp add: err_ok_def error_vectors_def)
  ultimately obtain m where m: "deliver P 13 [0] (c, k) = Some (c, (report_exception 13 k)\<lparr>k_mem := m\<rparr>)"
    using interrupt_transparently [OF assms(1), of 13 "[0]" c k] assms(2,3) by auto
  obtain m' where "hlt_rounds P n (c, (report_exception 13 k)\<lparr>k_mem := m\<rparr>) =
      Some (c, ((report_exception 13 ^^ n) ((report_exception 13 k)\<lparr>k_mem := m\<rparr>))\<lparr>k_mem := m'\<rparr>)"
    using Suc.IH [of "(report_exception 13 k)\<lparr>k_mem := m\<rparr>"] Suc.prems by auto
  then show ?case using m assms(2) by (auto simp: user_hlt_def reports_any_mem funpow_swap1)
qed

section \<open>sys\_exit returns\<close>

lemma exit_syscall: "r_eax r = 1 \<Longrightarrow> do_syscall_in_C hw (Some r) k = Some (Some (r\<lparr>r_eax := r_ebx r\<rparr>), k)"
  by (simp add: do_syscall_in_C_def syscall_defs)

lemma exit_returns:
  assumes ok: "platform_ok P" and ready: "user_ready P c (c_gpr c ESP - 48) (c_gpr c ESP + 8)"
    and words: "words_at (k_mem k) (c_gpr c ESP) [ra, v]"
  shows "\<exists>m. exec (user_env P) (sys_exit_stub ip) (c, k) = Some (stub_returns c v ra, k\<lparr>k_mem := m\<rparr>)"
proof -
  let ?pre = "[PUSH (Reg EBX), MOV EAX (Imm 1), MOV EBX (Stk 8)]"
  let ?c1 = "set_gpr EBX v (set_gpr EAX 1 (set_gpr ESP (c_gpr c ESP - 4) c))" and ?lo = "c_gpr c ESP - 48" and ?hi = "c_gpr c ESP + 8"
  let ?c3 = "set_gpr EBX (c_gpr c EBX) (set_gpr ESP (c_gpr c ESP) (set_gpr EAX v (?c1\<lparr>c_eip := ip\<rparr>)))"
  let ?r = "user_frame (?c1\<lparr>c_eip := ip\<rparr>)"
  have f: "framed ?lo ?hi k (c, [ra, v]) (c, k)" by (rule framed_here [OF words]) simp
  have pre: "aexec ?pre (c, [ra, v]) = Some (?c1, [c_gpr c EBX, ra, v])" by (simp add: apush_def)
  have r: "r_eax ?r = 1" "r_ebx ?r = v" by (simp_all add: user_frame_def)
  have apart: "buffer_apart P ?r ?lo ?hi" by (simp add: buffer_apart_def syscall_buffer_def r syscall_defs)
  have post: "aexec [POP EBX] (set_gpr EAX (r_eax (?r\<lparr>r_eax := r_ebx ?r\<rparr>)) (?c1\<lparr>c_eip := ip\<rparr>), [c_gpr c EBX, ra, v]) = Some (?c3, ra # [v])"
    by (simp add: r)
  have "stub_returns c v ra = (set_gpr ESP (c_gpr ?c3 ESP + 4) ?c3)\<lparr>c_eip := ra\<rparr>"
    by (rule cpu.equality) (auto simp: stub_returns_def fun_eq_iff)
  moreover have "\<exists>m. exec (user_env P) (?pre @ [INTR 0x80 ip] @ [POP EBX] @ [RET]) (c, k) =
      Some ((set_gpr ESP (c_gpr ?c3 ESP + 4) ?c3)\<lparr>c_eip := ra\<rparr>, k\<lparr>k_mem := m\<rparr>) \<and>
    (\<forall>x. \<not> stack_area ?lo ?hi x \<and> \<not> stack_area (p_stack P) (t_esp0 (p_tss P)) x \<longrightarrow> m x = k_mem k x)"
    by (rule user_stub_runs [OF ok user_ready_regs [OF ready] f pre _ _ exit_syscall [OF r(1)] apart post]) simp_all
  ultimately show ?thesis by (auto simp: sys_exit_stub_def)
qed

text \<open>
  C36: A user program that returns from \<open>main\<close> never stops. \<open>sys_exit\<close> returns the exit status to its
  caller; the program then stands at \<open>hlt\<close> in ring 3, and for every \<open>n\<close> the general protection fault
  is taken, reported on the screen and returned from \<open>n\<close> times, with the program still at the same
  instruction and all its registers unchanged: the machine reports exceptions for ever.
\<close>

theorem program_end_never_stops:
  assumes "platform_ok P" and "main (push_word after_main (c0, k0)) = Some (c, k)" and "c_eip c = after_main"
    and "user_ready P c (c_gpr c ESP - 56) (c_gpr c ESP)" and "k_tbl k 13 = None"
  shows "\<exists>c' m. exec (start_env P main ip) (start_code after_main halt) (c0, k0) = Some (c', k\<lparr>k_mem := m\<rparr>) \<and>
    c_eip c' = halt \<and> c_gpr c' EAX = c_gpr c EAX \<and> cpl c' = 3 \<and>
    (\<forall>n. \<exists>m'. hlt_rounds P n (c', k\<lparr>k_mem := m\<rparr>) = Some (c', ((report_exception 13 ^^ n) k)\<lparr>k_mem := m'\<rparr>))"
proof -
  let ?E = "start_env P main ip" and ?S = "c_gpr c ESP" and ?v = "c_gpr c EAX"
  have f: "framed (?S - 56) ?S k (c, []) (c, k)" by (rule framed_start) simp
  have room: "4 * Suc (length (snd (c, [] :: u32 list))) \<le> unat (?S - (?S - 56))" "4 * Suc (length (snd (apush ?v (c, [])))) \<le> unat (?S - (?S - 56))"
    by (simp_all add: apush_def)
  note f2 = framed_push [OF framed_push [OF f room(1), of ?v] room(2), of halt]
  obtain c2 k2 where s2: "push_word halt (push_word ?v (c, k)) = (c2, k2)" by fastforce
  have c2: "c2 = set_gpr ESP (?S - 8) c" using f2 unfolding s2 by (simp add: framed_def apush_def)
  have w: "words_at (k_mem k2) (c_gpr c2 ESP) [halt, ?v]" using f2 unfolding s2 by (simp add: framed_def apush_def)
  have k2: "k2 = k\<lparr>k_mem := k_mem k2\<rparr>" using framed_kernel [OF f2] by (simp add: s2)
  have "user_ready P c2 (c_gpr c2 ESP - 48) (c_gpr c2 ESP + 8)" using assms(4) by (simp add: c2 user_ready_def segs_kept_def)
  from exit_returns [OF assms(1) this w] obtain m where
    m: "exec (user_env P) (sys_exit_stub ip) (c2, k2) = Some (stub_returns c2 ?v halt, k\<lparr>k_mem := m\<rparr>)"
    using k2 by (metis kernel.update_convs(4) kernel.surjective)
  let ?c = "stub_returns c2 ?v halt"
  have "exec ?E (start_code after_main halt) (c0, k0) = Some (?c, k\<lparr>k_mem := m\<rparr>)"
    using assms(2,3) m s2 by (simp add: start_code_def start_env_def back_at_def stub_returns_def)
  moreover have "c_eip ?c = halt" "c_gpr ?c EAX = ?v" "cpl ?c = 3" "segs_kept (p_gdt P) ?c"
    using assms(4) by (simp_all add: stub_returns_def c2 cpl_def user_ready_def segs_kept_def)
  moreover from this have "\<exists>m'. hlt_rounds P n (?c, k\<lparr>k_mem := m\<rparr>) = Some (?c, ((report_exception 13 ^^ n) k)\<lparr>k_mem := m'\<rparr>)" for n
    using hlt_faults_again [OF assms(1), of ?c "k\<lparr>k_mem := m\<rparr>" n] assms(4,5) by (simp add: reports_any_mem user_ready_def)
  ultimately show ?thesis by blast
qed

text \<open>A \<open>main\<close> that returns 42.\<close>

definition main_42 :: "st \<Rightarrow> st option" where
  "main_42 s = (case return_word s of (c, k) \<Rightarrow> Some (set_gpr EAX 42 c, k))"

theorem program_end_never_stops_witness:
  "\<exists>c' k'. exec (start_env (sample_platform (const_hw 0)) main_42 0x420) (start_code 0x10 0x20) (user_cpu 0 0xBFFFFF38, kernel_up) = Some (c', k') \<and>
     c_eip c' = 0x20 \<and> c_gpr c' EAX = 42 \<and> (\<exists>k''. hlt_rounds (sample_platform (const_hw 0)) 1000 (c', k') = Some (c', k''))"
proof -
  let ?P = "sample_platform (const_hw 0)" and ?u = "user_cpu 0 0xBFFFFF38" and ?k = "kernel_up\<lparr>k_mem := store32 0xBFFFFF34 0x10 (k_mem kernel_up)\<rparr>"
  let ?c = "(set_gpr EAX 42 ?u)\<lparr>c_eip := 0x10\<rparr>"
  have "set_gpr EAX 42 ((set_gpr ESP 0xBFFFFF38 (user_cpu 0 0xBFFFFF38))\<lparr>c_eip := 0x10\<rparr>) = ?c"
    by (rule cpu.equality) (auto simp: fun_eq_iff)
  then have main: "main_42 (push_word 0x10 (?u, kernel_up)) = Some (?c, ?k)"
    by (simp add: main_42_def push_word_def return_word_def pop_word_def Let_def)
  have "\<not> (stack_area 0xBFFFFF00 0xBFFFFF38 x \<and> stack_area 0xC0120000 0xC0121000 x)" for x
    using stack_area_numerals [of "0xBFFFFF00" "0xBFFFFF38" x] stack_area_numerals [of "0xC0120000" "0xC0121000" x]
    by (auto simp: u32_nat)
  then have ready: "user_ready ?P ?c (c_gpr ?c ESP - 56) (c_gpr ?c ESP)"
    using sample_segs [of 0 "0xBFFFFF38"] by (auto simp: user_ready_def segs_kept_def)
  have "k_tbl ?k 13 = None" by (simp add: kernel_up_def register_interrupt_handler_def no_handlers_def)
  with program_end_never_stops [where main = main_42 and after_main = "0x10" and ip = "0x420" and halt = "0x20", OF sample_platform_ok main _ ready]
  obtain c' m where r: "exec (start_env ?P main_42 0x420) (start_code 0x10 0x20) (?u, kernel_up) = Some (c', ?k\<lparr>k_mem := m\<rparr>)"
    "c_eip c' = 0x20" "c_gpr c' EAX = 42" "\<exists>m'. hlt_rounds ?P 1000 (c', ?k\<lparr>k_mem := m\<rparr>) = Some (c', ((report_exception 13 ^^ 1000) ?k)\<lparr>k_mem := m'\<rparr>)"
    by (auto simp del: funpow.simps)
  then show ?thesis by blast
qed

end
