(* ===== verification/Kconsole.thy ===== *)
theory Kconsole
  imports Syscall Kheap_Limits
begin

text \<open>
  Text output of the kernel itself: \<open>strlen\<close>, \<open>print\<close> and \<open>print_hex\<close> of
  \<open>kernel/kmain.c\<close> and \<open>kheap_print_stats\<close> of \<open>kernel/kheap.c\<close>. A string object is the list of its
  bytes with the terminating NUL.
\<close>

fun kstrlen :: "byte list \<Rightarrow> u32 \<Rightarrow> u32" where
  "kstrlen [] len = len"
| "kstrlen (c # cs) len = (if c \<noteq> 0 then kstrlen cs (len + 1) else len)"

definition print :: "byte list \<Rightarrow> kernel \<Rightarrow> kernel" where
  "print str k = k_fb_write (take (unat (kstrlen str 0)) str) k"

definition hex_nibble :: "u32 \<Rightarrow> nat \<Rightarrow> byte" where
  "hex_nibble n i =
     (let nibble = drop_bit (i * 4) n AND 0xF
      in if nibble < 10 then 48 + ucast nibble else 65 + ucast nibble - 10)"

definition hex_buf :: "u32 \<Rightarrow> byte list" where
  "hex_buf n =
     (fold (\<lambda>i buf. buf[9 - i := hex_nibble n i]) (rev [0..<8]) ((replicate 11 0)[0 := 48, 1 := 120]))[10 := 0]"

definition print_hex :: "u32 \<Rightarrow> kernel \<Rightarrow> kernel" where
  "print_hex n k = print (hex_buf n) k"

definition kb_digits :: "u32 \<Rightarrow> byte list" where
  "kb_digits kb = [48 + ucast (kb div 100), 48 + ucast ((kb div 10) mod 10), 48 + ucast (kb mod 10)]"

text \<open>A text written to the framebuffer and then to COM1.\<close>

definition tee :: "hardware \<Rightarrow> byte list \<Rightarrow> kernel \<Rightarrow> kernel option" where
  "tee hw buf k = k_serial_write hw buf (k_fb_write buf k)"

definition kheap_print_stats :: "hardware \<Rightarrow> kheap_state \<Rightarrow> kernel \<Rightarrow> kernel option" where
  "kheap_print_stats hw h k =
     (let total = kheap_get_total_memory;
          used = kheap_get_used_memory h;
          free = kheap_get_free_memory h
      in Option.bind (tee hw (str_bytes ''[ KHEAP ] Total: '') k) (\<lambda>k.
         Option.bind (tee hw (kb_digits (total div 1024) @ str_bytes '' KB, Used: '') k) (\<lambda>k.
         Option.bind (tee hw (kb_digits (used div 1024) @ str_bytes '' KB, Free: '') k) (\<lambda>k.
           tee hw (kb_digits (free div 1024) @ str_bytes '' KB'' @ [10]) k))))"

section \<open>Strings\<close>

lemma kstrlen_string:
  "0 \<notin> set cs \<Longrightarrow> kstrlen (cs @ 0 # pad) len = len + word_of_nat (length cs)"
  by (induction cs arbitrary: len) (auto simp: algebra_simps)

lemma print_string:
  assumes "0 \<notin> set cs" "length cs < 4294967296"
  shows "print (cs @ 0 # pad) k = k_fb_write cs k"
  using assms by (simp add: print_def kstrlen_string unat_of_nat_u32)

section \<open>Hexadecimal numbers\<close>

definition hex_digits :: "u32 \<Rightarrow> byte list" where
  "hex_digits n = map (\<lambda>i. hex_nibble n (7 - i)) [0..<8]"

definition hex_value :: "byte \<Rightarrow> nat" where
  "hex_value c = (if c < 58 then unat c - 48 else unat c - 55)"

lemma hex_buf_eq: "hex_buf n = [48, 120] @ hex_digits n @ [0]"
  by (simp add: hex_buf_def hex_digits_def upt_rec numeral_eq_Suc)

lemma unat_nibble: "unat (drop_bit (i * 4) n AND 0xF :: u32) = unat n div 16 ^ i mod 16"
proof -
  have "(drop_bit (i * 4) n AND 0xF :: u32) = take_bit 4 (drop_bit (i * 4) n)"
    using and_ones by (simp add: take_bit_eq_mask mask_eq_exp_minus_1)
  then have "unat (drop_bit (i * 4) n AND 0xF) = take_bit 4 (drop_bit (i * 4) (unat n))"
    by (simp only: unsigned_take_bit_eq unat_drop_bit_eq)
  also have "\<dots> = unat n div (2 ^ 4) ^ i mod 2 ^ 4"
    by (simp only: drop_bit_eq_div take_bit_eq_mod power_mult mult.commute [of i])
  finally show ?thesis by simp
qed

lemma upt_16: "[0..<16] = [0, 1, 2, 3, 4, 5, 6, 7, 8, 9, 10, 11, 12, 13, 14, 15 :: nat]"
  by (simp add: upt_rec)

lemma hex_value_nibble: "hex_value (hex_nibble n i) = unat n div 16 ^ i mod 16" "hex_nibble n i \<noteq> 0"
proof -
  let ?x = "drop_bit (i * 4) n AND 0xF"
  have x: "unat ?x = unat n div 16 ^ i mod 16" by (rule unat_nibble)
  have lt: "unat ?x < 16" unfolding x by simp
  define d where "d = unat ?x"
  have u: "(ucast ?x :: byte) = word_of_nat d" by (simp add: d_def)
  have "d \<in> set [0..<16]" using lt by (simp add: d_def)
  then have d: "d \<in> set [0, 1, 2, 3, 4, 5, 6, 7, 8, 9, 10, 11, 12, 13, 14, 15]" by (simp only: upt_16)
  have "hex_nibble n i = (if d < 10 then 48 + word_of_nat d else 65 + word_of_nat d - 10)"
    unfolding hex_nibble_def Let_def u by (simp add: less_u32_nat d_def)
  with d show "hex_nibble n i \<noteq> 0" "hex_value (hex_nibble n i) = unat n div 16 ^ i mod 16"
    unfolding x [symmetric] d_def [symmetric] by (auto simp: hex_value_def)
qed

lemma horner: "16 * (m div 16 ^ Suc i) + m div 16 ^ i mod 16 = m div 16 ^ i" for m :: nat
proof -
  have "m div 16 ^ Suc i = m div 16 ^ i div 16" by (simp add: power_Suc2 div_mult2_eq del: power_Suc)
  then show ?thesis by (simp add: mult_div_mod_eq)
qed

lemma hex_digits_value: "foldl (\<lambda>v c. 16 * v + hex_value c) 0 (hex_digits n) = unat n"
proof -
  have "foldl (\<lambda>v c. 16 * v + hex_value c) 0 (map (\<lambda>i. hex_nibble n (7 - i)) [0..<j]) = unat n div 16 ^ (8 - j)" if "j \<le> 8" for j
    using that
  proof (induction j)
    case 0
    have "unat n < 16 ^ 8" using unat_lt_2p32 [of n] by simp
    then show ?case by simp
  next
    case (Suc j)
    then have "8 - j = Suc (7 - j)" by simp
    with Suc show ?case using horner [of "unat n" "7 - j"] by (simp add: hex_value_nibble)
  qed
  from this [of 8] show ?thesis by (simp add: hex_digits_def)
qed

text \<open>
  \<open>print_hex\<close> shows a 32-bit number on the screen as \<open>0x\<close> and exactly eight hexadecimal
  digits whose value is the number.
\<close>

lemma print_hex_shows_number:
  "\<exists>ds. print_hex n k = k_fb_write ([48, 120] @ ds) k \<and> length ds = 8 \<and>
    foldl (\<lambda>v c. 16 * v + hex_value c) 0 ds = unat n"
proof -
  have "0 \<notin> set ([48, 120] @ hex_digits n)" using hex_value_nibble(2) by (auto simp: hex_digits_def)
  moreover have "length ([48, 120] @ hex_digits n) < 4294967296" by (simp add: hex_digits_def)
  ultimately have "print_hex n k = k_fb_write ([48, 120] @ hex_digits n) k"
    using print_string [of "[48, 120] @ hex_digits n" "[]" k] by (simp add: print_hex_def hex_buf_eq)
  then show ?thesis using hex_digits_value [of n] by (intro exI [of _ "hex_digits n"]) (simp add: hex_digits_def)
qed

section \<open>Heap statistics\<close>

lemma tee_echoes:
  assumes "transmitter_drains hw SERIAL_COM1_BASE"
  shows "\<exists>k'. tee hw buf k = Some k' \<and> echoed buf buf k k' \<and> k_kbd k' = k_kbd k \<and> k_mem k' = k_mem k"
  using echo_returns [OF assms, of buf buf k] by (auto simp: tee_def)

text \<open>Three decimal digits.\<close>

definition pad3 :: "nat \<Rightarrow> byte list" where
  "pad3 n = [digit (n div 100), digit (n div 10 mod 10), digit (n mod 10)]"

lemma digit_word: "unat (x :: u32) < 10 \<Longrightarrow> 48 + ucast x = digit (unat x)"
  by (simp add: digit_def)

lemma kb_digits_pad3:
  assumes "unat kb < 1000"
  shows "kb_digits kb = pad3 (unat kb)"
proof -
  have "unat (kb div 100) < 10" "unat (kb div 10 mod 10) < 10" "unat (kb mod 10) < 10"
    using assms by (simp_all add: unat_div unat_mod div_less_iff_less_mult)
  then show ?thesis by (simp add: kb_digits_def pad3_def digit_word) (simp add: unat_div unat_mod)
qed

definition stats_text :: "nat \<Rightarrow> byte list" where
  "stats_text blocks = str_bytes ''[ KHEAP ] Total: '' @ pad3 256 @ str_bytes '' KB, Used: '' @ pad3 (32 * blocks div 1024) @
     str_bytes '' KB, Free: '' @ pad3 ((262144 - 32 * blocks) div 1024) @ str_bytes '' KB'' @ [10]"

lemma tee_bind:
  assumes "transmitter_drains hw SERIAL_COM1_BASE"
    and "\<And>k1. \<exists>k'. f k1 = Some k' \<and> echoed t t k1 k' \<and> k_kbd k' = k_kbd k1 \<and> k_mem k' = k_mem k1"
  shows "\<exists>k'. Option.bind (tee hw buf k) f = Some k' \<and> echoed (buf @ t) (buf @ t) k k' \<and> k_kbd k' = k_kbd k \<and> k_mem k' = k_mem k"
proof -
  obtain k1 where k1: "tee hw buf k = Some k1" "echoed buf buf k k1" "k_kbd k1 = k_kbd k" "k_mem k1 = k_mem k"
    using tee_echoes [OF assms(1)] by blast
  obtain k' where "f k1 = Some k'" "echoed t t k1 k'" "k_kbd k' = k_kbd k1" "k_mem k' = k_mem k1"
    using assms(2) by blast
  with k1 show ?thesis using echoed_trans by auto
qed

lemma stats_pieces:
  assumes "unat (kheap_get_used_memory h) = 32 * b" "unat (kheap_get_free_memory h) = 262144 - 32 * b" "b \<le> 8192"
  shows "kb_digits (kheap_get_used_memory h div 1024) = pad3 (32 * b div 1024)"
      "kb_digits (kheap_get_free_memory h div 1024) = pad3 ((262144 - 32 * b) div 1024)"
      "kb_digits (kheap_get_total_memory div 1024) = pad3 256"
  using assms by (subst kb_digits_pad3; simp add: unat_div kheap_get_total_memory_def div_less_iff_less_mult)+

lemma stats_printed:
  assumes u: "unat (kheap_get_used_memory h) = 32 * b" and f: "unat (kheap_get_free_memory h) = 262144 - 32 * b"
    and le: "b \<le> 8192" and d: "transmitter_drains hw SERIAL_COM1_BASE"
  shows "\<exists>k'. kheap_print_stats hw h k = Some k' \<and> com1 k' = com1 k @ stats_text b \<and>
    k_fb k' = screen_after (stats_text b) (k_fb k) \<and> k_kbd k' = k_kbd k \<and> k_tbl k' = k_tbl k \<and> k_mem k' = k_mem k"
proof -
  let ?t = "str_bytes ''[ KHEAP ] Total: ''" and ?a = "kb_digits (kheap_get_total_memory div 1024) @ str_bytes '' KB, Used: ''"
    and ?b = "kb_digits (kheap_get_used_memory h div 1024) @ str_bytes '' KB, Free: ''"
    and ?c = "kb_digits (kheap_get_free_memory h div 1024) @ str_bytes '' KB'' @ [10]"
  have "\<exists>k'. kheap_print_stats hw h k = Some k' \<and> echoed (?t @ ?a @ ?b @ ?c) (?t @ ?a @ ?b @ ?c) k k' \<and>
      k_kbd k' = k_kbd k \<and> k_mem k' = k_mem k"
    unfolding kheap_print_stats_def Let_def by (intro tee_bind [OF d] tee_echoes [OF d])
  moreover have "?t @ ?a @ ?b @ ?c = stats_text b" by (simp add: stats_text_def stats_pieces [OF u f le])
  ultimately show ?thesis by (auto simp: echoed_def)
qed

text \<open>
  \<open>kheap_print_stats\<close> reports a well-formed heap on the screen and on COM1 alike: the total
  of 256 KB, and the used and free memory in whole kilobytes, rounded down, of exactly the
  blocks of the live chunks; the heap's client data are untouched.
\<close>

lemma kheap_print_stats_reports:
  assumes "heap_rel base h A" and "transmitter_drains hw SERIAL_COM1_BASE"
  shows "\<exists>k'. kheap_print_stats hw h k = Some k' \<and> com1 k' = com1 k @ stats_text (live_blocks A) \<and>
    k_fb k' = screen_after (stats_text (live_blocks A)) (k_fb k) \<and>
    k_kbd k' = k_kbd k \<and> k_tbl k' = k_tbl k \<and> k_mem k' = k_mem k"
  by (rule stats_printed [OF memory_statistics(2,3,1) [OF assms(1)] assms(2)])

lemma kheap_print_stats_reports_witness:
  "\<exists>h k'. heap_rel pool_base h [0 \<mapsto> (4, 100)] \<and> kheap_print_stats (const_hw 0x20) h kernel_up = Some k' \<and>
     com1 k' = str_bytes ''[ KHEAP ] Total: 256 KB, Used: 000 KB, Free: 255 KB'' @ [10]"
proof -
  obtain h where h: "heap_rel pool_base h [0 \<mapsto> (4, 100)]" using booted_chunk by blast
  have "live_blocks [0 \<mapsto> (4, 100 :: u32)] = 4" by (simp add: live_blocks_def)
  moreover have "stats_text 4 = str_bytes ''[ KHEAP ] Total: 256 KB, Used: 000 KB, Free: 255 KB'' @ [10]"
    by (simp add: stats_text_def pad3_def digit_def str_bytes_def)
  ultimately show ?thesis
    using kheap_print_stats_reports [OF h const_hw_drains, of kernel_up] h by (auto simp: com1_def)
qed

end
