(* ===== verification/Paging.thy ===== *)
theory Paging
  imports Port_IO
begin

text \<open>
  \<open>arch/x86/mmu/paging.c\<close> and the bootstrap tables of \<open>arch/x86/boot/loader.s\<close>: the page
  tables of the higher-half kernel and of the user process, and the loading of the process
  image. The addresses the linker gives to the static arrays are parameters (the record
  \<open>paging_addrs\<close>), as is the memory the Multiboot module lies in. The processor's two-level
  translation is defined separately (\<open>translate\<close>) and the tables are checked against it.
\<close>

definition KERNEL_VIRTUAL_BASE :: u32 where "KERNEL_VIRTUAL_BASE = 0xC0000000"
definition VIRTUAL_TO_PHYSICAL :: "u32 \<Rightarrow> u32" where "VIRTUAL_TO_PHYSICAL addr = addr - KERNEL_VIRTUAL_BASE"
definition PAGING_FLAG_PRESENT :: u32 where "PAGING_FLAG_PRESENT = 0x01"
definition PAGING_FLAG_WRITE :: u32 where "PAGING_FLAG_WRITE = 0x02"
definition PAGING_FLAG_USER :: u32 where "PAGING_FLAG_USER = 0x04"
definition PAGING_KERNEL_PAGE :: u32 where "PAGING_KERNEL_PAGE = PAGING_FLAG_PRESENT OR PAGING_FLAG_WRITE"
definition PAGING_USER_PAGE :: u32 where
  "PAGING_USER_PAGE = PAGING_FLAG_PRESENT OR PAGING_FLAG_WRITE OR PAGING_FLAG_USER"
definition USER_STACK_TOP :: u32 where "USER_STACK_TOP = 0xBFFFFFFB"
definition USER_ENTRY_POINT :: u32 where "USER_ENTRY_POINT = 0x00000000"

abbreviation (input) USER_CODE_MAX_PAGES :: "'a::numeral" where "USER_CODE_MAX_PAGES \<equiv> 16"

lemma page_flags: "PAGING_KERNEL_PAGE = 3" "PAGING_USER_PAGE = 7"
  by (simp_all add: PAGING_KERNEL_PAGE_def PAGING_USER_PAGE_def PAGING_FLAG_PRESENT_def
      PAGING_FLAG_WRITE_def PAGING_FLAG_USER_def)

record paging_addrs =
  a_boot_page_table1 :: u32
  a_user_page_directory :: u32
  a_user_code_page_table :: u32
  a_user_stack_page_table :: u32
  a_user_code_pages :: u32
  a_user_stack_page :: u32

record paging_state =
  boot_page_directory :: "u32 list"
  user_page_directory :: "u32 list"
  user_code_page_table :: "u32 list"
  user_stack_page_table :: "u32 list"
  user_code_pages :: "nat \<Rightarrow> nat \<Rightarrow> byte"
  user_stack_page :: "nat \<Rightarrow> byte"

text \<open>The statically initialised table: page \<open>i\<close> maps to frame \<open>i\<close>, supervisor, read-write.\<close>

definition boot_page_table1 :: "u32 list" where
  "boot_page_table1 = map (\<lambda>i. word_of_nat i * 4096 OR 3) [0..<1024]"

definition paging_init :: "paging_addrs \<Rightarrow> paging_state \<Rightarrow> paging_state" where
  "paging_init a s =
     (let pt_phys = VIRTUAL_TO_PHYSICAL (a_boot_page_table1 a)
      in s\<lparr>boot_page_directory := (boot_page_directory s)[0 := pt_phys OR PAGING_KERNEL_PAGE,
             768 := pt_phys OR PAGING_KERNEL_PAGE]\<rparr>)"

text \<open>The first three loops of \<open>paging_setup_user_process\<close>: everything is cleared.\<close>

definition clear_tables :: "paging_state \<Rightarrow> paging_state" where
  "clear_tables s = fold (\<lambda>i s. s\<lparr>user_page_directory := (user_page_directory s)[i := 0],
       user_code_page_table := (user_code_page_table s)[i := 0],
       user_stack_page_table := (user_stack_page_table s)[i := 0]\<rparr>) [0..<1024] s"

definition clear_frames :: "paging_state \<Rightarrow> paging_state" where
  "clear_frames s =
     (let pages = fold (\<lambda>p f. f(p := fold (\<lambda>i g. g(i := 0)) [0..<4096] (f p)))
                    [0..<USER_CODE_MAX_PAGES] (user_code_pages s);
          stack = fold (\<lambda>i g. g(i := 0)) [0..<4096] (user_stack_page s)
      in s\<lparr>user_code_pages := pages, user_stack_page := stack\<rparr>)"

text \<open>One round of the loading loop: copy a page of the image and map its frame.\<close>

definition load_user_page :: "paging_addrs \<Rightarrow> memory \<Rightarrow> u32 \<Rightarrow> u32 \<Rightarrow> nat \<Rightarrow> paging_state \<Rightarrow> paging_state" where
  "load_user_page a mem module_start module_size p s =
     (let offset = word_of_nat p * 4096;
          pages = (if offset < module_size then
              (let to_copy = (if offset + 4096 > module_size then module_size - offset else 4096)
               in (user_code_pages s)(p := fold (\<lambda>i g. g(i := mem (module_start + (offset + word_of_nat i))))
                     [0..<unat to_copy] (user_code_pages s p)))
            else user_code_pages s)
      in s\<lparr>user_code_pages := pages,
           user_code_page_table := (user_code_page_table s)[p :=
             VIRTUAL_TO_PHYSICAL (a_user_code_pages a + word_of_nat p * 4096) OR PAGING_USER_PAGE]\<rparr>)"

definition paging_setup_user_process ::
  "paging_addrs \<Rightarrow> memory \<Rightarrow> u32 \<Rightarrow> u32 \<Rightarrow> paging_state \<times> trace \<Rightarrow> paging_state \<times> trace" where
  "paging_setup_user_process a mem module_start module_size = (\<lambda>(s, tr).
     let s = clear_tables s;
         s = clear_frames s;
         s = fold (load_user_page a mem module_start module_size) [0..<USER_CODE_MAX_PAGES] s;
         s = s\<lparr>user_page_directory := (user_page_directory s)[0 :=
               VIRTUAL_TO_PHYSICAL (a_user_code_page_table a) OR PAGING_USER_PAGE]\<rparr>;
         s = s\<lparr>user_stack_page_table := (user_stack_page_table s)[1023 :=
               VIRTUAL_TO_PHYSICAL (a_user_stack_page a) OR PAGING_USER_PAGE]\<rparr>;
         s = s\<lparr>user_page_directory := (user_page_directory s)[767 :=
               VIRTUAL_TO_PHYSICAL (a_user_stack_page_table a) OR PAGING_USER_PAGE]\<rparr>;
         s = s\<lparr>user_page_directory := (user_page_directory s)[768 := boot_page_directory s ! 768]\<rparr>
     in (s, Load_CR3 (VIRTUAL_TO_PHYSICAL (a_user_page_directory a)) # tr))"

section \<open>The processor's address translation\<close>

definition entry_frame :: "u32 \<Rightarrow> u32" where "entry_frame e = e AND 0xFFFFF000"
definition entry_grants :: "bool \<Rightarrow> u32 \<Rightarrow> bool" where
  "entry_grants user e \<longleftrightarrow> bit e 0 \<and> bit e 1 \<and> (user \<longrightarrow> bit e 2)"

text \<open>
  A read or write access to \<open>va\<close> at user or supervisor level: both entries must be
  present, writable and, for a user access, marked as user pages. \<open>tables\<close> gives the page
  table stored at a physical address.
\<close>

definition translate :: "(u32 \<Rightarrow> u32 list option) \<Rightarrow> u32 list \<Rightarrow> bool \<Rightarrow> u32 \<Rightarrow> u32 option" where
  "translate tables dir user va =
     (let pde = dir ! unat (drop_bit 22 va) in
      if \<not> entry_grants user pde then None
      else case tables (entry_frame pde) of
        None \<Rightarrow> None
      | Some pt \<Rightarrow>
          (let pte = pt ! unat (take_bit 10 (drop_bit 12 va)) in
           if entry_grants user pte then Some (entry_frame pte + take_bit 12 va) else None))"

definition tables_at :: "paging_addrs \<Rightarrow> paging_state \<Rightarrow> u32 \<Rightarrow> u32 list option" where
  "tables_at a s pa =
     (if pa = VIRTUAL_TO_PHYSICAL (a_user_code_page_table a) then Some (user_code_page_table s)
      else if pa = VIRTUAL_TO_PHYSICAL (a_user_stack_page_table a) then Some (user_stack_page_table s)
      else if pa = VIRTUAL_TO_PHYSICAL (a_boot_page_table1 a) then Some boot_page_table1
      else None)"

text \<open>
  What the linker and the alignment attributes guarantee: the tables and frames lie on
  4 KiB boundaries and the three page tables are different objects.
\<close>

definition aligned_page :: "u32 \<Rightarrow> bool" where "aligned_page x \<longleftrightarrow> take_bit 12 x = 0"

definition addrs_ok :: "paging_addrs \<Rightarrow> bool" where
  "addrs_ok a \<longleftrightarrow> aligned_page (a_boot_page_table1 a) \<and> aligned_page (a_user_code_page_table a) \<and>
     aligned_page (a_user_stack_page_table a) \<and> aligned_page (a_user_code_pages a) \<and> aligned_page (a_user_stack_page a) \<and>
     distinct [a_boot_page_table1 a, a_user_code_page_table a, a_user_stack_page_table a]"

definition paging_shape :: "paging_state \<Rightarrow> bool" where
  "paging_shape s \<longleftrightarrow> length (boot_page_directory s) = 1024 \<and> length (user_page_directory s) = 1024 \<and>
     length (user_code_page_table s) = 1024 \<and> length (user_stack_page_table s) = 1024"

section \<open>Closed forms\<close>

lemma zero_loop: "length xs = n \<Longrightarrow> fold (\<lambda>i xs. xs[i := 0 :: u32]) [0..<n] xs = replicate n 0"
proof -
  have "m \<le> length xs \<Longrightarrow> fold (\<lambda>i xs. xs[i := 0 :: u32]) [0..<m] xs = replicate m 0 @ drop m xs" for m
  proof (induction m)
    case (Suc m)
    then show ?case by (simp add: list_update_append Cons_nth_drop_Suc [symmetric] replicate_append_same)
  qed simp
  then show "length xs = n \<Longrightarrow> ?thesis" by simp
qed

lemma clear_tables_eq:
  assumes "paging_shape s"
  shows "clear_tables s = s\<lparr>user_page_directory := replicate 1024 0, user_code_page_table := replicate 1024 0,
    user_stack_page_table := replicate 1024 0\<rparr>"
proof -
  have "fold (\<lambda>i s. s\<lparr>user_page_directory := (user_page_directory s)[i := 0],
       user_code_page_table := (user_code_page_table s)[i := 0],
       user_stack_page_table := (user_stack_page_table s)[i := 0]\<rparr>) ns s =
     s\<lparr>user_page_directory := fold (\<lambda>i xs. xs[i := 0]) ns (user_page_directory s),
       user_code_page_table := fold (\<lambda>i xs. xs[i := 0]) ns (user_code_page_table s),
       user_stack_page_table := fold (\<lambda>i xs. xs[i := 0]) ns (user_stack_page_table s)\<rparr>" for ns and s :: paging_state
    by (induction ns arbitrary: s) simp_all
  with assms show ?thesis by (simp add: clear_tables_def paging_shape_def zero_loop)
qed

lemma assign_loop: "fold (\<lambda>i g. g(i := f i)) [0..<n] g = (\<lambda>i. if i < n then f i else g i)"
  by (induction n) (auto simp: fun_eq_iff)

lemma clear_frames_eq:
  "clear_frames s = s\<lparr>user_code_pages := (\<lambda>p i. if p < 16 \<and> i < 4096 then 0 else user_code_pages s p i),
     user_stack_page := (\<lambda>i. if i < 4096 then 0 else user_stack_page s i)\<rparr>"
proof -
  have loop: "fold (\<lambda>p f. f(p := g (f p))) [0..<n] f = (\<lambda>p. if p < n then g (f p) else f p)"
    for n and g :: "(nat \<Rightarrow> byte) \<Rightarrow> (nat \<Rightarrow> byte)" and f :: "nat \<Rightarrow> nat \<Rightarrow> byte"
    by (induction n) (auto intro!: ext simp: less_Suc_eq)
  have "fold (\<lambda>p f. f(p := \<lambda>i. if i < 4096 then 0 else f p i)) [0..<16] (user_code_pages s) =
      (\<lambda>p i. if p < 16 \<and> i < 4096 then 0 else user_code_pages s p i)"
    using loop [of "\<lambda>h i. if i < 4096 then 0 else h i" 16 "user_code_pages s"] by (auto simp: fun_eq_iff)
  then show ?thesis by (simp add: clear_frames_def Let_def assign_loop)
qed

lemma page_offset: "p < 16 \<Longrightarrow> unat (word_of_nat p * 4096 :: u32) = p * 4096"
  by (subst unat_mult_u32) (simp_all add: unat_of_nat_u32)

text \<open>The bytes a round puts into its page: the image from the page's offset on, as far as it goes.\<close>

lemma load_user_page_eq:
  assumes "p < 16"
  shows "load_user_page a mem ms sz p s = s\<lparr>
    user_code_pages := (user_code_pages s)(p := (\<lambda>i. if i < 4096 \<and> p * 4096 + i < unat sz
        then mem (ms + word_of_nat (p * 4096 + i)) else user_code_pages s p i)),
    user_code_page_table := (user_code_page_table s)[p :=
        VIRTUAL_TO_PHYSICAL (a_user_code_pages a + word_of_nat p * 4096) OR PAGING_USER_PAGE]\<rparr>"
proof -
  let ?o = "word_of_nat p * 4096 :: u32"
  have o: "unat ?o = p * 4096" using assms by (rule page_offset)
  have "unat (?o + 4096) = p * 4096 + 4096" using assms o by (subst unat_add_u32) simp_all
  then have gt: "?o + 4096 > sz \<longleftrightarrow> unat sz < p * 4096 + 4096" by (simp add: u32_nat)
  have lt: "?o < sz \<longleftrightarrow> p * 4096 < unat sz" using o by (simp add: u32_nat)
  have sub: "p * 4096 < unat sz \<Longrightarrow> unat (sz - ?o) = unat sz - p * 4096"
    using o by (subst unat_sub) (simp_all add: u32_nat)
  have n: "p * 4096 < unat sz \<Longrightarrow> i < unat (if ?o + 4096 > sz then sz - ?o else 4096) \<longleftrightarrow>
      i < 4096 \<and> p * 4096 + i < unat sz" for i
    using sub by (auto simp: gt)
  have idx: "?o + word_of_nat i = word_of_nat (p * 4096 + i)" for i by simp
  show ?thesis
    unfolding load_user_page_def Let_def lt idx assign_loop
    by (cases "p * 4096 < unat sz") (simp_all add: n [unfolded idx] fun_eq_iff)
qed

text \<open>The state of the loading loop after \<open>n\<close> pages.\<close>

lemma load_loop_eq:
  assumes "length (user_code_page_table s) = 1024"
  shows "n \<le> 16 \<Longrightarrow> fold (load_user_page a mem ms sz) [0..<n] s = s\<lparr>
    user_code_pages := (\<lambda>p i. if p < n \<and> i < 4096 \<and> p * 4096 + i < unat sz
        then mem (ms + word_of_nat (p * 4096 + i)) else user_code_pages s p i),
    user_code_page_table := map (\<lambda>p. if p < n
        then VIRTUAL_TO_PHYSICAL (a_user_code_pages a + word_of_nat p * 4096) OR PAGING_USER_PAGE
        else user_code_page_table s ! p) [0..<1024]\<rparr>"
proof (induction n)
  case 0
  have "map ((!) (user_code_page_table s)) [0..<1024] = user_code_page_table s"
    using map_nth [of "user_code_page_table s"] assms by simp
  then show ?case by simp
next
  case (Suc n)
  have upd: "(map f [0..<1024])[n := y] = map (\<lambda>p. if p = n then y else f p) [0..<1024]" for f :: "nat \<Rightarrow> u32" and y
    using Suc.prems by (intro nth_equalityI) (auto simp: nth_list_update)
  show ?case
    using Suc by (simp add: load_user_page_eq upd) (auto simp: less_Suc_eq fun_eq_iff)
qed

text \<open>The tables and frames after \<open>paging_setup_user_process\<close>.\<close>

lemma setup_tables:
  assumes "paging_shape s" and "paging_setup_user_process a mem ms sz (s, tr) = (s', tr')"
  shows "user_page_directory s' = (replicate 1024 0)
      [0 := VIRTUAL_TO_PHYSICAL (a_user_code_page_table a) OR PAGING_USER_PAGE,
       767 := VIRTUAL_TO_PHYSICAL (a_user_stack_page_table a) OR PAGING_USER_PAGE,
       768 := boot_page_directory s ! 768]"
    "user_code_page_table s' = map (\<lambda>p. if p < 16
        then VIRTUAL_TO_PHYSICAL (a_user_code_pages a + word_of_nat p * 4096) OR PAGING_USER_PAGE else 0) [0..<1024]"
    "user_stack_page_table s' = (replicate 1024 0)[1023 := VIRTUAL_TO_PHYSICAL (a_user_stack_page a) OR PAGING_USER_PAGE]"
    "p < 16 \<Longrightarrow> i < 4096 \<Longrightarrow> user_code_pages s' p i =
       (if p * 4096 + i < unat sz then mem (ms + word_of_nat (p * 4096 + i)) else 0)"
    "i < 4096 \<Longrightarrow> user_stack_page s' i = 0"
    "boot_page_directory s' = boot_page_directory s"
    "tr' = Load_CR3 (VIRTUAL_TO_PHYSICAL (a_user_page_directory a)) # tr"
  using assms(2)
  by (auto simp: paging_setup_user_process_def Let_def clear_tables_eq [OF assms(1)] clear_frames_eq load_loop_eq)

section \<open>Entries and indices\<close>

lemma aligned_bits: "aligned_page x \<Longrightarrow> n < 12 \<Longrightarrow> \<not> bit x n"
  unfolding aligned_page_def by (metis bit_0_eq bit_take_bit_iff bot_apply bot_bool_def)

lemma aligned_frame_number: "aligned_page (x * 4096)"
proof -
  have "x * 4096 = push_bit 12 x" by (simp add: push_bit_eq_mult)
  then show ?thesis by (simp add: aligned_page_def take_bit_push_bit)
qed

lemma aligned_iff: "aligned_page x \<longleftrightarrow> (\<exists>k. x = k * 4096)"
proof
  assume "aligned_page x"
  then have "push_bit 12 (drop_bit 12 x) = x" using bits_ident [of 12 x] by (simp add: aligned_page_def)
  then have "x = drop_bit 12 x * 4096" by (simp add: push_bit_eq_mult)
  then show "\<exists>k. x = k * 4096" ..
qed (auto simp: aligned_frame_number)

lemma aligned_diff: "aligned_page x \<Longrightarrow> aligned_page (VIRTUAL_TO_PHYSICAL x)"
proof -
  assume "aligned_page x"
  then obtain k where "x = k * 4096" by (auto simp: aligned_iff)
  then have "VIRTUAL_TO_PHYSICAL x = (k - 0xC0000) * 4096"
    by (simp add: VIRTUAL_TO_PHYSICAL_def KERNEL_VIRTUAL_BASE_def left_diff_distrib)
  then show ?thesis by (simp only: aligned_frame_number)
qed

lemma aligned_sum: "aligned_page x \<Longrightarrow> aligned_page (x + y * 4096)"
proof -
  assume "aligned_page x"
  then obtain k where "x + y * 4096 = (k + y) * 4096" by (auto simp: aligned_iff distrib_right)
  then show ?thesis by (simp only: aligned_frame_number)
qed

lemma entry_fields:
  assumes "aligned_page x"
  shows "entry_frame (x OR 7) = x" "entry_frame (x OR 3) = x" "entry_grants user (x OR 7)"
    "entry_grants user (x OR 3) \<longleftrightarrow> \<not> user"
proof -
  note b = aligned_bits [OF assms]
  have f: "(0xFFFFF000 :: u32) = NOT (mask 12)" by (simp add: mask_eq_exp_minus_1)
  have "x AND NOT (mask 12) = x"
    using b by (intro bit_word_eqI) (auto simp: bit_simps not_less [symmetric])
  then have "x AND 0xFFFFF000 = x" by (simp only: f)
  then show "entry_frame (x OR 7) = x" "entry_frame (x OR 3) = x"
    by (simp_all add: entry_frame_def bit.conj_disj_distrib2)
  show "entry_grants user (x OR 7)" "entry_grants user (x OR 3) \<longleftrightarrow> \<not> user"
    using b [of 2] by (simp_all add: entry_grants_def bit_or_iff bit_numeral_rec)
qed

lemma not_present [simp]: "\<not> entry_grants user 0"
  by (simp add: entry_grants_def)

text \<open>Directory and table index of an address in terms of its page number.\<close>

lemma pd_index: "unat (drop_bit 22 va) = unat (va :: u32) div 4096 div 1024"
  by (simp add: drop_bit_eq_div unat_div div_mult2_eq [symmetric])

lemma pt_index: "unat (take_bit 10 (drop_bit 12 va)) = unat (va :: u32) div 4096 mod 1024"
  by (simp add: drop_bit_eq_div take_bit_eq_mod unat_mod unat_div)

lemma page_decomp: "word_of_nat (unat va div 4096) * 4096 + take_bit 12 va = (va :: u32)"
proof -
  have "unat va div 4096 = unat (va div 4096)" by (simp add: unat_div)
  then have "word_of_nat (unat va div 4096) = drop_bit 12 va" by (simp add: drop_bit_eq_div)
  then show ?thesis using bits_ident [of 12 va] by (simp add: push_bit_eq_mult)
qed

lemma page_number_bound: "unat (va :: u32) div 4096 < 1048576"
  using unat_lt_2p32 [of va] by (simp add: less_mult_imp_div_less)

section \<open>The user address space\<close>

text \<open>An address space after the process was set up, with the kernel's directory entry in place.\<close>

definition user_setup :: "paging_addrs \<Rightarrow> paging_state \<Rightarrow> paging_state \<Rightarrow> bool" where
  "user_setup a s s' \<longleftrightarrow> addrs_ok a \<and> paging_shape s \<and>
     boot_page_directory s ! 768 = VIRTUAL_TO_PHYSICAL (a_boot_page_table1 a) OR PAGING_KERNEL_PAGE \<and>
     (\<exists>mem ms sz tr tr'. paging_setup_user_process a mem ms sz (s, tr) = (s', tr'))"

lemma V2P_inj: "VIRTUAL_TO_PHYSICAL x = VIRTUAL_TO_PHYSICAL y \<longleftrightarrow> x = y"
  by (simp add: VIRTUAL_TO_PHYSICAL_def)

lemma user_directory:
  assumes "user_setup a s s'"
  shows "i < 1024 \<Longrightarrow> user_page_directory s' ! i =
    (if i = 0 then VIRTUAL_TO_PHYSICAL (a_user_code_page_table a) OR 7
     else if i = 767 then VIRTUAL_TO_PHYSICAL (a_user_stack_page_table a) OR 7
     else if i = 768 then VIRTUAL_TO_PHYSICAL (a_boot_page_table1 a) OR 3 else 0)"
  using assms by (auto simp: user_setup_def setup_tables(1) page_flags nth_list_update)

lemma user_tables:
  assumes "user_setup a s s'"
  shows "tables_at a s' (VIRTUAL_TO_PHYSICAL (a_user_code_page_table a)) = Some (map (\<lambda>p. if p < 16
        then VIRTUAL_TO_PHYSICAL (a_user_code_pages a + word_of_nat p * 4096) OR 7 else 0) [0..<1024])"
    "tables_at a s' (VIRTUAL_TO_PHYSICAL (a_user_stack_page_table a)) =
       Some ((replicate 1024 0)[1023 := VIRTUAL_TO_PHYSICAL (a_user_stack_page a) OR 7])"
    "tables_at a s' (VIRTUAL_TO_PHYSICAL (a_boot_page_table1 a)) = Some boot_page_table1"
  using assms by (auto simp: user_setup_def addrs_ok_def tables_at_def V2P_inj setup_tables(2,3) page_flags)

text \<open>The translation of a page \<open>q = i * 1024 + j\<close> through the user directory.\<close>

lemma user_translate:
  assumes u: "user_setup a s s'" and q: "unat va div 4096 = q"
  shows "translate (tables_at a s') (user_page_directory s') user va =
    (if q < 16 then Some (VIRTUAL_TO_PHYSICAL (a_user_code_pages a) + va)
     else if q = 0xBFFFF then Some (VIRTUAL_TO_PHYSICAL (a_user_stack_page a) + take_bit 12 va)
     else if \<not> user \<and> q div 1024 = 768 then Some (va - KERNEL_VIRTUAL_BASE) else None)"
proof -
  let ?dir = "user_page_directory s'"
  have ok: "addrs_ok a" using u by (simp add: user_setup_def)
  note al = ok [unfolded addrs_ok_def]
  have lt: "q div 1024 < 1024" "q mod 1024 < 1024" using page_number_bound [of va] q by auto
  have idx: "unat (drop_bit 22 va) = q div 1024" "unat (take_bit 10 (drop_bit 12 va)) = q mod 1024"
    using q by (simp_all add: pd_index pt_index)
  note fr = entry_fields [OF aligned_diff]
  consider "q div 1024 = 0" | "q div 1024 = 767" | "q div 1024 = 768" | "q div 1024 \<noteq> 0" "q div 1024 \<noteq> 767" "q div 1024 \<noteq> 768"
    by blast
  then show ?thesis
  proof cases
    case 1
    then have m: "q mod 1024 = q" "q < 1024" by (simp_all add: div_eq_0_iff)
    have "aligned_page (a_user_code_pages a + word_of_nat q * 4096)" using al by (intro aligned_sum) simp
    note fq = entry_fields [OF aligned_diff [OF this]]
    have pa: "VIRTUAL_TO_PHYSICAL (a_user_code_pages a + word_of_nat q * 4096) + take_bit 12 va =
        VIRTUAL_TO_PHYSICAL (a_user_code_pages a) + va"
      using arg_cong [OF page_decomp [of va, unfolded q], of "\<lambda>x. VIRTUAL_TO_PHYSICAL (a_user_code_pages a) + x"]
      by (simp add: VIRTUAL_TO_PHYSICAL_def diff_add_eq add.assoc)
    from fq m al 1 lt show ?thesis
      unfolding translate_def idx user_directory [OF u lt(1)] Let_def
      by (simp add: fr user_tables [OF u] pa)
  next
    case 2
    then have "q = 767 * 1024 + q mod 1024" using div_mult_mod_eq [of q 1024] by simp
    then have m: "q mod 1024 = 1023 \<longleftrightarrow> q = 0xBFFFF" "\<not> q < 16" using lt by linarith+
    from al 2 lt m show ?thesis
      unfolding translate_def idx user_directory [OF u lt(1)] Let_def
      by (simp add: fr user_tables [OF u] nth_list_update)
  next
    case 3
    then have d: "q = 768 * 1024 + q mod 1024" using div_mult_mod_eq [of q 1024] by simp
    then have m: "\<not> q < 16" "q \<noteq> 0xBFFFF" using lt by linarith+
    have "(word_of_nat q * 4096 :: u32) = word_of_nat (768 * 1024 + q mod 1024) * 4096" using d by simp
    then have "word_of_nat (q mod 1024) * 4096 + take_bit 12 va = va - KERNEL_VIRTUAL_BASE"
      using page_decomp [of va, unfolded q] by (simp add: KERNEL_VIRTUAL_BASE_def algebra_simps)
    with al 3 lt m show ?thesis
      unfolding translate_def idx user_directory [OF u lt(1)] Let_def
      by (simp add: fr user_tables [OF u] boot_page_table1_def entry_fields [OF aligned_frame_number])
  next
    case 4
    then have "\<not> q < 16" "q \<noteq> 0xBFFFF" by auto
    with 4 show ?thesis
      unfolding translate_def idx user_directory [OF u lt(1)] Let_def by simp
  qed
qed

lemma paging_init_shape: "paging_shape s \<Longrightarrow> paging_shape (paging_init a s)"
  by (simp add: paging_shape_def paging_init_def Let_def)

lemma user_setupI:
  assumes "addrs_ok a" "paging_shape s" "paging_setup_user_process a mem ms sz (paging_init a s, tr) = (s', tr')"
  shows "user_setup a (paging_init a s) s'"
  unfolding user_setup_def
proof (intro conjI exI)
  show "boot_page_directory (paging_init a s) ! 768 = VIRTUAL_TO_PHYSICAL (a_boot_page_table1 a) OR PAGING_KERNEL_PAGE"
    using assms(2) by (simp add: paging_init_def Let_def paging_shape_def)
qed (use assms paging_init_shape in blast)+

lemma user_page_ranges:
  "unat (va :: u32) div 4096 < 16 \<longleftrightarrow> va < 0x10000"
  "unat va div 4096 = 0xBFFFF \<longleftrightarrow> 0xBFFFF000 \<le> va \<and> va < 0xC0000000"
  "unat va div 4096 div 1024 = 768 \<longleftrightarrow> 0xC0000000 \<le> va \<and> va < 0xC0400000"
proof -
  show "unat va div 4096 < 16 \<longleftrightarrow> va < 0x10000" by (simp add: u32_nat div_less_iff_less_mult)
  show "unat va div 4096 = 0xBFFFF \<longleftrightarrow> 0xBFFFF000 \<le> va \<and> va < 0xC0000000"
    by (simp add: u32_nat nat_div_eq_iff)
  show "unat va div 4096 div 1024 = 768 \<longleftrightarrow> 0xC0000000 \<le> va \<and> va < 0xC0400000"
    by (simp add: u32_nat div_mult2_eq [symmetric] nat_div_eq_iff)
qed

lemma user_access:
  assumes "addrs_ok a" and "paging_shape s"
    and "paging_setup_user_process a mem ms sz (paging_init a s, tr) = (s', tr')"
  shows "translate (tables_at a s') (user_page_directory s') True va =
    (if va < 0x10000 then Some (VIRTUAL_TO_PHYSICAL (a_user_code_pages a) + va)
     else if 0xBFFFF000 \<le> va \<and> va < 0xC0000000
       then Some (VIRTUAL_TO_PHYSICAL (a_user_stack_page a) + take_bit 12 va)
     else None)"
  using user_translate [OF user_setupI [OF assms] refl, of True va] by (simp only: user_page_ranges simp_thms if_False)

text \<open>
  C7: Isolation of the kernel from the user process. In the address space that
  \<open>paging_setup_user_process\<close> builds, code at user privilege can reach exactly the 64 KiB of
  its image at address 0 and the one stack page below 0xC0000000: these addresses translate
  to the process's own frames, and every other address, in particular the kernel's upper
  gigabyte, faults.
\<close>

theorem user_access_confined:
  assumes "addrs_ok a" and "paging_shape s"
    and "paging_setup_user_process a mem ms sz (paging_init a s, tr) = (s', tr')"
  shows "translate (tables_at a s') (user_page_directory s') True va =
    (if va < 0x10000 then Some (VIRTUAL_TO_PHYSICAL (a_user_code_pages a) + va)
     else if 0xBFFFF000 \<le> va \<and> va < 0xC0000000
       then Some (VIRTUAL_TO_PHYSICAL (a_user_stack_page a) + take_bit 12 va)
     else None)"
  by (rule user_access [OF assms])

text \<open>
  The kernel stays mapped across the switch of address spaces: with supervisor
  privilege every address of the first 4 MiB above 0xC0000000 translates to the physical
  address 0xC0000000 below, and the processor is given the physical address of the new
  directory.
\<close>

lemma kernel_mapping_kept:
  assumes "addrs_ok a" and "paging_shape s"
    and "paging_setup_user_process a mem ms sz (paging_init a s, tr) = (s', tr')"
    and "0xC0000000 \<le> va" and "va < 0xC0400000"
  shows "translate (tables_at a s') (user_page_directory s') False va = Some (va - 0xC0000000) \<and>
    translate (tables_at a s) (boot_page_directory (paging_init a s)) False va = Some (va - 0xC0000000) \<and>
    tr' = Load_CR3 (VIRTUAL_TO_PHYSICAL (a_user_page_directory a)) # tr"
proof -
  have q: "unat va div 4096 div 1024 = 768" using assms(4,5) by (simp add: user_page_ranges)
  then have "\<not> unat va div 4096 < 16" "unat va div 4096 \<noteq> 0xBFFFF" by auto
  with q have u: "translate (tables_at a s') (user_page_directory s') False va = Some (va - 0xC0000000)"
    using user_translate [OF user_setupI [OF assms(1-3)] refl, of False va] by (simp add: KERNEL_VIRTUAL_BASE_def)
  have e: "user_page_directory s' ! 768 = boot_page_directory (paging_init a s) ! 768"
    by (simp add: setup_tables(1) [OF paging_init_shape [OF assms(2)] assms(3)])
  have "entry_frame (boot_page_directory (paging_init a s) ! 768) = VIRTUAL_TO_PHYSICAL (a_boot_page_table1 a)"
    using assms(1,2) entry_fields(2) [OF aligned_diff]
    by (simp add: paging_init_def Let_def page_flags paging_shape_def addrs_ok_def nth_list_update)
  then have t: "tables_at a s' (entry_frame (boot_page_directory (paging_init a s) ! 768)) =
      tables_at a s (entry_frame (boot_page_directory (paging_init a s) ! 768))"
    using assms(1) by (auto simp: tables_at_def addrs_ok_def V2P_inj)
  have "translate (tables_at a s) (boot_page_directory (paging_init a s)) False va =
      translate (tables_at a s') (user_page_directory s') False va"
    by (simp add: translate_def pd_index q e t Let_def)
  with u setup_tables(7) [OF paging_init_shape [OF assms(2)] assms(3)] show ?thesis by simp
qed

text \<open>
  C27: The process image: after \<open>paging_setup_user_process\<close> the byte at user address \<open>x\<close> is
  byte \<open>x\<close> of the module, zero from the end of the module on (so the program's .bss is
  cleared), whatever the frames held before; what lies beyond the first 64 KiB of the
  module is not loaded. The stack page is zero, the entry point and the first word pushed
  below the stack top are mapped.
\<close>

theorem user_image_loaded:
  assumes "addrs_ok a" and "paging_shape s"
    and "paging_setup_user_process a mem ms sz (paging_init a s, tr) = (s', tr')" and "x < 65536"
  shows "user_code_pages s' (x div 4096) (x mod 4096) =
      (if x < unat sz then mem (ms + word_of_nat x) else 0) \<and>
    (\<forall>i < 4096. user_stack_page s' i = 0) \<and>
    translate (tables_at a s') (user_page_directory s') True USER_ENTRY_POINT =
      Some (VIRTUAL_TO_PHYSICAL (a_user_code_pages a)) \<and>
    translate (tables_at a s') (user_page_directory s') True (USER_STACK_TOP - 4) =
      Some (VIRTUAL_TO_PHYSICAL (a_user_stack_page a) + 0xFF7)"
proof -
  note st = setup_tables [OF paging_init_shape [OF assms(2)] assms(3)]
  have "x div 4096 < 16" using assms(4) by (simp add: div_less_iff_less_mult)
  with st(4) [of "x div 4096" "x mod 4096"]
  have "user_code_pages s' (x div 4096) (x mod 4096) = (if x < unat sz then mem (ms + word_of_nat x) else 0)" by simp
  moreover have "unat USER_ENTRY_POINT div 4096 = 0" "unat (USER_STACK_TOP - 4) div 4096 = 0xBFFFF"
    "take_bit 12 (USER_STACK_TOP - 4) = 0xFF7"
    by (simp_all add: USER_ENTRY_POINT_def USER_STACK_TOP_def)
  ultimately show ?thesis
    using st(5) user_translate [OF user_setupI [OF assms(1-3)] refl, of True]
    by (simp add: USER_ENTRY_POINT_def)
qed

section \<open>A concrete layout\<close>

definition sample_addrs :: paging_addrs where
  "sample_addrs = \<lparr>a_boot_page_table1 = 0xC0107000, a_user_page_directory = 0xC0109000,
     a_user_code_page_table = 0xC010A000, a_user_stack_page_table = 0xC010B000,
     a_user_code_pages = 0xC010C000, a_user_stack_page = 0xC011C000\<rparr>"

definition paging_bss :: paging_state where
  "paging_bss = \<lparr>boot_page_directory = replicate 1024 0, user_page_directory = replicate 1024 0,
     user_code_page_table = replicate 1024 0, user_stack_page_table = replicate 1024 0,
     user_code_pages = (\<lambda>_ _. 0), user_stack_page = (\<lambda>_. 0)\<rparr>"

lemma sample_ok: "addrs_ok sample_addrs" "paging_shape paging_bss"
  by (simp_all add: addrs_ok_def sample_addrs_def aligned_page_def paging_shape_def paging_bss_def)

lemma sample_setup:
  obtains s' tr' where "paging_setup_user_process sample_addrs (\<lambda>x. ucast x) 0x200000 5000 (paging_init sample_addrs paging_bss, []) = (s', tr')"
  by fastforce

theorem user_access_confined_witness:
  "\<exists>s' tr'. paging_setup_user_process sample_addrs (\<lambda>x. ucast x) 0x200000 5000 (paging_init sample_addrs paging_bss, []) = (s', tr') \<and>
     translate (tables_at sample_addrs s') (user_page_directory s') True 0x1234 = Some 0x10D234 \<and>
     translate (tables_at sample_addrs s') (user_page_directory s') True 0xC0100000 = None"
proof -
  obtain s' tr' where r: "paging_setup_user_process sample_addrs (\<lambda>x. ucast x) 0x200000 5000 (paging_init sample_addrs paging_bss, []) = (s', tr')"
    by (rule sample_setup)
  from user_access_confined [OF sample_ok r] r show ?thesis
    by (auto simp: sample_addrs_def VIRTUAL_TO_PHYSICAL_def KERNEL_VIRTUAL_BASE_def)
qed

lemma kernel_mapping_kept_witness:
  "\<exists>s' tr'. paging_setup_user_process sample_addrs (\<lambda>x. ucast x) 0x200000 5000 (paging_init sample_addrs paging_bss, []) = (s', tr') \<and>
     translate (tables_at sample_addrs s') (user_page_directory s') False 0xC0100000 = Some 0x100000"
proof -
  obtain s' tr' where r: "paging_setup_user_process sample_addrs (\<lambda>x. ucast x) 0x200000 5000 (paging_init sample_addrs paging_bss, []) = (s', tr')"
    by (rule sample_setup)
  from kernel_mapping_kept [OF sample_ok r, of "0xC0100000"] r show ?thesis by auto
qed

theorem user_image_loaded_witness:
  "\<exists>s' tr'. paging_setup_user_process sample_addrs (\<lambda>x. ucast x) 0x200000 5000 (paging_init sample_addrs paging_bss, []) = (s', tr') \<and>
     user_code_pages s' 1 3 = 3 \<and> user_code_pages s' 1 1000 = 0"
proof -
  obtain s' tr' where r: "paging_setup_user_process sample_addrs (\<lambda>x. ucast x) 0x200000 5000 (paging_init sample_addrs paging_bss, []) = (s', tr')"
    by (rule sample_setup)
  from user_image_loaded [OF sample_ok r, of 4099] user_image_loaded [OF sample_ok r, of 5096] r show ?thesis
    by auto
qed

end
