(* ===== verification/Kmain.thy ===== *)
theory Kmain
  imports Kconsole Gdt Paging
begin

text \<open>
  \<open>kernel/kmain.c\<close>: the boot sequence, from the cleared screen to the drop into ring 3, over
  the state of the whole machine. What the linker and the assembly files fix (addresses of
  static objects, entry points) is the record \<open>layout\<close>. Every call is a step that may fail to
  return; from \<open>sti\<close> on, at most one interrupt is taken before each step (\<open>irq_point\<close> does nothing
  while interrupts are disabled), and none within a call. The heap's pool and the memory the boot loader filled are
  separate memories of the model.
\<close>

record layout =
  l_gdt :: u32
  l_tss :: u32
  l_idt :: u32
  l_isr_stubs :: "u32 list"
  l_int128 :: u32
  l_paging :: paging_addrs
  l_heap :: u32
  l_kernel_stack :: u32
  l_phys_start :: u32
  l_phys_end :: u32
  l_virt_start :: u32
  l_virt_end :: u32

record machine =
  m_k :: kernel
  m_gdt :: gdt_state
  m_idt :: idt_state
  m_paging :: paging_state
  m_heap :: kheap_state

type_synonym step = "machine \<Rightarrow> machine option"

primrec run_steps :: "step list \<Rightarrow> step" where
  "run_steps [] m = Some m"
| "run_steps (f # fs) m = Option.bind (f m) (run_steps fs)"

section \<open>The calls of kmain\<close>

definition with_k :: "hardware \<Rightarrow> (kernel \<Rightarrow> kernel option) \<Rightarrow> step" where
  "with_k hw f m = Option.bind (irq_point hw (m_k m)) (\<lambda>k. map_option (\<lambda>k. m\<lparr>m_k := k\<rparr>) (f k))"

definition on_k :: "hardware \<Rightarrow> (kernel \<Rightarrow> kernel) \<Rightarrow> step" where
  "on_k hw f = with_k hw (\<lambda>k. Some (f k))"

definition kprint :: "hardware \<Rightarrow> byte list \<Rightarrow> step" where
  "kprint hw str = on_k hw (print (str @ [0]))"

definition kcolor :: "hardware \<Rightarrow> byte \<Rightarrow> step" where
  "kcolor hw fg = on_k hw (k_set_color fg FB_BLACK)"

definition kserial :: "hardware \<Rightarrow> byte list \<Rightarrow> step" where
  "kserial hw str = with_k hw (k_serial_write hw (take (unat (kstrlen (str @ [0]) 0)) str))"

definition kserial_char :: "hardware \<Rightarrow> byte \<Rightarrow> step" where
  "kserial_char hw c = with_k hw (\<lambda>k.
     Option.bind (serial_write_char hw SERIAL_COM1_BASE c (k_tr k)) (\<lambda>(_, tr). Some (k\<lparr>k_tr := tr\<rparr>)))"

definition k_serial_init :: "hardware \<Rightarrow> step" where
  "k_serial_init hw = on_k hw (\<lambda>k. let (tbl, tr) = serial_init (k_tbl k, k_tr k) in k\<lparr>k_tbl := tbl, k_tr := tr\<rparr>)"

definition k_gdt_init :: "layout \<Rightarrow> hardware \<Rightarrow> step" where
  "k_gdt_init L hw m = Option.bind (irq_point hw (m_k m)) (\<lambda>k.
     let (g, tr) = gdt_init (l_gdt L) (l_tss L) (m_gdt m, k_tr k) in Some (m\<lparr>m_gdt := g, m_k := k\<lparr>k_tr := tr\<rparr>\<rparr>))"

definition k_idt_init :: "layout \<Rightarrow> hardware \<Rightarrow> step" where
  "k_idt_init L hw m = Option.bind (irq_point hw (m_k m)) (\<lambda>k.
     let (s, tr) = idt_init (l_idt L) (l_isr_stubs L) (m_idt m, k_tr k) in Some (m\<lparr>m_idt := s, m_k := k\<lparr>k_tr := tr\<rparr>\<rparr>))"

definition k_syscall_init :: "layout \<Rightarrow> hardware \<Rightarrow> step" where
  "k_syscall_init L hw m = Option.bind (irq_point hw (m_k m)) (\<lambda>k.
     Some (m\<lparr>m_idt := syscall_init (l_int128 L) (m_idt m), m_k := k\<rparr>))"

definition k_pic_remap :: "hardware \<Rightarrow> step" where
  "k_pic_remap hw = on_k hw (\<lambda>k. k\<lparr>k_tr := pic_remap (k_tr k)\<rparr>)"

definition k_keyboard_init :: "hardware \<Rightarrow> step" where
  "k_keyboard_init hw = with_k hw (\<lambda>k.
     map_option (\<lambda>(s, tbl, tr). k\<lparr>k_kbd := s, k_tbl := tbl, k_tr := tr\<rparr>) (keyboard_init hw (k_kbd k, k_tbl k, k_tr k)))"

definition k_paging_init :: "layout \<Rightarrow> hardware \<Rightarrow> step" where
  "k_paging_init L hw m = Option.bind (irq_point hw (m_k m)) (\<lambda>k.
     Some (m\<lparr>m_paging := paging_init (l_paging L) (m_paging m), m_k := k\<rparr>))"

definition k_kheap_init :: "layout \<Rightarrow> hardware \<Rightarrow> step" where
  "k_kheap_init L hw m = Option.bind (irq_point hw (m_k m)) (\<lambda>k.
     Some (m\<lparr>m_heap := kheap_init (l_heap L) (m_heap m), m_k := k\<rparr>))"

definition k_enable_interrupts :: "hardware \<Rightarrow> step" where
  "k_enable_interrupts hw = on_k hw (\<lambda>k. k\<lparr>k_tr := enable_interrupts (k_tr k)\<rparr>)"

definition k_heap_stats :: "hardware \<Rightarrow> step" where
  "k_heap_stats hw m = with_k hw (kheap_print_stats hw (m_heap m)) m"

definition k_setup_user :: "layout \<Rightarrow> hardware \<Rightarrow> u32 \<Rightarrow> u32 \<Rightarrow> step" where
  "k_setup_user L hw mod_start mod_size m = Option.bind (irq_point hw (m_k m)) (\<lambda>k.
     let (s, tr) = paging_setup_user_process (l_paging L) (k_mem k) mod_start mod_size (m_paging m, k_tr k)
     in Some (m\<lparr>m_paging := s, m_k := k\<lparr>k_tr := tr\<rparr>\<rparr>))"

definition k_tss_stack :: "layout \<Rightarrow> hardware \<Rightarrow> step" where
  "k_tss_stack L hw m = Option.bind (irq_point hw (m_k m)) (\<lambda>k.
     Some (m\<lparr>m_gdt := tss_set_kernel_stack (l_kernel_stack L + 4096) (m_gdt m), m_k := k\<rparr>))"

section \<open>The boot sequence\<close>

definition kmain_console :: "hardware \<Rightarrow> step list" where
  "kmain_console hw =
     [on_k hw (with_fb fb_clear),
      kcolor hw FB_LIGHT_CYAN,
      kprint hw (str_bytes ''================================================================='' @ [10]),
      kprint hw (str_bytes ''                 Welcome to Little Kernel v0.1.0                 '' @ [10]),
      kprint hw (str_bytes ''                 Developed by AmiyaSokiya (amiyasociu@gmail.com)  '' @ [10]),
      kprint hw (str_bytes ''================================================================='' @ [10, 10]),
      kcolor hw FB_LIGHT_GREEN,
      kprint hw (str_bytes ''[ OK ] Framebuffer driver initialized successfully.'' @ [10]),
      kprint hw (str_bytes ''[ OK ] Cursor auto-advance enabled.'' @ [10]),
      kprint hw (str_bytes ''[ OK ] Hardware cursor synchronization active.'' @ [10, 10])]"

definition kmain_devices :: "layout \<Rightarrow> hardware \<Rightarrow> step list" where
  "kmain_devices L hw =
     [kcolor hw FB_LIGHT_MAGENTA,
      k_serial_init hw,
      kserial_char hw 65,
      kserial_char hw 69,
      kserial hw (str_bytes '' [Serial COM1] LittleOS Serial Driver initialized successfully!'' @ [13, 10]),
      kprint hw (str_bytes ''[ OK ] Serial driver initialized with IRQ 4 successfully!'' @ [10]),
      k_gdt_init L hw,
      kprint hw (str_bytes ''[ OK ] GDT initialized & loaded successfully.'' @ [10]),
      k_idt_init L hw,
      kprint hw (str_bytes ''[ OK ] IDT initialized & loaded with 48 interrupt gates.'' @ [10]),
      k_syscall_init L hw,
      kprint hw (str_bytes ''[ OK ] Syscall handler registered at INT 0x80 (DPL=3).'' @ [10]),
      k_pic_remap hw,
      kprint hw (str_bytes ''[ OK ] PIC remapped (Master: 0x20, Slave: 0x28).'' @ [10]),
      k_keyboard_init hw,
      kprint hw (str_bytes ''[ OK ] PS/2 Keyboard driver initialized on IRQ 1.'' @ [10]),
      k_paging_init L hw,
      kprint hw (str_bytes ''[ OK ] Higher-Half Paging active (Kernel at 0xC0100000, 3GB Virtual Base).'' @ [10])]"

definition kmain_heap :: "layout \<Rightarrow> hardware \<Rightarrow> step list" where
  "kmain_heap L hw =
     [k_kheap_init L hw,
      kprint hw (str_bytes ''[ OK ] Kernel Bitmap Heap initialized (256 KB, 32B block size).'' @ [10]),
      kcolor hw FB_LIGHT_BROWN]"

text \<open>The diagnostic allocation: allocate, fill, print, report, free, report.\<close>

definition test_str :: "byte list" where
  "test_str = str_bytes ''Heap allocation test: OK!'' @ [10]"

definition kmain_heap_test :: "layout \<Rightarrow> hardware \<Rightarrow> step" where
  "kmain_heap_test L hw m =
     (let (test_alloc, h) = kmalloc (l_heap L) 128 (m_heap m) in
      if test_alloc \<noteq> 0 then
        (let len = kstrlen (test_str @ [0]) 0;
             mem = fold (\<lambda>i mem. mem(test_alloc + word_of_nat i := test_str ! i)) [0..<unat len] (heap_mem h);
             h = h\<lparr>heap_mem := mem(test_alloc + len := 0)\<rparr>
         in run_steps
              [kprint hw (str_bytes ''  -> ''),
               \<lambda>m. on_k hw (print (read_bytes (heap_mem (m_heap m)) test_alloc 128)) m,
               k_heap_stats hw,
               \<lambda>m. Some (m\<lparr>m_heap := kfree (l_heap L) test_alloc (m_heap m)\<rparr>),
               kprint hw (str_bytes ''  -> Freed test block. ''),
               k_heap_stats hw] (m\<lparr>m_heap := h\<rparr>))
      else Some (m\<lparr>m_heap := h\<rparr>))"

definition kmain_layout :: "layout \<Rightarrow> hardware \<Rightarrow> step list" where
  "kmain_layout L hw =
     [kcolor hw FB_LIGHT_CYAN,
      kprint hw (str_bytes ''[ MEM ] Kernel Physical: ''),
      on_k hw (print_hex (l_phys_start L)),
      kprint hw (str_bytes '' -> ''),
      on_k hw (print_hex (l_phys_end L)),
      kprint hw ([10] @ str_bytes ''[ MEM ] Kernel Virtual : ''),
      on_k hw (print_hex (l_virt_start L)),
      kprint hw (str_bytes '' -> ''),
      on_k hw (print_hex (l_virt_end L)),
      kprint hw ([10])]"

definition kmain_sti :: "hardware \<Rightarrow> step list" where
  "kmain_sti hw =
     [k_enable_interrupts hw,
      kprint hw (str_bytes ''[ OK ] CPU interrupts enabled (sti).'' @ [10, 10]),
      kcolor hw FB_LIGHT_CYAN,
      kprint hw (str_bytes ''================================================================='' @ [10]),
      kprint hw (str_bytes ''[ OK ] Kernel initialization complete. Transitioning to User Mode...'' @ [10, 10]),
      kcolor hw FB_WHITE]"

text \<open>The packed Multiboot structures, read from memory.\<close>

record multiboot_module =
  md_start :: u32
  md_end :: u32
  md_string :: u32
  md_reserved :: u32

record multiboot_info =
  mb_flags :: u32
  mb_mem_lower :: u32
  mb_mem_upper :: u32
  mb_boot_device :: u32
  mb_cmdline :: u32
  mb_mods_count :: u32
  mb_mods_addr :: u32
  mb_syms :: "u32 list"
  mb_mmap_length :: u32
  mb_mmap_addr :: u32

definition multiboot_module_at :: "memory \<Rightarrow> u32 \<Rightarrow> multiboot_module" where
  "multiboot_module_at mem p = \<lparr>md_start = load32 mem p, md_end = load32 mem (p + 4), md_string = load32 mem (p + 8),
     md_reserved = load32 mem (p + 12)\<rparr>"

definition multiboot_info_at :: "memory \<Rightarrow> u32 \<Rightarrow> multiboot_info" where
  "multiboot_info_at mem p = \<lparr>mb_flags = load32 mem p, mb_mem_lower = load32 mem (p + 4), mb_mem_upper = load32 mem (p + 8),
     mb_boot_device = load32 mem (p + 12), mb_cmdline = load32 mem (p + 16), mb_mods_count = load32 mem (p + 20),
     mb_mods_addr = load32 mem (p + 24), mb_syms = map (\<lambda>i. load32 mem (p + 28 + word_of_nat (4 * i))) [0..<4],
     mb_mmap_length = load32 mem (p + 44), mb_mmap_addr = load32 mem (p + 48)\<rparr>"

definition MULTIBOOT_INFO_MODS :: u32 where "MULTIBOOT_INFO_MODS = 0x00000008"

datatype boot_result = Entered_user u32 u32 | Returned u32

text \<open>\<open>iret\<close> with the selectors of ring 3; the call does not come back.\<close>

definition enter_user_mode :: "u32 \<Rightarrow> u32 \<Rightarrow> machine \<Rightarrow> boot_result \<times> machine" where
  "enter_user_mode eip esp m =
     (Entered_user eip esp, m\<lparr>m_k := (m_k m)\<lparr>k_tr := Iret_User eip esp # k_tr (m_k m)\<rparr>\<rparr>)"

definition kmain_user_steps :: "layout \<Rightarrow> hardware \<Rightarrow> u32 \<Rightarrow> u32 \<Rightarrow> step list" where
  "kmain_user_steps L hw mod_start mod_size =
     [kcolor hw FB_LIGHT_GREEN,
      kprint hw (str_bytes ''[ OK ] GRUB module found! Configuring User Mode (Ring 3)...'' @ [10]),
      k_setup_user L hw mod_start mod_size,
      kprint hw (str_bytes ''[ OK ] User Page Directory & Tables mapped with U/S = 1.'' @ [10]),
      k_tss_stack L hw,
      kprint hw (str_bytes ''[ OK ] TSS Ring 0 stack pointer configured.'' @ [10]),
      kcolor hw FB_LIGHT_CYAN,
      kprint hw (str_bytes ''[ INFO ] Executing iret to drop CPU privilege into Ring 3...'' @ [10]),
      kserial hw (str_bytes ''[User Mode] Switching to Ring 3 via iret (CS=0x1B, SS=0x23, EIP=0x0)...'' @ [13, 10])]"

definition kmain_user :: "layout \<Rightarrow> hardware \<Rightarrow> u32 \<Rightarrow> machine \<Rightarrow> (boot_result \<times> machine) option" where
  "kmain_user L hw mbinfo m =
     (let info = multiboot_info_at (k_mem (m_k m)) mbinfo in
      if mb_flags info AND MULTIBOOT_INFO_MODS \<noteq> 0 \<and> mb_mods_count info > 0 then
        (let md = multiboot_module_at (k_mem (m_k m)) (mb_mods_addr info);
             mod_start = md_start md;
             mod_size = md_end md - md_start md
         in map_option (enter_user_mode USER_ENTRY_POINT USER_STACK_TOP)
              (run_steps (kmain_user_steps L hw mod_start mod_size) m))
      else map_option (\<lambda>m. (Returned 0, m)) (run_steps
       [kcolor hw FB_LIGHT_RED,
      kprint hw (str_bytes ''[ WARN ] No Multiboot module found.'' @ [10])] m))"

definition kmain :: "layout \<Rightarrow> hardware \<Rightarrow> u32 \<Rightarrow> machine \<Rightarrow> (boot_result \<times> machine) option" where
  "kmain L hw mb_info_addr m =
     Option.bind (run_steps (kmain_console hw @ kmain_devices L hw @ kmain_heap L hw) m) (\<lambda>m.
     Option.bind (kmain_heap_test L hw m) (\<lambda>m.
     Option.bind (run_steps (kmain_layout L hw @ kmain_sti hw) m) (\<lambda>m.
       kmain_user L hw mb_info_addr m)))"

end
