(* ===== verification/Boot_Steps.thy ===== *)
theory Boot_Steps
  imports Kmain Typist
begin

text \<open>
  The steps of \<open>kmain\<close>, one by one. The screen aside, their effect is followed on a view of the
  machine: the tables, the heap, the drivers' state, the privileged instructions executed
  (newest first), the two interrupt controllers as functions of the state they had before,
  and the bytes put into COM1's data register. Up to \<open>sti\<close> interrupts are disabled and a step is
  an update of the view (\<open>acts\<close>); after it, a key may arrive before every step, and a step
  is the same update except for the keyboard driver, whose input is kept (\<open>types\<close>).
\<close>

fun privileged_event :: "io_event \<Rightarrow> bool" where
  "privileged_event (In p v) \<longleftrightarrow> False"
| "privileged_event (Out p v) \<longleftrightarrow> False"
| "privileged_event _ \<longleftrightarrow> True"

definition privileged :: "trace \<Rightarrow> trace" where
  "privileged tr = filter privileged_event tr"

record boot_view =
  v_kbd :: kbd_state
  v_tbl :: handlers
  v_mem :: memory
  v_gdt :: gdt_state
  v_idt :: idt_state
  v_paging :: paging_state
  v_heap :: kheap_state
  v_privileged :: trace
  v_master :: "pic_chip \<Rightarrow> pic_chip"
  v_slave :: "pic_chip \<Rightarrow> pic_chip"
  v_com1 :: "byte list"

definition view :: "machine \<Rightarrow> boot_view" where
  "view m = \<lparr>v_kbd = k_kbd (m_k m), v_tbl = k_tbl (m_k m), v_mem = k_mem (m_k m), v_gdt = m_gdt m, v_idt = m_idt m,
     v_paging = m_paging m, v_heap = m_heap m, v_privileged = privileged (k_tr (m_k m)),
     v_master = pic_master (k_tr (m_k m)), v_slave = pic_slave (k_tr (m_k m)), v_com1 = com1 (m_k m)\<rparr>"

text \<open>
  A step of \<open>kmain\<close> is a point where an interrupt may arrive, followed by the call itself.
\<close>

definition at_irq :: "hardware \<Rightarrow> step \<Rightarrow> step" where
  "at_irq hw b m = Option.bind (irq_point hw (m_k m)) (\<lambda>k. b (m\<lparr>m_k := k\<rparr>))"

abbreviation call_k :: "(kernel \<Rightarrow> kernel option) \<Rightarrow> step" where
  "call_k f \<equiv> (\<lambda>m. map_option (\<lambda>k. m\<lparr>m_k := k\<rparr>) (f (m_k m)))"

text \<open>
  A call that always returns, with the effect \<open>g\<close> on the view, and that takes no scancode from
  the keyboard controller.
\<close>

definition does :: "step \<Rightarrow> (boot_view \<Rightarrow> boot_view) \<Rightarrow> bool" where
  "does b g \<longleftrightarrow> (\<forall>m. \<exists>m'. b m = Some m' \<and> view m' = g (view m) \<and> keys_read (k_tr (m_k m')) = keys_read (k_tr (m_k m)))"

abbreviation sends :: "byte list \<Rightarrow> boot_view \<Rightarrow> boot_view" where
  "sends t v \<equiv> v\<lparr>v_com1 := v_com1 v @ t\<rparr>"

lemma view_fields:
  "v_kbd (view m) = k_kbd (m_k m)" "v_tbl (view m) = k_tbl (m_k m)" "v_mem (view m) = k_mem (m_k m)" "v_gdt (view m) = m_gdt m"
  "v_idt (view m) = m_idt m" "v_paging (view m) = m_paging m" "v_heap (view m) = m_heap m"
  "v_privileged (view m) = privileged (k_tr (m_k m))" "v_master (view m) = pic_master (k_tr (m_k m))"
  "v_slave (view m) = pic_slave (k_tr (m_k m))" "v_com1 (view m) = com1 (m_k m)"
  by (simp_all add: view_def)

lemma interrupts_on_filter [simp]: "interrupts_on (filter privileged_event tr) = interrupts_on tr"
proof (induction tr)
  case (Cons e tr)
  then show ?case by (cases e) simp_all
qed simp

lemma interrupts_on_privileged [simp]: "interrupts_on (privileged tr) = interrupts_on tr"
  by (simp add: privileged_def)

section \<open>Before sti\<close>

text \<open>Nobody has pressed a key as long as interrupts are disabled.\<close>

definition keyboard_silent :: "hardware \<Rightarrow> bool" where
  "keyboard_silent hw \<longleftrightarrow> (\<forall>tr. \<not> interrupts_on tr \<longrightarrow> port_in hw tr KBD_STATUS_PORT AND 1 = 0)"

definition irqs_off :: "boot_view \<Rightarrow> bool" where
  "irqs_off v \<longleftrightarrow> \<not> interrupts_on (v_privileged v)"

lemma irqs_off_view [simp]: "irqs_off (view m) \<longleftrightarrow> \<not> interrupts_on (k_tr (m_k m))"
  by (simp add: irqs_off_def view_def)

text \<open>Steps with interrupts disabled, and the effect on the view.\<close>

definition acts :: "hardware \<Rightarrow> step \<Rightarrow> (boot_view \<Rightarrow> boot_view) \<Rightarrow> bool" where
  "acts hw f g \<longleftrightarrow> (\<forall>m. irqs_off (view m) \<longrightarrow> irqs_off (g (view m)) \<and>
     (\<exists>m'. f m = Some m' \<and> view m' = g (view m) \<and>
       (keyboard_silent hw \<longrightarrow> keys_read (k_tr (m_k m')) = keys_read (k_tr (m_k m)))))"

lemma run_steps_append: "run_steps (fs @ gs) m = Option.bind (run_steps fs m) (run_steps gs)"
proof (induction fs arbitrary: m)
  case (Cons f fs)
  then show ?case by (cases "f m") simp_all
qed simp

lemma acts_bind:
  assumes "acts hw f g" "acts hw f' h"
  shows "acts hw (\<lambda>m. Option.bind (f m) f') (\<lambda>v. h (g v))"
  unfolding acts_def
proof (intro allI impI)
  fix m :: machine
  assume "irqs_off (view m)"
  then obtain m1 where m1: "f m = Some m1" "view m1 = g (view m)" "irqs_off (view m1)"
    "keyboard_silent hw \<longrightarrow> keys_read (k_tr (m_k m1)) = keys_read (k_tr (m_k m))"
    using assms(1) unfolding acts_def by metis
  then obtain m' where "f' m1 = Some m'" "view m' = h (view m1)" "irqs_off (h (view m1))"
    "keyboard_silent hw \<longrightarrow> keys_read (k_tr (m_k m')) = keys_read (k_tr (m_k m1))"
    using assms(2) unfolding acts_def by blast
  with m1 show "irqs_off (h (g (view m))) \<and> (\<exists>m'. Option.bind (f m) f' = Some m' \<and> view m' = h (g (view m)) \<and>
      (keyboard_silent hw \<longrightarrow> keys_read (k_tr (m_k m')) = keys_read (k_tr (m_k m))))"
    by simp
qed

lemma actsD:
  assumes "acts hw f g" "irqs_off (view m)"
  obtains m' where "f m = Some m'" "view m' = g (view m)" "irqs_off (view m')"
    "keyboard_silent hw \<longrightarrow> keys_read (k_tr (m_k m')) = keys_read (k_tr (m_k m))"
  using assms unfolding acts_def by metis

lemma acts_Nil: "acts hw (run_steps []) (\<lambda>v. v)"
  by (simp add: acts_def)

lemma acts_Cons: "acts hw f g \<Longrightarrow> acts hw (run_steps fs) h \<Longrightarrow> acts hw (run_steps (f # fs)) (\<lambda>v. h (g v))"
  using acts_bind [of hw f g "run_steps fs" h] by (simp add: acts_def)

lemma acts_append:
  "acts hw (run_steps fs) g \<Longrightarrow> acts hw (run_steps gs) h \<Longrightarrow> acts hw (run_steps (fs @ gs)) (\<lambda>v. h (g v))"
  using acts_bind [of hw "run_steps fs" g "run_steps gs" h] by (simp add: run_steps_append [abs_def])

lemma irq_off: "\<not> interrupts_on (k_tr k) \<Longrightarrow> irq_point hw k = Some k"
  by (simp add: irq_point_def)

lemma does_acts:
  assumes "does b g" "\<And>v. irqs_off (g v) = irqs_off v"
  shows "acts hw b g"
  using assms unfolding does_def acts_def by metis

lemma at_irq_acts:
  assumes "does b g" "\<And>v. irqs_off (g v) = irqs_off v"
  shows "acts hw (at_irq hw b) g"
  using does_acts [OF assms, of hw] by (simp add: acts_def at_irq_def irq_off)

section \<open>After sti\<close>

text \<open>
  The controllers as \<open>pic_remap\<close> leaves them, whatever their state was.
\<close>

definition master_remapped :: pic_chip where
  "master_remapped = \<lparr>p_imr = 0xED, p_isr = 0, p_base = 0x20, p_cascade = 0x04, p_mode = 0x01, p_icw1 = 0x11, p_phase = Ready\<rparr>"

definition slave_remapped :: pic_chip where
  "slave_remapped = \<lparr>p_imr = 0xFF, p_isr = 0, p_base = 0x28, p_cascade = 0x02, p_mode = 0x01, p_icw1 = 0x11, p_phase = Ready\<rparr>"

text \<open>Keys may be typed: at most \<open>n\<close> characters are waiting already.\<close>

definition typing :: "nat \<Rightarrow> machine \<Rightarrow> bool" where
  "typing n m \<longleftrightarrow> interrupts_on (k_tr (m_k m)) \<and> pic_master (k_tr (m_k m)) = (\<lambda>_. master_remapped) \<and>
     kbd_inv (k_kbd (m_k m)) \<and> k_tbl (m_k m) 33 = Some Keyboard_interrupt_handler \<and> length (kbd_pending (k_kbd (m_k m))) \<le> n"

text \<open>
  \<open>j\<close> steps with a person typing: as many interrupts at most, and the effect \<open>g\<close> on the view
  apart from the keyboard driver, which loses no character.
\<close>

definition types :: "byte list \<Rightarrow> nat \<Rightarrow> step \<Rightarrow> (boot_view \<Rightarrow> boot_view) \<Rightarrow> bool" where
  "types keys j f g \<longleftrightarrow> (\<forall>v s. g (v\<lparr>v_kbd := s\<rparr>) = (g v)\<lparr>v_kbd := s\<rparr>) \<and>
     (\<forall>m n. n + j \<le> 256 \<and> typing n m \<longrightarrow> (\<exists>m' s. f m = Some m' \<and> typing (n + j) m' \<and>
        view m' = (g (view m))\<lparr>v_kbd := s\<rparr> \<and> input keys (m_k m') = input keys (m_k m)))"

lemma types_Nil: "types keys 0 (run_steps []) (\<lambda>v. v)"
  unfolding types_def
proof (intro conjI allI impI)
  fix m n assume "n + 0 \<le> 256 \<and> typing n m"
  then show "\<exists>m' s. run_steps [] m = Some m' \<and> typing (n + 0) m' \<and> view m' = (view m)\<lparr>v_kbd := s\<rparr> \<and>
      input keys (m_k m') = input keys (m_k m)"
    by (intro exI [of _ m] exI [of _ "v_kbd (view m)"]) simp
qed simp

lemma typesD:
  assumes "types keys j f g" "n + j \<le> 256" "typing n m"
  obtains m' s where "f m = Some m'" "typing (n + j) m'" "view m' = (g (view m))\<lparr>v_kbd := s\<rparr>" "input keys (m_k m') = input keys (m_k m)"
  using assms unfolding types_def by blast

lemma types_Cons:
  assumes "types keys 1 f g" "types keys j (run_steps fs) h"
  shows "types keys (Suc j) (run_steps (f # fs)) (\<lambda>v. h (g v))"
  unfolding types_def
proof (intro conjI allI impI)
  have comm: "g (v\<lparr>v_kbd := s\<rparr>) = (g v)\<lparr>v_kbd := s\<rparr>" "h (v\<lparr>v_kbd := s\<rparr>) = (h v)\<lparr>v_kbd := s\<rparr>" for v s
    using assms by (simp_all add: types_def)
  then show "h (g (v\<lparr>v_kbd := s\<rparr>)) = (h (g v))\<lparr>v_kbd := s\<rparr>" for v s by simp
  fix m n
  assume a: "n + Suc j \<le> 256 \<and> typing n m"
  obtain m1 s1 where m1: "f m = Some m1" "typing (n + 1) m1" "view m1 = (g (view m))\<lparr>v_kbd := s1\<rparr>" "input keys (m_k m1) = input keys (m_k m)"
    by (rule typesD [OF assms(1), of n m]) (use a in auto)
  obtain m2 s2 where "run_steps fs m1 = Some m2" "typing (n + 1 + j) m2" "view m2 = (h (view m1))\<lparr>v_kbd := s2\<rparr>"
    "input keys (m_k m2) = input keys (m_k m1)"
    by (rule typesD [OF assms(2) _ m1(2)]) (use a in auto)
  with m1 comm show "\<exists>m' s. run_steps (f # fs) m = Some m' \<and> typing (n + Suc j) m' \<and>
      view m' = (h (g (view m)))\<lparr>v_kbd := s\<rparr> \<and> input keys (m_k m') = input keys (m_k m)"
    by auto
qed

lemma key_view:
  assumes "heard keys k k'" "k_tr k' = k_tr k \<or> (\<exists>v. k_tr k' = pic_ack 33 (In KBD_DATA_PORT v # k_tr k))"
    "pic_master (k_tr k) = (\<lambda>_. master_remapped)" "m_k m = k"
  shows "view (m\<lparr>m_k := k'\<rparr>) = (view m)\<lparr>v_kbd := k_kbd k'\<rparr>"
proof -
  have "com1 k' = com1 k" using assms(1) by (simp add: heard_def com1_def com1_port pic_const_defs)
  moreover have "privileged (k_tr k') = privileged (k_tr k)"
    using assms(2) by (auto simp: privileged_def pic_ack_def outb_def)
  moreover have "pic_master (In p v # tr) = pic_master tr" "pic_slave (In p v # tr) = pic_slave tr" for p v tr
    by (simp_all add: pic_master_def pic_slave_def fun_eq_iff)
  then have "pic_master (k_tr k') = pic_master (k_tr k)" "pic_slave (k_tr k') = pic_slave (k_tr k)"
    using assms(2,3) by (auto simp: fun_eq_iff pic_ack_ends_interrupt master_remapped_def Let_def)
  ultimately show ?thesis using assms(1,4) by (simp add: view_def heard_def)
qed

lemma kernel_of_update: "m_k (m\<lparr>m_k := k\<rparr>) = k"
  by simp

lemma at_irq_types:
  assumes ty: "typist hw keys" and b: "does b g"
    and g: "\<And>v s. g (v\<lparr>v_kbd := s\<rparr>) = (g v)\<lparr>v_kbd := s\<rparr>" "\<And>v. v_kbd (g v) = v_kbd v" "\<And>v. irqs_off (g v) = irqs_off v"
      "\<And>v. v_master (g v) = v_master v" "\<And>v. v_tbl (g v) = v_tbl v"
  shows "types keys 1 (at_irq hw b) g"
  unfolding types_def
proof (intro conjI allI impI)
  show "g (v\<lparr>v_kbd := s\<rparr>) = (g v)\<lparr>v_kbd := s\<rparr>" for v s by (rule g(1))
  fix m n
  assume a: "n + 1 \<le> 256 \<and> typing n m"
  let ?k = "m_k m"
  have li: "listening keys ?k" using a by (simp add: typing_def listening_def)
  obtain k' where k': "irq_point hw ?k = Some k'" "heard keys ?k k'" "length (kbd_pending (k_kbd k')) \<le> Suc (length (kbd_pending (k_kbd ?k)))"
    "k_tr k' = k_tr ?k \<or> (\<exists>v. k_tr k' = pic_ack 33 (In KBD_DATA_PORT v # k_tr ?k))"
    using typist_irq_point [OF ty li] by metis
  let ?m = "m\<lparr>m_k := k'\<rparr>"
  have v: "view ?m = (view m)\<lparr>v_kbd := k_kbd k'\<rparr>" using key_view [OF k'(2,4) _ refl] a by (simp add: typing_def)
  obtain m' where m': "b ?m = Some m'" "view m' = g (view ?m)" "keys_read (k_tr (m_k m')) = keys_read (k_tr k')"
    using b unfolding does_def by (metis kernel_of_update)
  have vm: "view m' = (g (view m))\<lparr>v_kbd := k_kbd k'\<rparr>" using m'(2) v g(1) by simp
  have kbd: "k_kbd (m_k m') = k_kbd k'" using arg_cong [OF vm, of v_kbd] by (simp add: view_fields)
  have "irqs_off (view m') = irqs_off (view m)" "v_master (view m') = v_master (view m)" "v_tbl (view m') = v_tbl (view m)"
    using vm g(3) [of "view m"] g(4,5) by (simp_all add: irqs_off_def)
  then have "typing (n + 1) m'"
    using a k'(2,3) kbd by (simp add: typing_def view_fields irqs_off_def heard_def)
  moreover have "input keys (m_k m') = input keys ?k"
    using input_cong [OF kbd m'(3), of keys] k'(2) by (simp add: heard_def)
  moreover have "at_irq hw b m = Some m'" using k'(1) m'(1) by (simp add: at_irq_def)
  ultimately show "\<exists>m' s. at_irq hw b m = Some m' \<and> typing (n + 1) m' \<and> view m' = (g (view m))\<lparr>v_kbd := s\<rparr> \<and>
      input keys (m_k m') = input keys (m_k m)"
    using vm by blast
qed

section \<open>Output steps\<close>

text \<open>Port accesses of the framebuffer and of the serial line do not concern the interrupt controllers.\<close>

fun console_event :: "io_event \<Rightarrow> bool" where
  "console_event (In p v) \<longleftrightarrow> True"
| "console_event (Out p v) \<longleftrightarrow> p = FB_COMMAND_PORT \<or> p = FB_DATA_PORT \<or> p = SERIAL_DATA_PORT SERIAL_COM1_BASE"
| "console_event _ \<longleftrightarrow> False"

lemma pic_step_console:
  "console_event e \<Longrightarrow> pic_step PIC1_PORT_A PIC1_PORT_B e c = c" "console_event e \<Longrightarrow> pic_step PIC2_PORT_A PIC2_PORT_B e c = c"
  by (cases e; auto simp: pic_const_defs FB_COMMAND_PORT_def FB_DATA_PORT_def com1_port)+

lemma console_frame:
  assumes "list_all console_event es"
  shows "privileged (es @ tr) = privileged tr" "pic_master (es @ tr) = pic_master tr" "pic_slave (es @ tr) = pic_slave tr"
proof -
  show "privileged (es @ tr) = privileged tr"
    using assms by (induction es) (auto simp: privileged_def elim: console_event.elims)
  have "foldr (pic_step PIC1_PORT_A PIC1_PORT_B) es c = c" "foldr (pic_step PIC2_PORT_A PIC2_PORT_B) es c = c" for c
    using assms by (induction es) (simp_all add: pic_step_console)
  then show "pic_master (es @ tr) = pic_master tr" "pic_slave (es @ tr) = pic_slave tr"
    by (simp_all add: pic_master_def pic_slave_def fun_eq_iff)
qed

lemma serial_event_console: "list_all (serial_event SERIAL_COM1_BASE) es \<Longrightarrow> list_all console_event es"
proof (induction es)
  case (Cons e es)
  then show ?case by (cases e) auto
qed simp

lemma fb_out_events: "\<exists>es. snd (fold fb_put_char buf st) = es @ snd st \<and> list_all console_event es"
proof (induction buf arbitrary: st)
  case (Cons c buf)
  obtain es where es: "snd (fold fb_put_char buf (fb_put_char c st)) = es @ snd (fb_put_char c st)" "list_all console_event es"
    using Cons by blast
  obtain fs where "snd (fb_put_char c st) = fs @ snd st" "list_all console_event fs"
    by (rule that [of "fb_move_cursor (cursor_pos (fst (fb_put_char c st))) []"])
      (simp_all add: fb_put_char_def fb_move_cursor_def outb_def split_def Let_def)
  with es show ?case by (intro exI [of _ "es @ fs"]) simp
qed simp

text \<open>A change of the kernel that only touches the screen and adds console events, none on COM1.\<close>

definition screen_events :: "trace \<Rightarrow> bool" where
  "screen_events es \<longleftrightarrow> list_all console_event es \<and> outs (SERIAL_DATA_PORT SERIAL_COM1_BASE) es = [] \<and> keys_read es = 0"

definition on_screen :: "(kernel \<Rightarrow> kernel) \<Rightarrow> bool" where
  "on_screen f \<longleftrightarrow> (\<forall>k. \<exists>s es. f k = k\<lparr>k_fb := s, k_tr := es @ k_tr k\<rparr> \<and> screen_events es)"

lemma on_k_at: "on_k hw f = at_irq hw (call_k (\<lambda>k. Some (f k)))"
  and with_k_at: "with_k hw g = at_irq hw (call_k g)"
  by (simp_all add: on_k_def with_k_def at_irq_def fun_eq_iff)

lemma on_screen_does: "on_screen f \<Longrightarrow> does (call_k (\<lambda>k. Some (f k))) (\<lambda>v. v)"
  unfolding does_def
proof (intro allI)
  fix m :: machine
  assume "on_screen f"
  then obtain s es where "f (m_k m) = (m_k m)\<lparr>k_fb := s, k_tr := es @ k_tr (m_k m)\<rparr>" "list_all console_event es"
    "outs (SERIAL_DATA_PORT SERIAL_COM1_BASE) es = []" "keys_read es = 0"
    unfolding on_screen_def screen_events_def by metis
  then show "\<exists>m'. call_k (\<lambda>k. Some (f k)) m = Some m' \<and> view m' = view m \<and>
      keys_read (k_tr (m_k m')) = keys_read (k_tr (m_k m))"
    by (simp add: view_def console_frame com1_def keys_read_append)
qed

lemma with_fb_on_screen:
  assumes "\<And>st. \<exists>es. snd (f st) = es @ snd st \<and> list_all console_event es"
    and "\<And>st. outs (SERIAL_DATA_PORT SERIAL_COM1_BASE) (snd (f st)) = outs (SERIAL_DATA_PORT SERIAL_COM1_BASE) (snd st)"
    and "\<And>st. only_output (snd st) (snd (f st))"
  shows "on_screen (with_fb f)"
  unfolding on_screen_def
proof
  fix k :: kernel
  obtain es where es: "snd (f (k_fb k, k_tr k)) = es @ k_tr k" "list_all console_event es"
    using assms(1) [of "(k_fb k, k_tr k)"] by auto
  then have "screen_events es"
    using assms(2,3) [of "(k_fb k, k_tr k)"] by (simp add: screen_events_def only_output_def keys_read_append)
  with es show "\<exists>s es. with_fb f k = k\<lparr>k_fb := s, k_tr := es @ k_tr k\<rparr> \<and> screen_events es"
    by (intro exI [of _ "fst (f (k_fb k, k_tr k))"] exI [of _ es]) (simp add: with_fb_def split_def Let_def)
qed

lemma fb_write_screen: "on_screen (k_fb_write buf)"
  by (rule with_fb_on_screen)
    (auto simp: fb_write_def fb_out_events outs_fb_fold com1_port FB_COMMAND_PORT_def FB_DATA_PORT_def
      intro: only_output_fb_out [unfolded fb_write_def, simplified])

lemma fb_clear_screen: "on_screen (with_fb fb_clear)"
proof (rule with_fb_on_screen)
  fix st :: "fb_state \<times> trace"
  show "\<exists>es. snd (fb_clear st) = es @ snd st \<and> list_all console_event es"
    by (rule exI [of _ "fb_move_cursor 0 []"]) (simp add: fb_clear_def split_def Let_def fb_move_cursor_def outb_def)
  show "outs (SERIAL_DATA_PORT SERIAL_COM1_BASE) (snd (fb_clear st)) = outs (SERIAL_DATA_PORT SERIAL_COM1_BASE) (snd st)"
    by (simp add: outs_fb_clear com1_port FB_COMMAND_PORT_def FB_DATA_PORT_def)
  show "only_output (snd st) (snd (fb_clear st))" by (rule only_output_fb_clear)
qed

lemma color_screen: "on_screen (k_set_color fg bg)"
  by (rule with_fb_on_screen) (auto simp: split_def)

lemma screen_does:
  "does (call_k (\<lambda>k. Some (print s k))) (\<lambda>v. v)" "does (call_k (\<lambda>k. Some (k_set_color fg bg k))) (\<lambda>v. v)"
  "does (call_k (\<lambda>k. Some (with_fb fb_clear k))) (\<lambda>v. v)"
  unfolding print_def by (rule on_screen_does, rule fb_write_screen color_screen fb_clear_screen)+

lemma screen_acts: "does (call_k (\<lambda>k. Some (f k))) (\<lambda>v. v) \<Longrightarrow> acts hw (on_k hw f) (\<lambda>v. v)"
  unfolding on_k_at by (rule at_irq_acts) simp_all

lemma screen_types: "typist hw keys \<Longrightarrow> does (call_k (\<lambda>k. Some (f k))) (\<lambda>v. v) \<Longrightarrow> types keys 1 (on_k hw f) (\<lambda>v. v)"
  unfolding on_k_at by (rule at_irq_types) simp_all

lemma screen_steps:
  "acts hw (kprint hw str) (\<lambda>v. v)" "acts hw (on_k hw (print s)) (\<lambda>v. v)" "acts hw (kcolor hw fg) (\<lambda>v. v)"
  "acts hw (on_k hw (with_fb fb_clear)) (\<lambda>v. v)" "acts hw (on_k hw (print_hex n)) (\<lambda>v. v)"
  unfolding kprint_def kcolor_def print_hex_def by (rule screen_acts screen_does)+

lemma screen_typed:
  assumes "typist hw keys"
  shows "types keys 1 (kprint hw str) (\<lambda>v. v)" "types keys 1 (kcolor hw fg) (\<lambda>v. v)"
  unfolding kprint_def kcolor_def by (rule screen_types [OF assms] screen_does)+

section \<open>The other steps\<close>

lemma serial_write_does:
  assumes "transmitter_drains hw SERIAL_COM1_BASE"
  shows "does (call_k (k_serial_write hw str)) (sends str)"
  unfolding does_def
proof (intro allI)
  fix m :: machine
  obtain es where es: "k_serial_write hw str (m_k m) = Some ((m_k m)\<lparr>k_tr := es @ k_tr (m_k m)\<rparr>)"
    "list_all (serial_event SERIAL_COM1_BASE) es" "outs (SERIAL_DATA_PORT SERIAL_COM1_BASE) es = str"
    using k_serial_write_returns [OF assms] by metis
  then show "\<exists>m'. call_k (k_serial_write hw str) m = Some m' \<and> view m' = sends str (view m) \<and>
      keys_read (k_tr (m_k m')) = keys_read (k_tr (m_k m))"
    using console_frame [OF serial_event_console [OF es(2)]] only_output_serial [OF es(2), of "k_tr (m_k m)"]
    by (simp add: view_def com1_def only_output_def)
qed

lemma kserial_at:
  assumes "0 \<notin> set str" "length str < 4294967296"
  shows "kserial hw str = at_irq hw (call_k (k_serial_write hw str))"
proof -
  have "take (unat (kstrlen (str @ [0]) 0)) str = str"
    using kstrlen_string [OF assms(1), of "[]" 0] assms(2) by (simp add: unat_of_nat_u32)
  then show ?thesis by (simp add: fun_eq_iff kserial_def with_k_at)
qed

lemma kserial_acts:
  assumes "transmitter_drains hw SERIAL_COM1_BASE" and "0 \<notin> set str" "length str < 4294967296"
  shows "acts hw (kserial hw str) (sends str)"
  unfolding kserial_at [OF assms(2,3)] by (rule at_irq_acts [OF serial_write_does [OF assms(1)]]) (simp_all add: irqs_off_def)

lemma kserial_typed:
  assumes "typist hw keys" "transmitter_drains hw SERIAL_COM1_BASE" and "0 \<notin> set str" "length str < 4294967296"
  shows "types keys 1 (kserial hw str) (sends str)"
  unfolding kserial_at [OF assms(3,4)]
  by (rule at_irq_types [OF assms(1) serial_write_does [OF assms(2)]]) (simp_all add: irqs_off_def)

lemma kserial_char_acts:
  assumes "transmitter_drains hw SERIAL_COM1_BASE" and "c \<noteq> 0"
  shows "acts hw (kserial_char hw c) (sends [c])"
proof -
  have "kserial_char hw c = at_irq hw (call_k (k_serial_write hw [c]))"
    by (simp add: fun_eq_iff kserial_char_def with_k_at at_irq_def serial_write_char_write k_serial_write_def
        split_def option.map_comp comp_def bind_map_option)
  then show ?thesis
    using at_irq_acts [OF serial_write_does [OF assms(1), of "[c]"], of hw] by (simp add: irqs_off_def)
qed

lemma tee_does:
  assumes "transmitter_drains hw SERIAL_COM1_BASE"
  shows "does (call_k (tee hw buf)) (sends buf)"
  unfolding does_def
proof (intro allI)
  fix m :: machine
  let ?m = "m\<lparr>m_k := k_fb_write buf (m_k m)\<rparr>"
  have "view ?m = view m" "keys_read (k_tr (m_k ?m)) = keys_read (k_tr (m_k m))"
    using on_screen_does [OF fb_write_screen, of buf] unfolding does_def by (metis option.simps(9) option.inject)+
  moreover obtain k' where "k_serial_write hw buf (k_fb_write buf (m_k m)) = Some k'" "view (?m\<lparr>m_k := k'\<rparr>) = sends buf (view ?m)"
    "keys_read (k_tr k') = keys_read (k_tr (m_k ?m))"
    using spec [OF serial_write_does [OF assms, of buf, unfolded does_def], of ?m] by auto
  ultimately show "\<exists>m'. call_k (tee hw buf) m = Some m' \<and> view m' = sends buf (view m) \<and>
      keys_read (k_tr (m_k m')) = keys_read (k_tr (m_k m))"
    by (simp add: tee_def)
qed

lemma heap_stats_acts:
  assumes "transmitter_drains hw SERIAL_COM1_BASE" and "heap_rel base (m_heap m) A" and "\<not> interrupts_on (k_tr (m_k m))"
  shows "\<exists>m'. k_heap_stats hw m = Some m' \<and> view m' = sends (stats_text (live_blocks A)) (view m) \<and>
    (keyboard_silent hw \<longrightarrow> keys_read (k_tr (m_k m')) = keys_read (k_tr (m_k m)))"
proof -
  let ?t = "str_bytes ''[ KHEAP ] Total: ''" and ?a = "kb_digits (kheap_get_total_memory div 1024) @ str_bytes '' KB, Used: ''"
    and ?b = "kb_digits (kheap_get_used_memory (m_heap m) div 1024) @ str_bytes '' KB, Free: ''"
    and ?c = "kb_digits (kheap_get_free_memory (m_heap m) div 1024) @ str_bytes '' KB'' @ [10]"
  let ?steps = "[call_k (tee hw ?t), call_k (tee hw ?a), call_k (tee hw ?b), call_k (tee hw ?c)]"
  have eq: "k_heap_stats hw m = run_steps ?steps m"
    by (simp add: k_heap_stats_def with_k_def irq_off [OF assms(3)] kheap_print_stats_def
        map_conv_bind_option Option.bind_assoc comp_def Let_def)
  have t: "acts hw (call_k (tee hw buf)) (sends buf)" for buf
    by (rule does_acts [OF tee_does [OF assms(1)]]) (simp add: irqs_off_def)
  have "acts hw (run_steps ?steps) (\<lambda>v. sends ?c (sends ?b (sends ?a (sends ?t v))))"
    by (rule acts_Cons [OF t acts_Cons [OF t acts_Cons [OF t acts_Cons [OF t acts_Nil]]]])
  then obtain m' where m': "k_heap_stats hw m = Some m'" "view m' = sends (?t @ ?a @ ?b @ ?c) (view m)"
    "keyboard_silent hw \<longrightarrow> keys_read (k_tr (m_k m')) = keys_read (k_tr (m_k m))"
    unfolding eq by (rule actsD [where m = m]) (use assms(3) in simp_all)
  moreover have "?t @ ?a @ ?b @ ?c = stats_text (live_blocks A)"
    using stats_pieces [OF memory_statistics(2,3,1) [OF assms(2)]] by (simp add: stats_text_def)
  ultimately show ?thesis by auto
qed

lemma k_serial_init_acts:
  "acts hw (k_serial_init hw) (\<lambda>v. sends [1] (v\<lparr>v_tbl := (v_tbl v)(36 := Some Serial_interrupt_handler)\<rparr>))"
  by (simp add: acts_def irqs_off_def k_serial_init_def on_k_def with_k_def irq_off serial_init_def serial_config_baud_rate_def
      serial_config_line_def serial_config_buffers_def serial_config_modem_def serial_divisor_def serial_port_defs view_def com1_def
      privileged_def pic_master_def pic_slave_def pic_const_defs outb_def register_interrupt_handler_def Let_def fun_eq_iff)

lemma k_gdt_init_acts:
  "acts hw (k_gdt_init L hw) (\<lambda>v. v\<lparr>v_gdt := fst (gdt_init (l_gdt L) (l_tss L) (v_gdt v, [])),
      v_privileged := Ltr 0x28 # Lgdt 47 (l_gdt L) # v_privileged v\<rparr>)"
  by (simp add: acts_def irqs_off_def k_gdt_init_def irq_off gdt_init_def write_tss_def gdt_set_gate_def segment_defs view_def com1_def
      privileged_def pic_master_def pic_slave_def Let_def fun_eq_iff)

lemma k_idt_init_acts:
  "acts hw (k_idt_init L hw) (\<lambda>v. v\<lparr>v_idt := fst (idt_init (l_idt L) (l_isr_stubs L) (v_idt v, [])),
      v_privileged := Lidt 2047 (l_idt L) # v_privileged v\<rparr>)"
  by (simp add: acts_def irqs_off_def k_idt_init_def irq_off idt_init_def view_def com1_def privileged_def pic_master_def pic_slave_def
      gate_loop_other Let_def fun_eq_iff)

lemma k_syscall_init_acts: "acts hw (k_syscall_init L hw) (\<lambda>v. v\<lparr>v_idt := syscall_init (l_int128 L) (v_idt v)\<rparr>)"
  by (simp add: acts_def irqs_off_def k_syscall_init_def irq_off view_def)

lemma k_pic_remap_acts:
  "acts hw (k_pic_remap hw) (\<lambda>v. v\<lparr>v_master := (\<lambda>_. master_remapped), v_slave := (\<lambda>_. slave_remapped)\<rparr>)"
proof -
  have "pic_master (pic_remap tr) = (\<lambda>_. master_remapped)" "pic_slave (pic_remap tr) = (\<lambda>_. slave_remapped)" for tr
    by (simp_all add: fun_eq_iff pic_chips_after_remap master_remapped_def slave_remapped_def)
  moreover have "privileged (pic_remap tr) = privileged tr" "outs 0x3F8 (pic_remap tr) = outs 0x3F8 tr"
    "keys_read (pic_remap tr) = keys_read tr" for tr
    by (simp_all add: privileged_def pic_remap_def pic_set_mask_def outb_def pic_const_defs)
  ultimately show ?thesis
    by (simp add: acts_def irqs_off_def k_pic_remap_def on_k_def with_k_def irq_off view_def com1_def com1_port)
qed

text \<open>The keyboard controller's output buffer can always be emptied.\<close>

definition keyboard_drains :: "hardware \<Rightarrow> bool" where
  "keyboard_drains hw \<longleftrightarrow> (\<forall>tr. \<exists>n. port_in hw (kbd_rounds hw n tr) KBD_STATUS_PORT AND 1 = 0)"

lemma kbd_rounds_events: "\<exists>es. kbd_rounds hw n tr = es @ tr \<and> only_reads es"
proof (induction n arbitrary: tr)
  case (Suc n)
  then obtain es where "kbd_rounds hw (Suc n) tr = es @ snd (inb hw KBD_DATA_PORT (snd (inb hw KBD_STATUS_PORT tr)))" "only_reads es"
    by fastforce
  then show ?case
    by (intro exI [of _ "es @ [In KBD_DATA_PORT (port_in hw (snd (inb hw KBD_STATUS_PORT tr)) KBD_DATA_PORT),
          In KBD_STATUS_PORT (port_in hw tr KBD_STATUS_PORT)]"]) simp
qed simp

text \<open>With interrupts disabled and nobody typing, one look at the status port is enough.\<close>

lemma kbd_flush_silent:
  "keyboard_silent hw \<Longrightarrow> \<not> interrupts_on tr \<Longrightarrow> \<exists>v. kbd_flush hw tr = Some (In KBD_STATUS_PORT v # tr)"
  by (subst kbd_flush.simps) (simp add: keyboard_silent_def)

lemma only_reads_console: "only_reads es \<Longrightarrow> list_all console_event es"
  by (auto simp: only_reads_def list_all_iff)

definition kbd_emptied :: "kbd_state \<Rightarrow> kbd_state" where
  "kbd_emptied s = s\<lparr>kbd_buf_head := 0, kbd_buf_tail := 0, kbd_buf_count := 0\<rparr>"

lemma k_keyboard_init_acts:
  assumes "keyboard_drains hw"
  shows "acts hw (k_keyboard_init hw) (\<lambda>v. v\<lparr>v_kbd := kbd_emptied (v_kbd v),
      v_tbl := (v_tbl v)(33 := Some Keyboard_interrupt_handler)\<rparr>)"
  unfolding acts_def
proof (intro allI impI conjI)
  fix m :: machine
  let ?k = "m_k m" and ?g = "\<lambda>v. v\<lparr>v_kbd := kbd_emptied (v_kbd v), v_tbl := (v_tbl v)(33 := Some Keyboard_interrupt_handler)\<rparr>"
  assume off: "irqs_off (view m)"
  then show "irqs_off (?g (view m))" by (simp add: irqs_off_def view_def)
  obtain n v where f: "kbd_flush hw (k_tr ?k) = Some (In KBD_STATUS_PORT v # kbd_rounds hw n (k_tr ?k))"
    using assms kbd_flush_returns unfolding keyboard_drains_def by blast
  obtain es where es: "kbd_rounds hw n (k_tr ?k) = es @ k_tr ?k" "only_reads es" using kbd_rounds_events by blast
  have "only_reads (In KBD_STATUS_PORT v # es)" using es(2) by simp
  note frame = console_frame [OF only_reads_console [OF this], of "k_tr ?k"] only_reads_frame(1) [OF this]
  have "es = []" if "keyboard_silent hw" using kbd_flush_silent [OF that, of "k_tr ?k"] off f es(1) by auto
  then have "keyboard_silent hw \<longrightarrow> keys_read es = 0" by auto
  then show "\<exists>m'. k_keyboard_init hw m = Some m' \<and> view m' = ?g (view m) \<and>
      (keyboard_silent hw \<longrightarrow> keys_read (k_tr (m_k m')) = keys_read (k_tr (m_k m)))"
    using frame irq_off [OF off [simplified]] by (simp add: k_keyboard_init_def with_k_def keyboard_init_def f es(1) view_def com1_def
        kbd_emptied_def register_interrupt_handler_def Let_def keys_read_append KBD_STATUS_PORT_def KBD_DATA_PORT_def)
qed

lemma k_paging_init_acts: "acts hw (k_paging_init L hw) (\<lambda>v. v\<lparr>v_paging := paging_init (l_paging L) (v_paging v)\<rparr>)"
  by (simp add: acts_def irqs_off_def k_paging_init_def irq_off view_def)

lemma k_kheap_init_acts: "acts hw (k_kheap_init L hw) (\<lambda>v. v\<lparr>v_heap := kheap_init (l_heap L) (v_heap v)\<rparr>)"
  by (simp add: acts_def irqs_off_def k_kheap_init_def irq_off view_def)

text \<open>The instruction that lets the keys in.\<close>

lemma k_enable_interrupts_runs:
  assumes "\<not> interrupts_on (k_tr (m_k m))"
  shows "\<exists>m'. k_enable_interrupts hw m = Some m' \<and> view m' = (view m)\<lparr>v_privileged := Sti # v_privileged (view m)\<rparr> \<and>
    keys_read (k_tr (m_k m')) = keys_read (k_tr (m_k m))"
  using assms by (simp add: k_enable_interrupts_def on_k_def with_k_def irq_off view_def enable_interrupts_def com1_def privileged_def
      pic_master_def pic_slave_def fun_eq_iff)

lemma k_setup_user_typed:
  assumes "typist hw keys"
  shows "types keys 1 (k_setup_user L hw ms sz) (\<lambda>v. v\<lparr>
      v_paging := fst (paging_setup_user_process (l_paging L) (v_mem v) ms sz (v_paging v, [])),
      v_privileged := Load_CR3 (VIRTUAL_TO_PHYSICAL (a_user_page_directory (l_paging L))) # v_privileged v\<rparr>)"
proof -
  let ?b = "\<lambda>m. let (s, tr) = paging_setup_user_process (l_paging L) (k_mem (m_k m)) ms sz (m_paging m, k_tr (m_k m))
     in Some (m\<lparr>m_paging := s, m_k := (m_k m)\<lparr>k_tr := tr\<rparr>\<rparr>)"
  have "k_setup_user L hw ms sz = at_irq hw ?b" by (simp add: fun_eq_iff k_setup_user_def at_irq_def)
  moreover have "does ?b (\<lambda>v. v\<lparr>
      v_paging := fst (paging_setup_user_process (l_paging L) (v_mem v) ms sz (v_paging v, [])),
      v_privileged := Load_CR3 (VIRTUAL_TO_PHYSICAL (a_user_page_directory (l_paging L))) # v_privileged v\<rparr>)"
    by (simp add: does_def paging_setup_user_process_def view_def com1_def privileged_def pic_master_def pic_slave_def Let_def fun_eq_iff)
  ultimately show ?thesis using at_irq_types [OF assms] by (simp add: irqs_off_def)
qed

lemma k_tss_stack_typed:
  assumes "typist hw keys"
  shows "types keys 1 (k_tss_stack L hw) (\<lambda>v. v\<lparr>v_gdt := tss_set_kernel_stack (l_kernel_stack L + 4096) (v_gdt v)\<rparr>)"
proof -
  let ?b = "\<lambda>m. Some (m\<lparr>m_gdt := tss_set_kernel_stack (l_kernel_stack L + 4096) (m_gdt m)\<rparr>)"
  have swap: "m\<lparr>m_gdt := g, m_k := k\<rparr> = m\<lparr>m_k := k, m_gdt := g\<rparr>" for m :: machine and g k by (cases m) simp
  have "k_tss_stack L hw = at_irq hw ?b" by (simp add: fun_eq_iff k_tss_stack_def at_irq_def swap)
  moreover have "does ?b (\<lambda>v. v\<lparr>v_gdt := tss_set_kernel_stack (l_kernel_stack L + 4096) (v_gdt v)\<rparr>)"
    by (simp add: does_def view_def)
  ultimately show ?thesis using at_irq_types [OF assms] by (simp add: irqs_off_def)
qed

end
