(* ===== verification/Boot.thy ===== *)
theory Boot
  imports Boot_Steps
begin

text \<open>
  What \<open>kmain\<close> achieves: the steps of \<open>Boot_Steps\<close> composed into phases and the phases into the
  whole, with a person who may start typing as soon as interrupts are enabled.
\<close>

section \<open>The phases\<close>

lemma acts_by: "acts hw f g \<Longrightarrow> (\<And>v. g v = g' v) \<Longrightarrow> acts hw f g'"
  by (simp add: acts_def)

lemma types_by: "types keys j f g \<Longrightarrow> (\<And>v. g v = g' v) \<Longrightarrow> types keys j f g'"
  by (simp add: types_def)

lemmas silent_steps = screen_steps k_serial_init_acts k_gdt_init_acts k_idt_init_acts k_syscall_init_acts k_pic_remap_acts
  k_paging_init_acts k_kheap_init_acts

lemma kmain_console_acts: "acts hw (run_steps (kmain_console hw)) (\<lambda>v. v)"
  unfolding kmain_console_def by (intro acts_Cons acts_Nil silent_steps)

lemma kmain_layout_acts: "acts hw (run_steps (kmain_layout L hw)) (\<lambda>v. v)"
  unfolding kmain_layout_def by (intro acts_Cons acts_Nil silent_steps)

definition serial_greeting :: "byte list" where
  "serial_greeting = str_bytes ''AE [Serial COM1] LittleOS Serial Driver initialized successfully!'' @ [13, 10]"

definition user_message :: "byte list" where
  "user_message = str_bytes ''[User Mode] Switching to Ring 3 via iret (CS=0x1B, SS=0x23, EIP=0x0)...'' @ [13, 10]"

text \<open>The view after the devices are set up.\<close>

definition devices_up :: "layout \<Rightarrow> boot_view \<Rightarrow> boot_view" where
  "devices_up L v = v\<lparr>
     v_kbd := kbd_emptied (v_kbd v),
     v_tbl := (v_tbl v)(36 := Some Serial_interrupt_handler, 33 := Some Keyboard_interrupt_handler),
     v_gdt := fst (gdt_init (l_gdt L) (l_tss L) (v_gdt v, [])),
     v_idt := syscall_init (l_int128 L) (fst (idt_init (l_idt L) (l_isr_stubs L) (v_idt v, []))),
     v_paging := paging_init (l_paging L) (v_paging v),
     v_privileged := Lidt 2047 (l_idt L) # Ltr 0x28 # Lgdt 47 (l_gdt L) # v_privileged v,
     v_master := (\<lambda>_. master_remapped), v_slave := (\<lambda>_. slave_remapped),
     v_com1 := v_com1 v @ [1] @ serial_greeting\<rparr>"

lemma kmain_devices_acts:
  assumes "transmitter_drains hw SERIAL_COM1_BASE" and "keyboard_drains hw"
  shows "acts hw (run_steps (kmain_devices L hw)) (devices_up L)"
proof -
  let ?t = "str_bytes '' [Serial COM1] LittleOS Serial Driver initialized successfully!'' @ [13, 10]"
  have t: "acts hw (kserial hw ?t) (sends ?t)"
    by (rule kserial_acts [OF assms(1)]) (simp_all add: str_bytes_def)
  have c: "acts hw (kserial_char hw 65) (sends [65])" "acts hw (kserial_char hw 69) (sends [69])"
    by (rule kserial_char_acts [OF assms(1)], simp)+
  have g: "serial_greeting = 65 # 69 # ?t" by (simp add: serial_greeting_def str_bytes_def)
  show ?thesis
    unfolding kmain_devices_def
    by (rule acts_by, (rule acts_Cons acts_Nil silent_steps k_keyboard_init_acts [OF assms(2)] t c)+)
      (simp add: devices_up_def g)
qed

lemma kmain_heap_acts: "acts hw (run_steps (kmain_heap L hw)) (\<lambda>v. v\<lparr>v_heap := kheap_init (l_heap L) (v_heap v)\<rparr>)"
  unfolding kmain_heap_def
  by (rule acts_by, (rule acts_Cons acts_Nil silent_steps)+) simp

text \<open>The steps behind \<open>sti\<close>, each of which a key may precede.\<close>

lemmas typed_run = types_Cons types_Nil

lemma kmain_sti_tail_typed:
  assumes "typist hw keys"
  shows "types keys 5 (run_steps (tl (kmain_sti hw))) (\<lambda>v. v)"
proof -
  have "types keys (Suc (Suc (Suc (Suc (Suc 0))))) (run_steps (tl (kmain_sti hw))) (\<lambda>v. v)"
    unfolding kmain_sti_def list.sel by (intro typed_run screen_typed [OF assms])
  then show ?thesis by (simp add: eval_nat_numeral)
qed

definition user_up :: "layout \<Rightarrow> u32 \<Rightarrow> u32 \<Rightarrow> boot_view \<Rightarrow> boot_view" where
  "user_up L ms sz v = v\<lparr>
     v_gdt := tss_set_kernel_stack (l_kernel_stack L + 4096) (v_gdt v),
     v_paging := fst (paging_setup_user_process (l_paging L) (v_mem v) ms sz (v_paging v, [])),
     v_privileged := Load_CR3 (VIRTUAL_TO_PHYSICAL (a_user_page_directory (l_paging L))) # v_privileged v,
     v_com1 := v_com1 v @ user_message\<rparr>"

lemma kmain_user_typed:
  assumes "typist hw keys" and "transmitter_drains hw SERIAL_COM1_BASE"
  shows "types keys 9 (run_steps (kmain_user_steps L hw ms sz)) (user_up L ms sz)"
proof -
  have "0 \<notin> set user_message" "length user_message < 4294967296" by (simp_all add: user_message_def str_bytes_def)
  note t = kserial_typed [OF assms this]
  have "types keys (Suc (Suc (Suc (Suc (Suc (Suc (Suc (Suc (Suc 0))))))))) (run_steps (kmain_user_steps L hw ms sz)) (user_up L ms sz)"
    unfolding kmain_user_steps_def user_message_def [symmetric]
    by (rule types_by, (rule typed_run screen_typed [OF assms(1)] k_setup_user_typed [OF assms(1)] k_tss_stack_typed [OF assms(1)] t)+)
      (simp add: user_up_def)
  then show ?thesis by (simp add: eval_nat_numeral)
qed

section \<open>The diagnostic allocation\<close>

lemma test_chunk:
  assumes "heap_rel base h Map.empty" "kmalloc base 128 h = (q, h1)"
  shows "q = chunk_ptr base 0" "q \<noteq> 0" "heap_rel base h1 [0 \<mapsto> (5, 128)]"
proof -
  have n: "unat (blocks_for 128) = 5" by (simp add: blocks_for_unat)
  have "a_fits Map.empty 5 0" by (simp add: a_fits_def covers_def)
  with kmalloc_rel [OF assms(1) _ n [symmetric] _ assms(2)]
  show "q = chunk_ptr base 0" "q \<noteq> 0" "heap_rel base h1 [0 \<mapsto> (5, 128)]" by (auto simp: empty_first_fit)
qed

lemma test_str_len: "kstrlen (test_str @ [0]) 0 = 26" "length test_str = 26"
proof -
  show l: "length test_str = 26" by (simp add: test_str_def)
  have "0 \<notin> set test_str" by (simp add: test_str_def str_bytes_def)
  from kstrlen_string [OF this, of "[]" 0] l show "kstrlen (test_str @ [0]) 0 = 26" by simp
qed

lemma test_fill:
  assumes "heap_rel base h [0 \<mapsto> (5, 128)]"
    and "mem = fold (\<lambda>i mem. mem(chunk_ptr base 0 + word_of_nat i := test_str ! i)) [0..<26] (heap_mem h)"
  shows "heap_rel base (h\<lparr>heap_mem := mem(chunk_ptr base 0 + 26 := 0)\<rparr>) [0 \<mapsto> (5, 128)]"
proof (rule heap_rel_payload_write [OF assms(1), of 0 5 128])
  fix x
  assume x: "\<not> in_payload base 0 5 x"
  have place: "heap_placed base" using assms(1) by (simp add: heap_rel_def)
  have no: "\<not> in_obj (chunk_ptr base 0) 27 x" using in_payload_obj [OF place, of 5 0 27 x] x by auto
  have "x \<noteq> chunk_ptr base 0 + 26" using no by (auto simp: in_obj_def)
  moreover have "\<not> in_obj (chunk_ptr base 0) 26 x" using no in_obj_mono [of "chunk_ptr base 0" 26 x 27] by auto
  ultimately show "(mem(chunk_ptr base 0 + 26 := 0)) x = heap_mem h x"
    unfolding assms(2) by (subst fill_loop) simp_all
qed simp

lemma kmain_heap_test_acts:
  assumes "transmitter_drains hw SERIAL_COM1_BASE" and "heap_rel (l_heap L) (m_heap m) Map.empty" and off: "irqs_off (view m)"
  shows "\<exists>m' h'. kmain_heap_test L hw m = Some m' \<and> heap_rel (l_heap L) h' Map.empty \<and>
    view m' = sends (stats_text 5 @ stats_text 0) ((view m)\<lparr>v_heap := h'\<rparr>) \<and>
    (keyboard_silent hw \<longrightarrow> keys_read (k_tr (m_k m')) = keys_read (k_tr (m_k m)))"
proof -
  let ?b = "l_heap L"
  obtain q h1 where run: "kmalloc ?b 128 (m_heap m) = (q, h1)" by fastforce
  note q = test_chunk [OF assms(2) run]
  define mem where "mem = fold (\<lambda>i mem. mem(chunk_ptr ?b 0 + word_of_nat i := test_str ! i)) [0..<26] (heap_mem h1)"
  define h2 where "h2 = h1\<lparr>heap_mem := mem(chunk_ptr ?b 0 + 26 := 0)\<rparr>"
  have rel2: "heap_rel ?b h2 [0 \<mapsto> (5, 128)]" unfolding h2_def by (rule test_fill [OF q(3) mem_def])
  have rel3: "heap_rel ?b (kfree ?b q h2) Map.empty" using kfree_rel [OF rel2, of 0 5 128] q(1) by simp
  let ?m = "m\<lparr>m_heap := h2\<rparr>"
  obtain m1 where m1: "kprint hw (str_bytes ''  -> '') ?m = Some m1" "view m1 = view ?m" "irqs_off (view m1)"
    "keyboard_silent hw \<longrightarrow> keys_read (k_tr (m_k m1)) = keys_read (k_tr (m_k m))"
    by (rule actsD [OF screen_steps(1), of ?m]) (use off in auto)
  obtain m2 where m2: "on_k hw (print (read_bytes (heap_mem (m_heap m1)) q 128)) m1 = Some m2" "view m2 = view m1" "irqs_off (view m2)"
    "keyboard_silent hw \<longrightarrow> keys_read (k_tr (m_k m2)) = keys_read (k_tr (m_k m1))"
    by (rule actsD [OF screen_steps(2) m1(3)])
  have "m_heap m2 = h2" using m1(2) m2(2) by (simp add: view_def)
  with heap_stats_acts [OF assms(1), of ?b m2 "[0 \<mapsto> (5, 128)]"] rel2 m2(3) obtain m3 where
    m3: "k_heap_stats hw m2 = Some m3" "view m3 = sends (stats_text 5) (view m2)"
      "keyboard_silent hw \<longrightarrow> keys_read (k_tr (m_k m3)) = keys_read (k_tr (m_k m2))"
    by (auto simp: live_blocks_def)
  let ?m4 = "m3\<lparr>m_heap := kfree ?b q (m_heap m3)\<rparr>"
  have v4: "view ?m4 = sends (stats_text 5) ((view m)\<lparr>v_heap := kfree ?b q h2\<rparr>)"
    using m1(2) m2(2) m3(2) by (simp add: view_def)
  then have "irqs_off (view ?m4)" using off by (simp add: irqs_off_def)
  then obtain m5 where m5: "kprint hw (str_bytes ''  -> Freed test block. '') ?m4 = Some m5" "view m5 = view ?m4" "irqs_off (view m5)"
    "keyboard_silent hw \<longrightarrow> keys_read (k_tr (m_k m5)) = keys_read (k_tr (m_k ?m4))"
    by (rule actsD [OF screen_steps(1)])
  have "m_heap m5 = kfree ?b q h2" using m5(2) v4 by (simp add: view_def)
  with heap_stats_acts [OF assms(1), of ?b m5 Map.empty] rel3 m5(3) obtain m6 where
    m6: "k_heap_stats hw m5 = Some m6" "view m6 = sends (stats_text 0) (view m5)"
      "keyboard_silent hw \<longrightarrow> keys_read (k_tr (m_k m6)) = keys_read (k_tr (m_k m5))"
    by (auto simp: live_blocks_def)
  have "kmain_heap_test L hw m = Some m6"
    unfolding kmain_heap_test_def run Let_def prod.case test_str_len
    using q(2) m1(1) m2(1) m3(1) m5(1) m6(1) by (simp add: q(1) mem_def [symmetric] h2_def [symmetric])
  moreover have "view m6 = sends (stats_text 5 @ stats_text 0) ((view m)\<lparr>v_heap := kfree ?b q h2\<rparr>)"
    using m6(2) m5(2) v4 by simp
  moreover have "keyboard_silent hw \<longrightarrow> keys_read (k_tr (m_k m6)) = keys_read (k_tr (m_k m))"
    using m1(4) m2(4) m3(3) m5(4) m6(3) by simp
  ultimately show ?thesis using rel3 by blast
qed

section \<open>Booting\<close>

text \<open>What the linker, the zeroed .bss and the boot loader provide; interrupts are disabled.\<close>

definition boot_ready :: "layout \<Rightarrow> machine \<Rightarrow> bool" where
  "boot_ready L m \<longleftrightarrow> heap_placed (l_heap L) \<and> addrs_ok (l_paging L) \<and>
     length (gdt (m_gdt m)) = 6 \<and> length (idt (m_idt m)) = 256 \<and> paging_shape (m_paging m) \<and>
     length (kheap_bitmap (m_heap m)) = 1024 \<and> length (kbd_buffer (k_kbd (m_k m))) = 256 \<and> \<not> interrupts_on (k_tr (m_k m))"

definition module_given :: "memory \<Rightarrow> u32 \<Rightarrow> bool" where
  "module_given mem info \<longleftrightarrow> mb_flags (multiboot_info_at mem info) AND MULTIBOOT_INFO_MODS \<noteq> 0 \<and>
     mb_mods_count (multiboot_info_at mem info) > 0"

text \<open>The text of the keys that will be typed.\<close>

definition typed_text :: "byte list \<Rightarrow> machine \<Rightarrow> byte list" where
  "typed_text keys m = keys_text (shift_active (k_kbd (m_k m))) (keys_left keys (m_k m))"

text \<open>The view when \<open>kmain\<close> looks at the Multiboot information, with the keyboard driver in the state \<open>s\<close>.\<close>

definition kernel_up_view :: "layout \<Rightarrow> kheap_state \<Rightarrow> kbd_state \<Rightarrow> boot_view \<Rightarrow> boot_view" where
  "kernel_up_view L h s v =
     (let v = sends (stats_text 5 @ stats_text 0) ((devices_up L v)\<lparr>v_heap := h\<rparr>)
      in v\<lparr>v_privileged := Sti # v_privileged v, v_kbd := s\<rparr>)"

lemma kbd_emptied_inv: "length (kbd_buffer s) = 256 \<Longrightarrow> kbd_inv (kbd_emptied s) \<and> kbd_pending (kbd_emptied s) = []"
  by (simp add: kbd_inv_def kbd_emptied_def kbd_pending_def)

lemma kmain_sti_typed:
  assumes ty: "typist hw keys" and off: "irqs_off (view m)" and kbd: "k_kbd (m_k m) = kbd_emptied s" "length (kbd_buffer s) = 256"
    and up: "v_master (view m) = (\<lambda>_. master_remapped)" "k_tbl (m_k m) 33 = Some Keyboard_interrupt_handler"
  obtains m' s' where "run_steps (kmain_sti hw) m = Some m'" "typing 5 m'"
    "view m' = (view m)\<lparr>v_privileged := Sti # v_privileged (view m), v_kbd := s'\<rparr>"
    "input keys (m_k m') = keys_text (shift_active s) (keys_left keys (m_k m))"
proof -
  obtain m1 where m1: "k_enable_interrupts hw m = Some m1" "view m1 = (view m)\<lparr>v_privileged := Sti # v_privileged (view m)\<rparr>"
    "keys_read (k_tr (m_k m1)) = keys_read (k_tr (m_k m))"
    using k_enable_interrupts_runs [of m hw] off by auto
  have k1: "k_kbd (m_k m1) = kbd_emptied s" "k_tbl (m_k m1) 33 = Some Keyboard_interrupt_handler"
    "pic_master (k_tr (m_k m1)) = (\<lambda>_. master_remapped)" "\<not> irqs_off (view m1)"
    using m1(2) kbd(1) up unfolding irqs_off_def by (simp_all add: view_def)
  note k = kbd_emptied_inv [OF kbd(2)]
  have "typing 0 m1" using k1 k by (simp add: typing_def)
  then obtain m' s' where "run_steps (tl (kmain_sti hw)) m1 = Some m'" "typing (0 + 5) m'" "view m' = (view m1)\<lparr>v_kbd := s'\<rparr>"
    "input keys (m_k m') = input keys (m_k m1)"
    by (rule typesD [OF kmain_sti_tail_typed [OF ty], rotated]) simp_all
  moreover have "kmain_sti hw = k_enable_interrupts hw # tl (kmain_sti hw)" by (simp add: kmain_sti_def)
  then have "run_steps (kmain_sti hw) m = run_steps (tl (kmain_sti hw)) m1" using m1(1) by (metis bind.bind_lunit run_steps.simps(2))
  moreover have "input keys (m_k m1) = keys_text (shift_active s) (keys_left keys (m_k m))"
    using k1(1) k m1(3) by (simp add: input_def keys_left_def kbd_emptied_def)
  ultimately show ?thesis using m1(2) that by simp
qed

lemma kmain_until_user:
  assumes "typist hw keys" and "transmitter_drains hw SERIAL_COM1_BASE" and "keyboard_drains hw" and "boot_ready L m"
  obtains m' h s where "kmain L hw mb m = kmain_user L hw mb m'" "view m' = kernel_up_view L h s (view m)"
    "heap_rel (l_heap L) h Map.empty" "typing 5 m'" "keyboard_silent hw \<longrightarrow> input keys (m_k m') = typed_text keys m"
proof -
  have off: "irqs_off (view m)" and buf: "length (kbd_buffer (k_kbd (m_k m))) = 256" using assms(4) by (simp_all add: boot_ready_def)
  have heap0: "v_heap (devices_up L (view m)) = m_heap m" by (simp add: devices_up_def view_fields)
  note init = acts_append [OF kmain_console_acts acts_append [OF kmain_devices_acts [OF assms(2,3)] kmain_heap_acts]]
  obtain m1 where m1: "run_steps (kmain_console hw @ kmain_devices L hw @ kmain_heap L hw) m = Some m1"
    "view m1 = (devices_up L (view m))\<lparr>v_heap := kheap_init (l_heap L) (m_heap m)\<rparr>" "irqs_off (view m1)"
    "keyboard_silent hw \<longrightarrow> keys_read (k_tr (m_k m1)) = keys_read (k_tr (m_k m))"
    by (rule actsD [OF init [of L L] off]) (simp add: heap0)
  have "heap_rel (l_heap L) (m_heap m1) Map.empty"
    using kheap_init_rel [of "l_heap L" "m_heap m"] assms(4) m1(2) by (simp add: boot_ready_def view_def devices_up_def)
  from kmain_heap_test_acts [OF assms(2) this m1(3)] obtain m2 h where
    m2: "kmain_heap_test L hw m1 = Some m2" "heap_rel (l_heap L) h Map.empty"
      "view m2 = sends (stats_text 5 @ stats_text 0) ((view m1)\<lparr>v_heap := h\<rparr>)"
      "keyboard_silent hw \<longrightarrow> keys_read (k_tr (m_k m2)) = keys_read (k_tr (m_k m1))"
    by auto
  have "irqs_off (view m2)" using m2(3) m1(3) by (simp add: irqs_off_def)
  then obtain m3 where m3: "run_steps (kmain_layout L hw) m2 = Some m3" "view m3 = view m2" "irqs_off (view m3)"
    "keyboard_silent hw \<longrightarrow> keys_read (k_tr (m_k m3)) = keys_read (k_tr (m_k m2))"
    by (rule actsD [OF kmain_layout_acts])
  have v3: "v_kbd (view m3) = kbd_emptied (k_kbd (m_k m))" "v_master (view m3) = (\<lambda>_. master_remapped)"
    "v_tbl (view m3) 33 = Some Keyboard_interrupt_handler"
    using m3(2) m2(3) m1(2) by (simp_all add: devices_up_def view_fields)
  obtain m4 s where m4: "run_steps (kmain_sti hw) m3 = Some m4" "typing 5 m4"
    "view m4 = (view m3)\<lparr>v_privileged := Sti # v_privileged (view m3), v_kbd := s\<rparr>"
    "input keys (m_k m4) = keys_text (shift_active (k_kbd (m_k m))) (keys_left keys (m_k m3))"
    by (rule kmain_sti_typed [OF assms(1) m3(3) _ buf v3(2)]) (use v3 in \<open>simp_all add: view_fields\<close>)
  have "kmain L hw mb m = kmain_user L hw mb m4"
    using m1(1) m2(1) m3(1) m4(1) by (simp add: kmain_def run_steps_append)
  moreover have "view m4 = kernel_up_view L h s (view m)" using m1(2) m2(3) m3(2) m4(3) by (simp add: kernel_up_view_def)
  moreover have "keyboard_silent hw \<longrightarrow> input keys (m_k m4) = typed_text keys m"
    using m1(4) m2(4) m3(4) m4(4) by (simp add: typed_text_def keys_left_def)
  ultimately show ?thesis using m2(2) m4(2) that by blast
qed

text \<open>The machine handed to the user process.\<close>

definition booted :: "layout \<Rightarrow> machine \<Rightarrow> machine \<Rightarrow> bool" where
  "booted L m m' \<longleftrightarrow>
     privileged (k_tr (m_k m')) = [Iret_User 0 0xBFFFFFFB, Load_CR3 (VIRTUAL_TO_PHYSICAL (a_user_page_directory (l_paging L))),
       Sti, Lidt 2047 (l_idt L), Ltr 0x28, Lgdt 47 (l_gdt L)] @ privileged (k_tr (m_k m)) \<and>
     com1 (m_k m') = com1 (m_k m) @ [1] @ serial_greeting @ stats_text 5 @ stats_text 0 @ user_message \<and>
     k_tbl (m_k m') = (k_tbl (m_k m))(36 := Some Serial_interrupt_handler, 33 := Some Keyboard_interrupt_handler) \<and>
     kbd_inv (k_kbd (m_k m')) \<and> length (kbd_pending (k_kbd (m_k m'))) \<le> 14 \<and>
     heap_rel (l_heap L) (m_heap m') Map.empty"

text \<open>What protects the kernel from the user process once it runs.\<close>

definition protected :: "layout \<Rightarrow> machine \<Rightarrow> bool" where
  "protected L m' \<longleftrightarrow>
     flat_segment 3 (descriptor_of (m_gdt m') USER_CS_SELECTOR) \<and> flat_segment 3 (descriptor_of (m_gdt m') USER_DS_SELECTOR) \<and>
     t_ss0 (tss (m_gdt m')) = SEGMENT_KERNEL_DS \<and> t_esp0 (tss (m_gdt m')) = l_kernel_stack L + 4096 \<and>
     (\<forall>n < 256. int_allowed (m_idt m') 3 n \<longleftrightarrow> n = 128) \<and> gate_offset (idt (m_idt m') ! 128) = l_int128 L \<and>
     (\<forall>va. translate (tables_at (l_paging L) (m_paging m')) (user_page_directory (m_paging m')) True va =
        (if va < 0x10000 then Some (VIRTUAL_TO_PHYSICAL (a_user_code_pages (l_paging L)) + va)
         else if 0xBFFFF000 \<le> va \<and> va < 0xC0000000
           then Some (VIRTUAL_TO_PHYSICAL (a_user_stack_page (l_paging L)) + take_bit 12 va)
         else None))"

lemma user_up_tables:
  assumes "view m' = user_up L ms sz (kernel_up_view L h s (view m))"
  shows "m_gdt m' = tss_set_kernel_stack (l_kernel_stack L + 4096) (fst (gdt_init (l_gdt L) (l_tss L) (m_gdt m, [])))"
    "m_idt m' = syscall_init (l_int128 L) (fst (idt_init (l_idt L) (l_isr_stubs L) (m_idt m, [])))"
  using assms by (simp_all add: user_up_def kernel_up_view_def devices_up_def view_def Let_def)

lemma user_up_protected:
  assumes "boot_ready L m" "view m' = user_up L ms sz (kernel_up_view L h s (view m))"
  shows "protected L m'"
proof -
  have ready: "addrs_ok (l_paging L)" "length (gdt (m_gdt m)) = 6" "length (idt (m_idt m)) = 256" "paging_shape (m_paging m)"
    using assms(1) by (simp_all add: boot_ready_def)
  obtain g tr where g: "gdt_init (l_gdt L) (l_tss L) (m_gdt m, []) = (g, tr)" by fastforce
  have mg: "m_gdt m' = tss_set_kernel_stack (l_kernel_stack L + 4096) g"
    using user_up_tables(1) [OF assms(2)] g by simp
  note gdt = gdt_segments [OF ready(2) g]
  obtain i tr2 where i: "idt_init (l_idt L) (l_isr_stubs L) (m_idt m, []) = (i, tr2)" by fastforce
  have mi: "m_idt m' = syscall_init (l_int128 L) i"
    using user_up_tables(2) [OF assms(2)] i by simp
  note idt = syscall_gate [OF ready(3) i]
  obtain ps tr3 where p: "paging_setup_user_process (l_paging L) (k_mem (m_k m)) ms sz (paging_init (l_paging L) (m_paging m), []) = (ps, tr3)"
    by fastforce
  have mp: "m_paging m' = ps"
    using assms(2) p by (simp add: user_up_def kernel_up_view_def devices_up_def view_def Let_def)
  have rpl: "selector_rpl USER_CS_SELECTOR = 3" "selector_rpl USER_DS_SELECTOR = 3" by (simp_all add: selector_rpl_def segment_defs)
  have seg: "flat_segment 3 (descriptor_of (m_gdt m') USER_CS_SELECTOR)" "flat_segment 3 (descriptor_of (m_gdt m') USER_DS_SELECTOR)"
    "t_ss0 (tss (m_gdt m')) = SEGMENT_KERNEL_DS" "t_esp0 (tss (m_gdt m')) = l_kernel_stack L + 4096"
    using gdt [unfolded rpl] by (simp_all add: mg tss_set_kernel_stack_def descriptor_of_def)
  moreover have "\<forall>n < 256. int_allowed (m_idt m') 3 n \<longleftrightarrow> n = 128" "gate_offset (idt (m_idt m') ! 128) = l_int128 L"
    using idt [of _ "l_int128 L"] idt [of 0 "l_int128 L"] by (auto simp: mi Let_def)
  ultimately show ?thesis unfolding protected_def mp using user_access [OF ready(1,4) p] by blast
qed

text \<open>The module that the Multiboot information names, and the page tables and frames made from it.\<close>

definition given_module :: "memory \<Rightarrow> u32 \<Rightarrow> multiboot_module" where
  "given_module mem mb = multiboot_module_at mem (mb_mods_addr (multiboot_info_at mem mb))"

definition module_paging :: "layout \<Rightarrow> u32 \<Rightarrow> machine \<Rightarrow> paging_state" where
  "module_paging L mb m =
     (let md = given_module (k_mem (m_k m)) mb
      in fst (paging_setup_user_process (l_paging L) (k_mem (m_k m)) (md_start md) (md_end md - md_start md)
           (paging_init (l_paging L) (m_paging m), [])))"

lemma kmain_reaches_user:
  assumes "typist hw keys" and "transmitter_drains hw SERIAL_COM1_BASE" and "keyboard_drains hw" and "boot_ready L m"
    and "module_given (k_mem (m_k m)) mb"
  obtains m' h s ms sz m4 where "kmain L hw mb m = Some (Entered_user 0 0xBFFFFFFB, m')" "heap_rel (l_heap L) h Map.empty"
    "view m4 = user_up L ms sz (kernel_up_view L h s (view m))" "m' = snd (enter_user_mode 0 0xBFFFFFFB m4)"
    "typing 14 m4" "keyboard_silent hw \<longrightarrow> input keys (m_k m4) = typed_text keys m"
    "ms = md_start (given_module (k_mem (m_k m)) mb)" "sz = md_end (given_module (k_mem (m_k m)) mb) - ms"
proof -
  obtain m3 h s where m3: "kmain L hw mb m = kmain_user L hw mb m3" "view m3 = kernel_up_view L h s (view m)"
    "heap_rel (l_heap L) h Map.empty" "typing 5 m3" "keyboard_silent hw \<longrightarrow> input keys (m_k m3) = typed_text keys m"
    using kmain_until_user [OF assms(1-4)] by metis
  let ?md = "given_module (k_mem (m_k m)) mb"
  let ?ms = "md_start ?md" and ?sz = "md_end ?md - md_start ?md"
  have mem: "k_mem (m_k m3) = k_mem (m_k m)" using m3(2) by (simp add: kernel_up_view_def devices_up_def view_def Let_def)
  obtain m4 s' where m4: "run_steps (kmain_user_steps L hw ?ms ?sz) m3 = Some m4" "typing (5 + 9) m4"
    "view m4 = (user_up L ?ms ?sz (view m3))\<lparr>v_kbd := s'\<rparr>" "input keys (m_k m4) = input keys (m_k m3)"
    by (rule typesD [OF kmain_user_typed [OF assms(1,2)] _ m3(4), of L ?ms ?sz]) simp_all
  have "kmain L hw mb m = Some (enter_user_mode 0 0xBFFFFFFB m4)"
    using assms(5) m4(1)
    by (simp add: m3(1) kmain_user_def mem module_given_def given_module_def USER_ENTRY_POINT_def USER_STACK_TOP_def Let_def)
  moreover have "view m4 = user_up L ?ms ?sz (kernel_up_view L h s' (view m))"
    using m4(3) m3(2) by (simp add: user_up_def kernel_up_view_def devices_up_def Let_def)
  ultimately show ?thesis
    using m3 m4(2,4) by (intro that [of "snd (enter_user_mode 0 0xBFFFFFFB m4)" h m4 ?ms ?sz s']) (simp_all add: enter_user_mode_def)
qed

lemma kmain_up:
  assumes "typist hw keys" and "transmitter_drains hw SERIAL_COM1_BASE" and "keyboard_drains hw" and "boot_ready L m"
    and "module_given (k_mem (m_k m)) mb"
  shows "\<exists>m'. kmain L hw mb m = Some (Entered_user 0 0xBFFFFFFB, m') \<and> booted L m m' \<and> protected L m' \<and> listening keys (m_k m') \<and>
    (keyboard_silent hw \<longrightarrow> input keys (m_k m') = typed_text keys m) \<and>
    (\<forall>c1 c2. pic_master (k_tr (m_k m')) c1 = master_remapped \<and> pic_slave (k_tr (m_k m')) c2 = slave_remapped) \<and>
    m_gdt m' = tss_set_kernel_stack (l_kernel_stack L + 4096) (fst (gdt_init (l_gdt L) (l_tss L) (m_gdt m, []))) \<and>
    m_idt m' = syscall_init (l_int128 L) (fst (idt_init (l_idt L) (l_isr_stubs L) (m_idt m, []))) \<and>
    m_paging m' = module_paging L mb m"
proof -
  obtain m' h s ms sz m4 where r: "kmain L hw mb m = Some (Entered_user 0 0xBFFFFFFB, m')" "heap_rel (l_heap L) h Map.empty"
    "view m4 = user_up L ms sz (kernel_up_view L h s (view m))" and m': "m' = snd (enter_user_mode 0 0xBFFFFFFB m4)"
    and t: "typing 14 m4" "keyboard_silent hw \<longrightarrow> input keys (m_k m4) = typed_text keys m"
    and md: "ms = md_start (given_module (k_mem (m_k m)) mb)" "sz = md_end (given_module (k_mem (m_k m)) mb) - ms"
    using kmain_reaches_user [OF assms] by metis
  note defs = user_up_def kernel_up_view_def devices_up_def view_def Let_def enter_user_mode_def m'
  have "protected L m4" using user_up_protected [OF assms(4) r(3)] .
  then have "protected L m'" by (simp add: protected_def m' enter_user_mode_def)
  moreover have "booted L m m'"
    using r(2,3) t(1) assms(4) by (simp add: booted_def defs boot_ready_def com1_def privileged_def typing_def)
  moreover have "listening keys (m_k m')" "keyboard_silent hw \<longrightarrow> input keys (m_k m') = typed_text keys m"
    using t by (auto simp: listening_def typing_def m' enter_user_mode_def input_def keys_left_def)
  moreover have "pic_master (k_tr (m_k m')) c1 = master_remapped \<and> pic_slave (k_tr (m_k m')) c2 = slave_remapped" for c1 c2
  proof -
    have "pic_master (Iret_User a b # tr) = pic_master tr" "pic_slave (Iret_User a b # tr) = pic_slave tr" for a b tr
      by (simp_all add: pic_master_def pic_slave_def fun_eq_iff)
    then show "pic_master (k_tr (m_k m')) c1 = master_remapped \<and> pic_slave (k_tr (m_k m')) c2 = slave_remapped"
      using r(3) by (simp_all add: defs)
  qed
  moreover have "m_paging m4 = module_paging L mb m" using r(3) md by (simp add: defs module_paging_def)
  moreover note user_up_tables [OF r(3)]
  ultimately show ?thesis using r(1) by (auto simp: m' enter_user_mode_def)
qed

text \<open>
  C4: The kernel boots. On hardware whose UART transmits and whose keyboard controller can be
  emptied, while a person types \<open>keys\<close> from the moment interrupts are enabled (at most one key is
  taken before each call that \<open>kmain\<close> makes after \<open>sti\<close>), with a module given
  by the boot loader, \<open>kmain\<close> reaches ring 3 at the program's entry point with the user stack. On
  the way the GDT, the task register and the IDT are loaded, interrupts enabled and the new
  page directory loaded, in this order and nothing else; the keyboard and the serial handler
  are registered at vectors 33 and 36, the controllers are programmed, the heap has been
  tested and is empty again, COM1 got exactly the diagnostic messages; the process is
  confined to its own pages, ring 3 segments and the system call gate, with the kernel's stack
  in the TSS; and the kernel is listening, having lost no key unless one had been pressed before
  interrupts were enabled.
\<close>

theorem kmain_boots:
  assumes "typist hw keys" and "transmitter_drains hw SERIAL_COM1_BASE" and "keyboard_drains hw" and "boot_ready L m"
    and "module_given (k_mem (m_k m)) mb"
  shows "\<exists>m'. kmain L hw mb m = Some (Entered_user 0 0xBFFFFFFB, m') \<and> booted L m m' \<and> protected L m' \<and>
    pic_master (k_tr (m_k m')) c1 = master_remapped \<and> pic_slave (k_tr (m_k m')) c2 = slave_remapped \<and>
    listening keys (m_k m') \<and> (keyboard_silent hw \<longrightarrow> input keys (m_k m') = typed_text keys m)"
  using kmain_up [OF assms] by blast

text \<open>A machine before boot: zeroed tables, and Multiboot information at 0x9000 that lists one module.\<close>

definition sample_layout :: layout where
  "sample_layout = \<lparr>l_gdt = 0xC0104000, l_tss = 0xC0104040, l_idt = 0xC0105000, l_isr_stubs = replicate 48 0xC0100200,
     l_int128 = 0xC0100400, l_paging = sample_addrs, l_heap = pool_base, l_kernel_stack = 0xC0120000,
     l_phys_start = 0x100000, l_phys_end = 0x160000, l_virt_start = 0xC0100000, l_virt_end = 0xC0160000\<rparr>"

definition sample_mem :: memory where
  "sample_mem = store32 0x9000 8 (store32 0x9014 1 (store32 0x9018 0xA000 (store32 0xA000 0x200000 (store32 0xA004 0x201388 (\<lambda>_. 0)))))"

definition sample_machine :: machine where
  "sample_machine = \<lparr>m_k = kernel_up\<lparr>k_mem := sample_mem\<rparr>, m_gdt = gdt_bss, m_idt = idt_bss, m_paging = paging_bss,
     m_heap = \<lparr>kheap_bitmap = replicate 1024 0, kheap_initialized = False, heap_mem = (\<lambda>_. 0)\<rparr>\<rparr>"

lemma sample_ready: "boot_ready sample_layout sample_machine"
  using sample_ok
  by (simp add: boot_ready_def sample_layout_def sample_machine_def heap_placed_def pool_base_def gdt_bss_def idt_bss_def kbd_bss_def)

lemma sample_module: "module_given (k_mem (m_k sample_machine)) 0x9000"
  by (simp add: module_given_def multiboot_info_at_def MULTIBOOT_INFO_MODS_def sample_machine_def sample_mem_def
      load32_def store32_def)

lemma typist_hw_keyboard: "keyboard_drains (typist_hw keys)" "keyboard_silent (typist_hw keys)"
proof -
  show "keyboard_drains (typist_hw keys)"
    unfolding keyboard_drains_def by (intro allI exI [of _ 0]) (simp add: typist_hw_def KBD_DATA_PORT_def KBD_STATUS_PORT_def)
  show "keyboard_silent (typist_hw keys)"
    by (simp add: keyboard_silent_def typist_hw_def KBD_DATA_PORT_def KBD_STATUS_PORT_def)
qed

theorem kmain_boots_witness:
  "\<exists>m'. kmain sample_layout (typist_hw sample_keys) 0x9000 sample_machine = Some (Entered_user 0 0xBFFFFFFB, m') \<and>
     t_esp0 (tss (m_gdt m')) = 0xC0121000 \<and> input sample_keys (m_k m') = keys_text False sample_keys \<and>
     translate (tables_at sample_addrs (m_paging m')) (user_page_directory (m_paging m')) True 0xC0100000 = None"
proof -
  have l: "l_paging sample_layout = sample_addrs" "l_kernel_stack sample_layout = 0xC0120000" by (simp_all add: sample_layout_def)
  obtain m' where m': "kmain sample_layout (typist_hw sample_keys) 0x9000 sample_machine = Some (Entered_user 0 0xBFFFFFFB, m')"
    "protected sample_layout m'" "input sample_keys (m_k m') = typed_text sample_keys sample_machine"
    using kmain_boots [OF typist_typist_hw typist_hw_drains typist_hw_keyboard(1) sample_ready sample_module] typist_hw_keyboard(2) by blast
  from m'(2) have "t_esp0 (tss (m_gdt m')) = 0xC0121000"
    "translate (tables_at sample_addrs (m_paging m')) (user_page_directory (m_paging m')) True 0xC0100000 = None"
    by (simp_all add: protected_def l)
  moreover have "typed_text sample_keys sample_machine = keys_text False sample_keys"
    by (simp add: typed_text_def sample_machine_def keys_left_def kbd_bss_def)
  ultimately show ?thesis using m' by auto
qed

text \<open>
  Without a boot module \<open>kmain\<close> still brings the kernel up as far as enabled interrupts and
  then returns 0: no page directory is loaded and ring 3 is never entered.
\<close>

lemma kmain_without_module:
  assumes "typist hw keys" and "transmitter_drains hw SERIAL_COM1_BASE" and "keyboard_drains hw" and "boot_ready L m"
    and "\<not> module_given (k_mem (m_k m)) mb"
  shows "\<exists>m'. kmain L hw mb m = Some (Returned 0, m') \<and>
    privileged (k_tr (m_k m')) = [Sti, Lidt 2047 (l_idt L), Ltr 0x28, Lgdt 47 (l_gdt L)] @ privileged (k_tr (m_k m)) \<and>
    heap_rel (l_heap L) (m_heap m') Map.empty"
proof -
  obtain m3 h s where m3: "kmain L hw mb m = kmain_user L hw mb m3" "view m3 = kernel_up_view L h s (view m)"
    "heap_rel (l_heap L) h Map.empty" "typing 5 m3"
    using kmain_until_user [OF assms(1-4)] by metis
  have mem: "k_mem (m_k m3) = k_mem (m_k m)" using m3(2) by (simp add: kernel_up_view_def devices_up_def view_def Let_def)
  let ?warn = "[kcolor hw FB_LIGHT_RED, kprint hw (str_bytes ''[ WARN ] No Multiboot module found.'' @ [10])]"
  have "types keys (Suc (Suc 0)) (run_steps ?warn) (\<lambda>v. v)" by (intro typed_run screen_typed [OF assms(1)])
  then obtain m4 s' where m4: "run_steps ?warn m3 = Some m4" "view m4 = (view m3)\<lparr>v_kbd := s'\<rparr>"
    by (rule typesD [OF _ _ m3(4)]) simp_all
  have "kmain L hw mb m = Some (Returned 0, m4)"
    using assms(5) unfolding m3(1) kmain_user_def mem Let_def module_given_def m4(1) by (simp only: if_False option.map)
  then show ?thesis
    using m3(2,3) m4(2) by (auto simp: kernel_up_view_def devices_up_def view_def Let_def)
qed

end
