(* ===== verification/Kernel_Run.thy ===== *)
theory Kernel_Run
  imports Boot Syscall_Mem
begin

text \<open>
  The running kernel: after boot it is entered by system calls and by interrupts, in any
  order and on any hardware, while user code changes its own memory in between. The runs
  \<open>kernel_run\<close> are labelled with their entries; what every entry keeps is the relation \<open>tame\<close>, a
  preorder that each operation of the kernel is shown to respect.

  The dispatcher checks no pointer, so \<open>SYS_READ\<close> stores wherever it is told. The variables of the
  drivers are records of the model, beside the memory \<open>k_mem\<close> that pointers reach; this is sound as
  long as the buffers of system calls lie in the user's half of the address space. A call with
  another buffer may do anything in \<open>kernel_run\<close>, and the theorems about runs exclude it by
  the hypothesis \<open>own_buffers\<close>.
\<close>

section \<open>What an entry into the kernel may do\<close>

fun run_event :: "io_event \<Rightarrow> bool" where
  "run_event (In p v) \<longleftrightarrow> True"
| "run_event (Out p v) \<longleftrightarrow> p = FB_COMMAND_PORT \<or> p = FB_DATA_PORT \<or> p = SERIAL_DATA_PORT SERIAL_COM1_BASE \<or>
     (p = PIC1_PORT_A \<or> p = PIC2_PORT_A) \<and> v = PIC_ACK"
| "run_event Sti \<longleftrightarrow> True"
| "run_event Hlt \<longleftrightarrow> True"
| "run_event _ \<longleftrightarrow> False"

definition extends :: "trace \<Rightarrow> trace \<Rightarrow> bool" where
  "extends tr tr' \<longleftrightarrow> (\<exists>es. tr' = es @ tr \<and> list_all run_event es)"

definition tame :: "kernel \<Rightarrow> kernel \<Rightarrow> bool" where
  "tame k k' \<longleftrightarrow> (kbd_inv (k_kbd k) \<longrightarrow> kbd_inv (k_kbd k')) \<and> (fb_inv (k_fb k) \<longrightarrow> fb_inv (k_fb k')) \<and>
     k_tbl k' = k_tbl k \<and> extends (k_tr k) (k_tr k')"

lemma extends_refl [simp]: "extends tr tr"
  by (simp add: extends_def)

lemma extends_trans: "extends a b \<Longrightarrow> extends b c \<Longrightarrow> extends a c"
  by (fastforce simp: extends_def)

lemma extends_Cons: "run_event e \<Longrightarrow> extends tr (e # tr)"
  by (auto simp: extends_def intro: exI [of _ "[e]"])

lemma extends_console: "list_all console_event es \<Longrightarrow> extends tr (es @ tr)"
proof -
  have "console_event e \<Longrightarrow> run_event e" for e by (cases e) auto
  then show "list_all console_event es \<Longrightarrow> extends tr (es @ tr)"
    unfolding extends_def list_all_iff by blast
qed

lemma tame_refl [simp]: "tame k k"
  by (simp add: tame_def)

lemma tame_trans [trans]: "tame a b \<Longrightarrow> tame b c \<Longrightarrow> tame a c"
  unfolding tame_def using extends_trans by metis

lemma tame_mem [simp]: "tame k (k'\<lparr>k_mem := m\<rparr>) \<longleftrightarrow> tame k k'" "tame (k\<lparr>k_mem := m\<rparr>) k' \<longleftrightarrow> tame k k'"
  by (simp_all add: tame_def)

lemma tame_trace: "extends (k_tr k) tr \<Longrightarrow> tame k (k\<lparr>k_tr := tr\<rparr>)"
  by (simp add: tame_def)

section \<open>The console\<close>

lemma tame_fb:
  assumes "\<And>s tr. fb_inv s \<Longrightarrow> fb_inv (fst (f (s, tr)))" "\<And>st. \<exists>es. snd (f st) = es @ snd st \<and> list_all console_event es"
  shows "tame k (with_fb f k)"
proof -
  obtain es where "snd (f (k_fb k, k_tr k)) = es @ k_tr k" "list_all console_event es"
    using assms(2) [of "(k_fb k, k_tr k)"] by auto
  with assms(1) extends_console show ?thesis by (simp add: tame_def)
qed

lemma tame_fb_write: "tame k (k_fb_write buf k)"
  by (rule tame_fb) (auto intro: inv_intros simp: fb_out_events fb_write_def fb_inv_fold)

lemma tame_fb_clear: "tame k (with_fb fb_clear k)"
proof (rule tame_fb)
  fix st :: "fb_state \<times> trace"
  show "\<exists>es. snd (fb_clear st) = es @ snd st \<and> list_all console_event es"
    by (rule exI [of _ "fb_move_cursor 0 []"]) (simp add: fb_clear_def split_def Let_def fb_move_cursor_def outb_def)
qed (rule fb_inv_clear)

lemma tame_set_color: "tame k (k_set_color fg bg k)"
  by (rule tame_fb) (auto intro: inv_intros)

text \<open>The serial line, whatever the UART answers.\<close>

lemma serial_wait_events:
  assumes "serial_wait_transmit hw com tr = Some tr'"
  shows "\<exists>es. tr' = es @ tr \<and> list_all (serial_event com) es"
proof (rule serial_wait_transmit.raw_induct [where P = "\<lambda>hw com tr tr'. \<exists>es. tr' = es @ tr \<and> list_all (serial_event com) es", OF _ assms])
  fix rec and hw :: hardware and com :: u32 and tr tr' :: trace
  let ?r = "serial_is_transmit_fifo_empty hw com tr"
  assume IH: "\<And>hw com tr tr'. rec hw com tr = Some tr' \<Longrightarrow> \<exists>es. tr' = es @ tr \<and> list_all (serial_event com) es"
    and body: "(if fst ?r = 0 then rec hw com (snd ?r) else Some (snd ?r)) = Some tr'"
  obtain es where "tr' = es @ snd ?r" "list_all (serial_event com) es"
    using body IH [of hw com "snd ?r" tr'] by (cases "fst ?r = 0") auto
  then show "\<exists>es. tr' = es @ tr \<and> list_all (serial_event com) es"
    by (intro exI [of _ "es @ [In (SERIAL_LINE_STATUS_PORT com) (port_in hw tr (SERIAL_LINE_STATUS_PORT com))]"]) simp
qed

lemma serial_write_events:
  "serial_write_bytes hw com buf tr = Some tr' \<Longrightarrow> \<exists>es. tr' = es @ tr \<and> list_all (serial_event com) es"
proof (induction buf arbitrary: tr)
  case (Cons c buf)
  then obtain tr1 where t: "serial_wait_transmit hw com tr = Some tr1"
    "serial_write_bytes hw com buf (outb (SERIAL_DATA_PORT com) c tr1) = Some tr'"
    by (auto simp: bind_eq_Some_conv)
  obtain es where "tr1 = es @ tr" "list_all (serial_event com) es" using serial_wait_events [OF t(1)] by blast
  moreover obtain fs where "tr' = fs @ Out (SERIAL_DATA_PORT com) c # tr1" "list_all (serial_event com) fs"
    using Cons.IH [OF t(2)] by (auto simp: outb_def)
  ultimately show ?case by (intro exI [of _ "fs @ Out (SERIAL_DATA_PORT com) c # es"]) simp
qed simp

lemma tame_serial_write:
  assumes "k_serial_write hw buf k = Some k'"
  shows "tame k k'"
proof -
  obtain tr' where t: "serial_write_bytes hw SERIAL_COM1_BASE buf (k_tr k) = Some tr'" "k' = k\<lparr>k_tr := tr'\<rparr>"
    using assms by (auto simp: k_serial_write_def serial_write_def bind_eq_Some_conv)
  obtain es where "tr' = es @ k_tr k" "list_all (serial_event SERIAL_COM1_BASE) es" using serial_write_events [OF t(1)] by blast
  then show ?thesis unfolding t(2) by (intro tame_trace) (simp add: extends_console serial_event_console)
qed

lemma tame_echo: "k_serial_write hw ser (k_fb_write scr k) = Some k' \<Longrightarrow> tame k k'"
  using tame_trans [OF tame_fb_write tame_serial_write] .

section \<open>Interrupts\<close>

lemma extends_reads: "only_reads es \<Longrightarrow> extends tr (es @ tr)"
  by (rule extends_console [OF only_reads_console])

lemma tame_run_handler:
  assumes "run_handler hw h k = Some k'"
  shows "tame k k'"
proof -
  obtain s tr where k': "k' = k\<lparr>k_kbd := s, k_tr := tr\<rparr>" "frame_step (k_kbd k, k_tr k) (s, tr)"
    using run_handler_frame [OF assms] by blast
  then obtain es where "tr = es @ k_tr k" "only_reads es" by (auto simp: frame_step_def)
  with k' show ?thesis by (simp add: tame_def extends_reads frame_step_def)
qed

lemma tame_report: "tame k (report_exception n k)"
  unfolding report_exception_def Let_def fb_std_write_def
  by (simp add: tame_trans [OF tame_trans [OF tame_set_color tame_fb_write] tame_fb_write])

lemma extends_pic_ack: "extends tr (pic_ack irq tr)"
proof -
  have "extends tr (Out PIC1_PORT_A PIC_ACK # tr)" "extends tr (Out PIC1_PORT_A PIC_ACK # Out PIC2_PORT_A PIC_ACK # tr)"
    by (auto intro!: extends_trans [OF extends_Cons extends_Cons] extends_Cons)
  then show ?thesis by (simp add: pic_ack_def outb_def)
qed

lemma tame_interrupt:
  assumes "interrupt_handler hw n k = Some k'"
  shows "tame k k'"
proof -
  obtain k1 where k1: "(case (if n < 256 then k_tbl k (ucast n) else None) of
      Some h \<Rightarrow> run_handler hw h k | None \<Rightarrow> Some (if n < 32 then report_exception n k else k)) = Some k1"
    "k' = (if n \<ge> 32 \<and> n \<le> 47 then k1\<lparr>k_tr := pic_ack (ucast n) (k_tr k1)\<rparr> else k1)"
    using assms unfolding interrupt_handler_def bind_eq_Some_conv by blast
  have "tame k k1"
    using k1(1) tame_run_handler tame_report by (auto split: option.splits if_splits)
  moreover have "tame k1 k'" using tame_trace [OF extends_pic_ack] by (simp add: k1(2))
  ultimately show ?thesis by (rule tame_trans)
qed

lemma tame_irq_point: "irq_point hw k = Some k' \<Longrightarrow> tame k k'"
  by (auto simp: irq_point_def tame_interrupt split: if_splits option.splits)

lemma tame_hlt: "cpu_hlt hw k = Some k' \<Longrightarrow> tame k k'"
  using tame_trans [OF tame_trace [OF extends_Cons [of Hlt "k_tr k"]] tame_interrupt]
  by (auto simp: cpu_hlt_def Let_def split: if_splits option.splits)

section \<open>System calls\<close>

lemma tame_fetch: "tame k (snd (sys_read_fetch hw k))"
proof -
  have kbd: "tame k (k\<lparr>k_kbd := snd (keyboard_getchar (k_kbd k))\<rparr>)"
    using kbd_inv_getchar by (simp add: tame_def)
  have "extends (k_tr k) (snd (serial_read_char hw SERIAL_COM1_BASE (k_tr k)))"
    by (auto simp: serial_read_char_def split_def Let_def intro!: extends_Cons extends_trans [OF extends_Cons extends_Cons])
  then have "tame (k\<lparr>k_kbd := snd (keyboard_getchar (k_kbd k))\<rparr>)
      (k\<lparr>k_kbd := snd (keyboard_getchar (k_kbd k)), k_tr := snd (serial_read_char hw SERIAL_COM1_BASE (k_tr k))\<rparr>)"
    by (simp add: tame_def)
  from tame_trans [OF kbd this] kbd show ?thesis
    by (simp add: sys_read_fetch_def split_def Let_def)
qed

lemma tame_store:
  assumes "sys_read_store hw a c k = Some k'"
  shows "tame k k'"
proof -
  let ?k = "k_fb_write [c] (k\<lparr>k_mem := (k_mem k)(a := c)\<rparr>)"
  obtain n tr where "serial_write hw SERIAL_COM1_BASE [c] (k_tr ?k) = Some (n, tr)" "k' = ?k\<lparr>k_tr := tr\<rparr>"
    using assms by (auto simp: sys_read_store_def serial_write_char_write Let_def bind_eq_Some_conv)
  then have "k_serial_write hw [c] ?k = Some k'" by (simp add: k_serial_write_def)
  from tame_echo [OF this] show ?thesis by simp
qed

lemma tame_round:
  assumes "\<And>idx k r. next idx k = Some r \<Longrightarrow> tame k (snd r)" and "read_round hw buf idx next c k = Some r"
  shows "tame k (snd r)"
  using assms(2) unfolding read_round_def
  by (auto simp: bind_eq_Some_conv split: if_splits
      dest!: assms(1) intro: tame_trans [OF tame_irq_point tame_trans [OF tame_hlt]] tame_echo tame_trans [OF tame_echo]
        tame_trans [OF tame_store])

lemma tame_read_loop:
  assumes "sys_read_loop hw buf m idx k = Some r"
  shows "tame k (snd r)"
proof (rule sys_read_loop.raw_induct [where P = "\<lambda>hw buf m idx k r. tame k (snd r)", OF _ assms, folded read_round_def])
  fix rec and hw :: hardware and buf m idx :: u32 and k :: kernel and r :: "u32 \<times> kernel"
  assume IH: "\<And>hw buf m idx k r. rec hw buf m idx k = Some r \<Longrightarrow> tame k (snd r)"
    and body: "(if idx < m - 1 then
        Option.bind (irq_point hw k) (\<lambda>k0.
          let c = fst (sys_read_fetch hw k0); k = snd (sys_read_fetch hw k0) in
          read_round hw buf idx (rec hw buf m) c k)
      else Some (idx, k)) = Some r"
  show "tame k (snd r)"
  proof (cases "idx < m - 1")
    case True
    then obtain k0 where k0: "irq_point hw k = Some k0"
      "read_round hw buf idx (rec hw buf m) (fst (sys_read_fetch hw k0)) (snd (sys_read_fetch hw k0)) = Some r"
      using body by (auto simp: bind_eq_Some_conv Let_def)
    have "tame (snd (sys_read_fetch hw k0)) (snd r)" by (rule tame_round [OF IH k0(2)])
    with tame_trans [OF tame_irq_point [OF k0(1)] tame_fetch] show ?thesis using tame_trans by blast
  qed (use body in auto)
qed

lemma tame_sys_read:
  assumes "sys_read hw r k = Some (r', k')"
  shows "tame k k'"
proof (cases "r_ebx r = 0 \<and> r_ecx r \<noteq> 0 \<and> \<not> r_edx r \<le> 1")
  case True
  then obtain idx k1 where l: "sys_read_loop hw (r_ecx r) (r_edx r) 0 (k\<lparr>k_tr := enable_interrupts (k_tr k)\<rparr>) = Some (idx, k1)"
    "k' = k1\<lparr>k_mem := (k_mem k1)(r_ecx r + idx := 0)\<rparr>"
    using assms by (auto simp: sys_read_def Let_def bind_eq_Some_conv)
  have "tame k (k\<lparr>k_tr := enable_interrupts (k_tr k)\<rparr>)" by (rule tame_trace) (simp add: enable_interrupts_def extends_Cons)
  from tame_trans [OF this tame_read_loop [OF l(1)]] show ?thesis by (simp add: l(2))
next
  case False
  then have "k' = k \<or> (\<exists>m. k' = k\<lparr>k_mem := m\<rparr>)" using assms by (auto simp: sys_read_def Let_def split: if_splits)
  then show ?thesis by auto
qed

lemma tame_syscall:
  assumes "do_syscall_in_C hw r k = Some (r', k')"
  shows "tame k k'"
proof (cases r)
  case None
  with assms show ?thesis by (simp add: do_syscall_in_C_def)
next
  case (Some rg)
  consider (w) rg' where "sys_write hw rg k = Some (rg', k')" | (c) rg' where "sys_clear hw rg k = Some (rg', k')"
    | (rd) rg' where "sys_read hw rg k = Some (rg', k')" | (id) "k' = k"
    using assms Some by (auto simp: do_syscall_in_C_def bind_eq_Some_conv split: if_splits)
  then show ?thesis
  proof cases
    case w
    then show ?thesis using tame_echo by (auto simp: sys_write_def Let_def bind_eq_Some_conv split: if_splits)
  next
    case c
    then show ?thesis using tame_trans [OF tame_fb_clear tame_serial_write] by (auto simp: sys_clear_def bind_eq_Some_conv)
  next
    case rd
    then show ?thesis by (rule tame_sys_read)
  qed simp
qed

section \<open>Every run\<close>

datatype kernel_entry = K_call pt_regs | K_irq u32 | K_user memory

definition own_buffers :: "pt_regs \<Rightarrow> bool" where
  "own_buffers r \<longleftrightarrow> (\<forall>x. syscall_buffer r x \<longrightarrow> x < KERNEL_VIRTUAL_BASE)"

inductive kernel_run :: "hardware \<Rightarrow> kernel \<Rightarrow> kernel_entry list \<Rightarrow> kernel \<Rightarrow> bool" for hw k0 where
  start: "kernel_run hw k0 [] k0"
| syscall: "kernel_run hw k0 es k \<Longrightarrow> own_buffers r \<Longrightarrow> do_syscall_in_C hw (Some r) k = Some (Some r', k') \<Longrightarrow>
    kernel_run hw k0 (es @ [K_call r]) k'"
| stray: "kernel_run hw k0 es k \<Longrightarrow> \<not> own_buffers r \<Longrightarrow> kernel_run hw k0 (es @ [K_call r]) k'"
| interrupt: "kernel_run hw k0 es k \<Longrightarrow> interrupt_handler hw n k = Some k' \<Longrightarrow> kernel_run hw k0 (es @ [K_irq n]) k'"
| user: "kernel_run hw k0 es k \<Longrightarrow> (\<And>x. KERNEL_VIRTUAL_BASE \<le> x \<Longrightarrow> m x = k_mem k x) \<Longrightarrow>
    kernel_run hw k0 (es @ [K_user m]) (k\<lparr>k_mem := m\<rparr>)"

lemma run_tame: "kernel_run hw k0 es k \<Longrightarrow> (\<And>r. K_call r \<in> set es \<Longrightarrow> own_buffers r) \<Longrightarrow> tame k0 k"
proof (induction rule: kernel_run.induct)
  case (stray es k r k')
  then have "own_buffers r" by simp
  with stray.hyps(2) show ?case by simp
qed (auto intro: tame_trans tame_syscall tame_interrupt)

text \<open>What the events of a run do to the interrupt controllers: the mask and the vectors stay.\<close>

definition pic_setup :: "pic_chip \<Rightarrow> byte \<times> byte \<times> byte \<times> byte \<times> pic_phase" where
  "pic_setup c = (p_imr c, p_base c, p_cascade c, p_mode c, p_phase c)"

lemma pic_setup_ack: "pic_setup (pic_command PIC_ACK c) = pic_setup c"
  by (simp add: pic_setup_def pic_command_def PIC_ACK_def bit_numeral_rec)

lemma pic_setup_step:
  assumes "run_event e"
  shows "pic_setup (pic_step PIC1_PORT_A PIC1_PORT_B e c) = pic_setup c" "pic_setup (pic_step PIC2_PORT_A PIC2_PORT_B e c) = pic_setup c"
  using assms pic_setup_ack
  by (cases e; auto simp: pic_const_defs FB_COMMAND_PORT_def FB_DATA_PORT_def com1_port)+

lemma pic_setup_run:
  assumes "extends tr tr'"
  shows "pic_setup (pic_master tr' c) = pic_setup (pic_master tr c)" "pic_setup (pic_slave tr' c) = pic_setup (pic_slave tr c)"
proof -
  obtain es where es: "tr' = es @ tr" "list_all run_event es" using assms by (auto simp: extends_def)
  have "pic_setup (foldr (pic_step PIC1_PORT_A PIC1_PORT_B) es c) = pic_setup c"
    "pic_setup (foldr (pic_step PIC2_PORT_A PIC2_PORT_B) es c) = pic_setup c" for c
    using es(2) by (induction es) (simp_all add: pic_setup_step)
  then show "pic_setup (pic_master tr' c) = pic_setup (pic_master tr c)" "pic_setup (pic_slave tr' c) = pic_setup (pic_slave tr c)"
    by (simp_all add: es(1) pic_master_def pic_slave_def)
qed

lemma privileged_run:
  assumes "extends tr tr'"
  shows "\<exists>ps. privileged tr' = ps @ privileged tr \<and> set ps \<subseteq> {Sti, Hlt}"
proof -
  obtain es where es: "tr' = es @ tr" "list_all run_event es" using assms by (auto simp: extends_def)
  have "e \<in> {Sti, Hlt}" if "run_event e" "privileged_event e" for e using that by (cases e) auto
  then have "set (privileged es) \<subseteq> {Sti, Hlt}" using es(2) by (auto simp: privileged_def list_all_iff)
  then show ?thesis by (intro exI [of _ "privileged es"]) (simp add: es(1) privileged_def)
qed

text \<open>
  C8: What the running kernel keeps, over every sequence of system calls whose buffers lie in
  the user's half of the address space, of interrupts and of user code, on every hardware:
  the ring buffer stays well formed, the cursor on the screen, the handlers registered at
  boot in place; of privileged instructions only \<open>sti\<close> and \<open>hlt\<close> are executed, so the descriptor
  tables and the page directory stay loaded; and both interrupt controllers keep their
  masks, vectors and modes. Interrupts come between the entries and at the interrupt points of
  the loop of \<open>SYS_READ\<close>; one that falls into \<open>keyboard_getchar\<close> is not covered, and \<open>Kbd_Race\<close>
  shows what it can do to the ring buffer. Nothing is claimed of a run in which a program hands
  the kernel a buffer in the kernel's half: the code does not check it and would store there.
\<close>

theorem kernel_keeps_invariants:
  assumes "kernel_run hw k0 es k" and "\<And>r. K_call r \<in> set es \<Longrightarrow> own_buffers r"
    and "kbd_inv (k_kbd k0)" and "fb_inv (k_fb k0)"
  shows "kbd_inv (k_kbd k) \<and> fb_inv (k_fb k) \<and> k_tbl k = k_tbl k0 \<and>
    (\<exists>ps. privileged (k_tr k) = ps @ privileged (k_tr k0) \<and> set ps \<subseteq> {Sti, Hlt}) \<and>
    pic_setup (pic_master (k_tr k) c) = pic_setup (pic_master (k_tr k0) c) \<and>
    pic_setup (pic_slave (k_tr k) c) = pic_setup (pic_slave (k_tr k0) c)"
proof -
  have "tame k0 k" using assms(1,2) by (rule run_tame)
  then show ?thesis using assms(3,4) privileged_run pic_setup_run unfolding tame_def by blast
qed

theorem kernel_keeps_invariants_witness:
  "\<exists>es k. kernel_run (const_hw 0x20) kernel_up es k \<and> length es = 2 \<and> com1 k = [0, 1, 2] \<and> kbd_inv (k_kbd k) \<and> fb_inv (k_fb k)"
proof -
  let ?m = "\<lambda>x. if x < KERNEL_VIRTUAL_BASE then ucast x else k_mem kernel_up x"
  let ?k = "kernel_up\<lparr>k_mem := ?m\<rparr>" and ?r = "user_regs 4 1 0x1000 3"
  have b: "[0, 1, 2] = read_bytes (k_mem ?k) (r_ecx ?r) (unat (r_edx ?r))"
    by (simp add: user_regs_def read_bytes_def upt_rec KERNEL_VIRTUAL_BASE_def)
  obtain k' where run: "do_syscall_in_C (const_hw 0x20) (Some ?r) ?k = Some (Some (?r\<lparr>r_eax := r_edx ?r\<rparr>), k')"
    "com1 k' = com1 ?k @ [0, 1, 2]"
    using sys_write_call [OF const_hw_drains _ _ _ _ b] by (auto simp: user_regs_def syscall_defs)
  have own: "own_buffers ?r"
    using in_obj_nowrap [of "0x1000" 3] by (auto simp: own_buffers_def syscall_buffer_def user_regs_def u32_nat KERNEL_VIRTUAL_BASE_def)
  have "kernel_run (const_hw 0x20) kernel_up ([] @ [K_user ?m]) ?k"
    by (rule kernel_run.user [OF kernel_run.start]) (auto simp: not_less [symmetric])
  from kernel_run.syscall [OF this own run(1)]
  have reach: "kernel_run (const_hw 0x20) kernel_up [K_user ?m, K_call ?r] k'" by simp
  have "kbd_inv (k_kbd kernel_up)" "fb_inv (k_fb kernel_up)" by (simp_all add: kbd_inv_bss fb_inv_def fb_bss_def)
  with kernel_keeps_invariants [OF reach] own have "kbd_inv (k_kbd k') \<and> fb_inv (k_fb k')" by auto
  with reach run(2) show ?thesis by (intro exI [of _ "[K_user ?m, K_call ?r]"] exI [of _ k']) (simp add: com1_def)
qed

end
