(* ===== verification/Machine_Run.thy ===== *)
theory Machine_Run
  imports Program_End Kernel_Run
begin

text \<open>
  The running machine: the processor in ring 3, the program it runs, and the entries into the
  kernel as the processor makes them, through the gates and the assembly stubs (\<open>machine_run\<close>).
  It is compared with a machine without assembly (\<open>direct_run\<close>), on which an interrupt is a call of
  \<open>interrupt_handler\<close> with the vector, and a system call is a call of \<open>do_syscall_in_C\<close> with the program's
  registers and an assignment to \<open>eax\<close>. Runs are labelled with what the program does and with the
  entries, so that both machines are seen to make the same run.
\<close>

definition ring3 :: "platform \<Rightarrow> cpu \<Rightarrow> bool" where
  "ring3 P c \<longleftrightarrow> cpl c = 3 \<and> segs_kept (p_gdt P) c"

text \<open>
  What a program in ring 3 does between two entries is arbitrary, except that it cannot leave ring 3,
  change the control registers or write above its half of the address space
  (\<open>user_access_confined\<close>): the label gives its new registers and the new contents of its half.
  A trap is labelled with the registers of the program.
\<close>

datatype entry = Run cpu memory | Irq nat "u32 list" | Trap pt_regs

definition program_may :: "platform \<Rightarrow> cpu \<Rightarrow> cpu \<Rightarrow> bool" where
  "program_may P c c' \<longleftrightarrow> ring3 P c' \<and> c_cr0 c' = c_cr0 c \<and> c_cr3 c' = c_cr3 c"

definition with_user :: "memory \<Rightarrow> kernel \<Rightarrow> kernel" where
  "with_user u k = k\<lparr>k_mem := (\<lambda>x. if x < KERNEL_VIRTUAL_BASE then u x else k_mem k x)\<rparr>"

text \<open>
  The dispatcher does not check where a buffer lies. Runs in which one lies in the kernel's half
  are not determined by the model (\<open>stray\<close>), and the theorems exclude them.
\<close>

inductive machine_run :: "platform \<Rightarrow> st \<Rightarrow> entry list \<Rightarrow> st \<Rightarrow> bool" for P s0 where
  start: "machine_run P s0 [] s0"
| program: "machine_run P s0 es (c, k) \<Longrightarrow> program_may P c c' \<Longrightarrow> machine_run P s0 (es @ [Run c' u]) (c', with_user u k)"
| interrupt: "machine_run P s0 es s \<Longrightarrow> n < 48 \<Longrightarrow> err_ok n err \<Longrightarrow> deliver P n err s = Some s' \<Longrightarrow>
    machine_run P s0 (es @ [Irq n err]) s'"
| syscall: "machine_run P s0 es (c, k) \<Longrightarrow> own_buffers (user_frame c) \<Longrightarrow> deliver P 128 [] (c, k) = Some s' \<Longrightarrow>
    machine_run P s0 (es @ [Trap (user_frame c)]) s'"
| stray: "machine_run P s0 es (c, k) \<Longrightarrow> \<not> own_buffers (user_frame c) \<Longrightarrow> machine_run P s0 (es @ [Trap (user_frame c)]) s'"

text \<open>The machine without assembly.\<close>

inductive direct_run :: "platform \<Rightarrow> st \<Rightarrow> entry list \<Rightarrow> st \<Rightarrow> bool" for P s0 where
  start: "direct_run P s0 [] s0"
| program: "direct_run P s0 es (c, k) \<Longrightarrow> program_may P c c' \<Longrightarrow> direct_run P s0 (es @ [Run c' u]) (c', with_user u k)"
| interrupt: "direct_run P s0 es (c, k) \<Longrightarrow> n < 48 \<Longrightarrow> err_ok n err \<Longrightarrow>
    interrupt_handler (p_hw P) (word_of_nat n) k = Some k' \<Longrightarrow> direct_run P s0 (es @ [Irq n err]) (c, k')"
| syscall: "direct_run P s0 es (c, k) \<Longrightarrow> do_syscall_in_C (p_hw P) (Some (user_frame c)) k = Some (Some r', k') \<Longrightarrow>
    direct_run P s0 (es @ [Trap (user_frame c)]) (set_gpr EAX (r_eax r') c, k')"

definition own_traps :: "entry list \<Rightarrow> bool" where
  "own_traps es \<longleftrightarrow> (\<forall>r. Trap r \<in> set es \<longrightarrow> own_buffers r)"

lemma own_traps_simps [simp]:
  "own_traps []" "own_traps (es @ [Run c u]) = own_traps es" "own_traps (es @ [Irq n err]) = own_traps es"
  "own_traps (es @ [Trap r]) \<longleftrightarrow> own_traps es \<and> own_buffers r"
  by (auto simp: own_traps_def)

definition kernel_stack_ok :: "platform \<Rightarrow> bool" where
  "kernel_stack_ok P \<longleftrightarrow> KERNEL_VIRTUAL_BASE \<le> p_stack P \<and> unat (p_stack P) + 256 \<le> unat (t_esp0 (p_tss P))"

lemma kernel_stack_above: "kernel_stack_ok P \<Longrightarrow> stack_area (p_stack P) (t_esp0 (p_tss P)) x \<Longrightarrow> KERNEL_VIRTUAL_BASE \<le> x"
  using stack_area_numerals [of "p_stack P" "t_esp0 (p_tss P)" x] by (auto simp: kernel_stack_ok_def u32_nat)

lemma stack_room: "kernel_stack_ok P \<Longrightarrow> 256 \<le> unat (t_esp0 (p_tss P) - p_stack P)"
proof -
  assume ok: "kernel_stack_ok P"
  then have "unat (t_esp0 (p_tss P) - p_stack P) = unat (t_esp0 (p_tss P)) - unat (p_stack P)"
    by (intro unat_sub) (simp add: kernel_stack_ok_def u32_nat)
  then show ?thesis using ok add_le_imp_le_diff [of 256 "unat (p_stack P)"] by (auto simp: kernel_stack_ok_def add.commute)
qed

section \<open>Simulation\<close>

text \<open>The memories of the two machines agree except in the stack the kernel runs on.\<close>

abbreviation stack_alike :: "platform \<Rightarrow> memory \<Rightarrow> memory \<Rightarrow> bool" where
  "stack_alike P \<equiv> agrees (p_stack P) (t_esp0 (p_tss P))"

definition off_stack :: "platform \<Rightarrow> kernel \<Rightarrow> kernel \<Rightarrow> bool" where
  "off_stack P k k' \<longleftrightarrow> (\<exists>m. k' = k\<lparr>k_mem := m\<rparr> \<and> stack_alike P (k_mem k) m)"

lemma off_stackI: "stack_alike P (k_mem k) m \<Longrightarrow> off_stack P k (k\<lparr>k_mem := m\<rparr>)"
  by (auto simp: off_stack_def)

lemma off_stack_refl: "off_stack P k k"
  unfolding off_stack_def by (rule exI [of _ "k_mem k"]) (simp add: agrees_def)

lemma off_stack_user: "off_stack P k k' \<Longrightarrow> off_stack P (with_user u k) (with_user u k')"
proof -
  assume "off_stack P k k'"
  then obtain m where m: "k' = k\<lparr>k_mem := m\<rparr>" "stack_alike P (k_mem k) m" by (auto simp: off_stack_def)
  let ?m = "\<lambda>x. if x < KERNEL_VIRTUAL_BASE then u x else m x"
  have "with_user u k' = (with_user u k)\<lparr>k_mem := ?m\<rparr>" by (simp add: with_user_def m(1) cong: if_cong)
  moreover have "stack_alike P (k_mem (with_user u k)) ?m" using m(2) by (simp add: with_user_def agrees_def)
  ultimately show ?thesis by (simp add: off_stackI)
qed

lemma own_off_stack:
  "kernel_stack_ok P \<Longrightarrow> own_buffers r \<Longrightarrow> syscall_buffer r x \<Longrightarrow> \<not> stack_area (p_stack P) (t_esp0 (p_tss P)) x"
  using kernel_stack_above [of P x] by (auto simp: own_buffers_def not_less [symmetric])

lemma interrupt_entered:
  assumes ok: "platform_ok P" "kernel_stack_ok P" and ring: "ring3 P c" and n: "n < 48" "err_ok n err"
    and k: "off_stack P kd k" and run: "interrupt_handler (p_hw P) (word_of_nat n) kd = Some kd'"
  obtains k' where "deliver P n err (c, k) = Some (c, k')" "off_stack P kd' k'"
proof -
  obtain m where m: "k = kd\<lparr>k_mem := m\<rparr>" "stack_alike P (k_mem kd) m" using k by (auto simp: off_stack_def)
  have room: "128 \<le> unat (entry_stack (p_tss P) c - p_stack P)"
    using order_trans [OF _ stack_room [OF ok(2)], of 128] ring by (simp add: entry_stack_def ring3_def)
  have "interrupt_handler (p_hw P) (word_of_nat n) k = Some (kd'\<lparr>k_mem := m\<rparr>)"
    by (simp add: m(1) interrupt_any_mem run)
  from interrupt_transparently [OF ok(1) n _ _ room this] ring obtain m' where
    "deliver P n err (c, k) = Some (c, kd'\<lparr>k_mem := m'\<rparr>)" "stack_alike P m m'"
    by (auto simp: ring3_def entry_stack_def m(1))
  with m(2) interrupt_mem [OF run] show ?thesis by (intro that [of "kd'\<lparr>k_mem := m'\<rparr>"]) (auto simp: agrees_def intro: off_stackI)
qed

lemma interrupt_called:
  assumes ok: "platform_ok P" "kernel_stack_ok P" and ring: "ring3 P c" and n: "n < 48" "err_ok n err"
    and k: "off_stack P kd k" and run: "deliver P n err (c, k) = Some s'"
  obtains kd' k' where "interrupt_handler (p_hw P) (word_of_nat n) kd = Some kd'" "s' = (c, k')" "off_stack P kd' k'"
proof -
  obtain m where m: "k = kd\<lparr>k_mem := m\<rparr>" using k by (auto simp: off_stack_def)
  have room: "128 \<le> unat (entry_stack (p_tss P) c - p_stack P)"
    using order_trans [OF _ stack_room [OF ok(2)], of 128] ring by (simp add: entry_stack_def ring3_def)
  obtain k1 where "interrupt_handler (p_hw P) (word_of_nat n) k = Some k1" using deliver_handled [OF ok(1) n room run] by blast
  then obtain kd' where kd': "interrupt_handler (p_hw P) (word_of_nat n) kd = Some kd'" by (auto simp: m interrupt_any_mem)
  then obtain k' where "deliver P n err (c, k) = Some (c, k')" "off_stack P kd' k'"
    using interrupt_entered [OF ok ring n k] by metis
  with kd' run that show ?thesis by (metis option.inject)
qed

lemma syscall_entered:
  assumes ok: "platform_ok P" "kernel_stack_ok P" and ring: "ring3 P c" and own: "own_buffers (user_frame c)"
    and k: "off_stack P kd k" and run: "do_syscall_in_C (p_hw P) (Some (user_frame c)) kd = Some (Some r', kd')"
  obtains k' where "deliver P 128 [] (c, k) = Some (set_gpr EAX (r_eax r') c, k')" "off_stack P kd' k'"
proof -
  obtain m where m: "k = kd\<lparr>k_mem := m\<rparr>" "stack_alike P (k_mem kd) m" using k by (auto simp: off_stack_def)
  note sep = own_off_stack [OF ok(2) own]
  have "m x = k_mem kd x" if "syscall_buffer (user_frame c) x" for x using m(2) sep [OF that] by (simp add: agrees_def)
  then obtain m1 where m1: "do_syscall_in_C (p_hw P) (Some (user_frame c)) k = Some (Some r', kd'\<lparr>k_mem := m1\<rparr>)"
    "\<forall>x. m x = k_mem kd x \<longrightarrow> m1 x = k_mem kd' x"
    using replay_syscall [OF run, of m] by (auto simp: m(1))
  obtain m' where "deliver P 128 [] (c, k) = Some (set_gpr EAX (r_eax r') c, kd'\<lparr>k_mem := m'\<rparr>)" "stack_alike P m1 m'"
    using syscall_trapped [OF ok(1) _ _ _ sep m1(1)] ring ok(2) by (auto simp: ring3_def kernel_stack_ok_def)
  moreover from this m(2) m1(2) have "stack_alike P (k_mem kd') m'" by (simp add: agrees_def)
  ultimately show ?thesis using that off_stackI by blast
qed

lemma syscall_called:
  assumes ok: "platform_ok P" "kernel_stack_ok P" and ring: "ring3 P c" and own: "own_buffers (user_frame c)"
    and k: "off_stack P kd k" and run: "deliver P 128 [] (c, k) = Some s'"
  obtains r' kd' k' where "do_syscall_in_C (p_hw P) (Some (user_frame c)) kd = Some (Some r', kd')"
    "s' = (set_gpr EAX (r_eax r') c, k')" "off_stack P kd' k'"
proof -
  obtain m where m: "k = kd\<lparr>k_mem := m\<rparr>" "stack_alike P (k_mem kd) m" using k by (auto simp: off_stack_def)
  note sep = own_off_stack [OF ok(2) own]
  obtain r' k1 where k1: "do_syscall_in_C (p_hw P) (Some (user_frame c)) k = Some (Some r', k1)"
    using syscall_dispatched [OF ok(1) _ _ sep run] ring ok(2) by (auto simp: ring3_def kernel_stack_ok_def)
  have "k_mem kd x = k_mem k x" if "syscall_buffer (user_frame c) x" for x using m sep [OF that] by (simp add: agrees_def)
  then obtain kd' where kd': "do_syscall_in_C (p_hw P) (Some (user_frame c)) kd = Some (Some r', kd')"
    using replay_syscall [OF k1, of "k_mem kd"] by (auto simp: m(1))
  then obtain k' where "deliver P 128 [] (c, k) = Some (set_gpr EAX (r_eax r') c, k')" "off_stack P kd' k'"
    using syscall_entered [OF ok ring own k] by metis
  with kd' run that show ?thesis by (metis option.inject)
qed

lemma ring3_set_gpr [simp]: "ring3 P (set_gpr r v c) = ring3 P c"
  by (simp add: ring3_def cpl_def segs_kept_def)

lemma direct_ring3:
  "direct_run P s0 es s \<Longrightarrow> ring3 P (fst s0) \<Longrightarrow> ring3 P (fst s) \<and> c_cr0 (fst s) = c_cr0 (fst s0) \<and> c_cr3 (fst s) = c_cr3 (fst s0)"
  by (induction rule: direct_run.induct) (simp_all add: program_may_def)

lemma machine_to_direct:
  assumes ok: "platform_ok P" "kernel_stack_ok P" and ring: "ring3 P (fst s0)"
  shows "machine_run P s0 es s \<Longrightarrow> own_traps es \<Longrightarrow> \<exists>kd. direct_run P s0 es (fst s, kd) \<and> off_stack P kd (snd s)"
proof (induction rule: machine_run.induct)
  case start
  then show ?case using direct_run.start [of P s0] off_stack_refl by (metis prod.collapse)
next
  case (program es c k c' u)
  then obtain kd where "direct_run P s0 es (c, kd)" "off_stack P kd k" by auto
  then show ?case using direct_run.program [OF _ program.hyps(2)] off_stack_user by (metis fst_conv snd_conv)
next
  case (interrupt es s n err s')
  then obtain kd where kd: "direct_run P s0 es (fst s, kd)" "off_stack P kd (snd s)" by auto
  have run: "deliver P n err (fst s, snd s) = Some s'" using interrupt.hyps(4) by simp
  have "ring3 P (fst s)" using direct_ring3 [OF kd(1) ring] by simp
  from interrupt_called [OF ok this interrupt.hyps(2,3) kd(2) run] show ?case
    using direct_run.interrupt [OF kd(1) interrupt.hyps(2,3)] by (metis fst_conv snd_conv)
next
  case (syscall es c k s')
  then obtain kd where kd: "direct_run P s0 es (c, kd)" "off_stack P kd k" by auto
  have "ring3 P c" using direct_ring3 [OF kd(1) ring] by simp
  from syscall_called [OF ok this syscall.hyps(2) kd(2) syscall.hyps(3)] show ?case
    using direct_run.syscall [OF kd(1)] by (metis fst_conv snd_conv)
qed simp

lemma direct_to_machine:
  assumes ok: "platform_ok P" "kernel_stack_ok P" and ring: "ring3 P (fst s0)"
  shows "direct_run P s0 es s \<Longrightarrow> own_traps es \<Longrightarrow> \<exists>k. machine_run P s0 es (fst s, k) \<and> off_stack P (snd s) k"
proof (induction rule: direct_run.induct)
  case start
  then show ?case using machine_run.start [of P s0] off_stack_refl by (metis prod.collapse)
next
  case (program es c kd c' u)
  then obtain k where "machine_run P s0 es (c, k)" "off_stack P kd k" by auto
  then show ?case using machine_run.program [OF _ program.hyps(2)] off_stack_user by (metis fst_conv snd_conv)
next
  case (interrupt es c kd n err kd')
  then obtain k where k: "machine_run P s0 es (c, k)" "off_stack P kd k" by auto
  have "ring3 P c" using direct_ring3 [OF interrupt.hyps(1) ring] by simp
  from interrupt_entered [OF ok this interrupt.hyps(2,3) k(2) interrupt.hyps(4)] show ?case
    using machine_run.interrupt [OF k(1) interrupt.hyps(2,3)] by (metis fst_conv snd_conv)
next
  case (syscall es c kd r' kd')
  then have own: "own_buffers (user_frame c)" and "own_traps es" by simp_all
  with syscall.IH obtain k where k: "machine_run P s0 es (c, k)" "off_stack P kd k" by auto
  have "ring3 P c" using direct_ring3 [OF syscall.hyps(1) ring] by simp
  from syscall_entered [OF ok this own k(2) syscall.hyps(2)] show ?case
    using machine_run.syscall [OF k(1) own] by (metis fst_conv snd_conv)
qed

text \<open>What the kernel keeps, it keeps on the machine without assembly.\<close>

fun kernel_side :: "entry \<Rightarrow> kernel \<Rightarrow> kernel_entry" where
  "kernel_side (Run c u) k = K_user (k_mem (with_user u k))"
| "kernel_side (Irq n err) k = K_irq (word_of_nat n)"
| "kernel_side (Trap r) k = K_call r"

lemma direct_kernel:
  "direct_run P s0 es s \<Longrightarrow> own_traps es \<Longrightarrow>
    \<exists>ks. kernel_run (p_hw P) (snd s0) ks (snd s) \<and> (\<forall>r. K_call r \<in> set ks \<longrightarrow> own_buffers r)"
proof (induction rule: direct_run.induct)
  case start
  then show ?case using kernel_run.start by fastforce
next
  case (program es c k c' u)
  then obtain ks where "kernel_run (p_hw P) (snd s0) ks k" "\<forall>r. K_call r \<in> set ks \<longrightarrow> own_buffers r" by auto
  moreover from kernel_run.user [OF this(1), of "k_mem (with_user u k)"]
  have "kernel_run (p_hw P) (snd s0) (ks @ [kernel_side (Run c' u) k]) (with_user u k)"
    by (auto simp: with_user_def not_less [symmetric])
  ultimately show ?case by (intro exI [of _ "ks @ [kernel_side (Run c' u) k]"]) simp
next
  case (interrupt es c k n err k')
  then obtain ks where "kernel_run (p_hw P) (snd s0) ks k" "\<forall>r. K_call r \<in> set ks \<longrightarrow> own_buffers r" by auto
  then show ?case using kernel_run.interrupt [OF _ interrupt.hyps(4)] by (intro exI [of _ "ks @ [K_irq (word_of_nat n)]"]) simp
next
  case (syscall es c k r' k')
  then obtain ks where "kernel_run (p_hw P) (snd s0) ks k" "\<forall>r. K_call r \<in> set ks \<longrightarrow> own_buffers r" by auto
  then show ?case using kernel_run.syscall [OF _ _ syscall.hyps(2)] syscall.prems by (intro exI [of _ "ks @ [K_call (user_frame c)]"]) auto
qed

text \<open>
  C3: The assembly is invisible. For every sequence of program steps, interrupts, exceptions and
  system calls, the calls with buffers in the user's half of memory: when the machine, entering the
  kernel through the gates and stubs, makes this run, so does the machine on which an interrupt is
  a call of \<open>interrupt_handler\<close> with that vector and nothing else, and a system call a call of
  \<open>do_syscall_in_C\<close> with the program's registers followed by an assignment of the result to \<open>eax\<close>; and
  conversely. Both end with the same processor state, registers, flags and segments included, and with
  the same state of the kernel and memory, except for the words in the stack the kernel runs on.
\<close>

theorem machine_refines_kernel:
  assumes "platform_ok P" and "kernel_stack_ok P" and "ring3 P c0" and "own_traps es"
  shows "(\<forall>c k. machine_run P (c0, k0) es (c, k) \<longrightarrow> (\<exists>kd. direct_run P (c0, k0) es (c, kd) \<and> off_stack P kd k)) \<and>
    (\<forall>c kd. direct_run P (c0, k0) es (c, kd) \<longrightarrow> (\<exists>k. machine_run P (c0, k0) es (c, k) \<and> off_stack P kd k))"
  using machine_to_direct [OF assms(1,2), of "(c0, k0)" es] direct_to_machine [OF assms(1,2), of "(c0, k0)" es] assms(3,4)
  by fastforce

text \<open>An instance: a key, then an unknown system call.\<close>

theorem machine_refines_kernel_witness:
  "\<exists>k. machine_run (sample_platform (const_hw 0x1E)) (user_cpu 0x1234 0xBFFFFF00, kernel_up)
       [Irq 33 [], Trap (user_frame (user_cpu 0x1234 0xBFFFFF00))] (set_gpr EAX (- ENOSYS) (user_cpu 0x1234 0xBFFFFF00), k) \<and> k_tr k \<noteq> []"
proof -
  let ?P = "sample_platform (const_hw 0x1E)" and ?c = "user_cpu 0x1234 0xBFFFFF00"
  have ok: "kernel_stack_ok ?P" by (simp add: kernel_stack_ok_def KERNEL_VIRTUAL_BASE_def)
  have r: "ring3 ?P ?c" using sample_segs by (simp add: ring3_def)
  obtain k' where k': "interrupt_handler (const_hw 0x1E) 33 kernel_up = Some k'" "k_tr k' \<noteq> []"
    by (simp add: interrupt_handler_def run_handler_def register_interrupt_handler_def split_def Let_def pic_ack_def outb_def pic_const_defs)
  have e: "err_ok 33 []" by (simp add: err_ok_def error_vectors_def)
  have h: "p_hw ?P = const_hw 0x1E" by (simp add: sample_platform_def)
  have n: "r_eax (user_frame ?c) = 7" by (simp add: user_frame_def user_cpu_def)
  have own: "own_traps [Irq 33 [], Trap (user_frame ?c)]"
    using n by (auto simp: own_traps_def own_buffers_def syscall_buffer_def syscall_defs)
  have d: "direct_run ?P (?c, kernel_up) ([] @ [Irq 33 []]) (?c, k')"
    by (rule direct_run.interrupt [OF direct_run.start]) (use k'(1) e h in simp_all)
  have "do_syscall_in_C (p_hw ?P) (Some (user_frame ?c)) k' = Some (Some ((user_frame ?c)\<lparr>r_eax := - ENOSYS\<rparr>), k')"
    using n by (simp add: do_syscall_in_C_def syscall_defs)
  from direct_run.syscall [OF d this]
  have "direct_run ?P (?c, kernel_up) [Irq 33 [], Trap (user_frame ?c)] (set_gpr EAX (- ENOSYS) ?c, k')" by simp
  with machine_refines_kernel [OF sample_platform_ok ok r own, of kernel_up] k'(2) show ?thesis
    unfolding off_stack_def by fastforce
qed

end
