(* ===== verification/Sample_Module.thy ===== *)
theory Sample_Module
  imports Machine_Run
begin

text \<open>
  \<open>modules/program.s\<close>: the sample program for ring 3, in assembly and without the C library. It
  prints a banner, then for ever prompts, reads a line with \<open>SYS_READ\<close> and prints the line
  back between quotes. The program is a list of lines with jumps between them, run on the
  processor against the kernel's entry code.
\<close>

section \<open>Compare and jump\<close>

definition set_flag :: "nat \<Rightarrow> bool \<Rightarrow> u32 \<Rightarrow> u32" where
  "set_flag n v w = (if v then set_bit n w else unset_bit n w)"

text \<open>\<open>cmp a, b\<close> sets the carry, parity, adjust, zero, sign and overflow flags of \<open>a - b\<close>.\<close>

definition cmp_flags :: "u32 \<Rightarrow> u32 \<Rightarrow> u32 \<Rightarrow> u32" where
  "cmp_flags a b w =
     (let r = a - b
      in set_flag 0 (a < b) (set_flag 2 (even (length (filter (bit r) [0..<8])))
        (set_flag 4 (a AND 15 < b AND 15) (set_flag 6 (r = 0) (set_flag 7 (bit r 31)
        (set_flag 11 (sint a - sint b \<noteq> sint r) w))))))"

text \<open>\<open>jle\<close> jumps when the zero flag is set or the sign and overflow flags differ.\<close>

definition jle_taken :: "u32 \<Rightarrow> bool" where
  "jle_taken w \<longleftrightarrow> bit w 6 \<or> bit w 7 \<noteq> bit w 11"

datatype line = Ins instr | CMP gpr u32 | JLE nat | JMP nat

text \<open>A position in the program is the number of a line; so are the targets of jumps.\<close>

definition prog_step :: "env \<Rightarrow> line list \<Rightarrow> nat \<times> st \<Rightarrow> (nat \<times> st) option" where
  "prog_step E prog = (\<lambda>(pc, s).
     if pc < length prog then
       (case prog ! pc of
          Ins i \<Rightarrow> map_option (Pair (pc + 1)) (exec1 E i s)
        | CMP r v \<Rightarrow> Some (pc + 1, ((fst s)\<lparr>c_flags := cmp_flags (c_gpr (fst s) r) v (c_flags (fst s))\<rparr>, snd s))
        | JLE t \<Rightarrow> Some (if jle_taken (c_flags (fst s)) then t else pc + 1, s)
        | JMP t \<Rightarrow> Some (t, s))
     else None)"

primrec prog_steps :: "env \<Rightarrow> line list \<Rightarrow> nat \<Rightarrow> nat \<times> st \<Rightarrow> (nat \<times> st) option" where
  "prog_steps E prog 0 x = Some x"
| "prog_steps E prog (Suc n) x = Option.bind (prog_step E prog x) (prog_steps E prog n)"

section \<open>The program\<close>

definition msg_banner :: "byte list" where
  "msg_banner =
     10 # str_bytes ''================================================================='' @ [10] @
     str_bytes '' [User Ring 3] Canonical Buffer Input Mode is ACTIVE!'' @ [10] @
     str_bytes '' Type a full sentence and press ENTER (buffered until '' @ [92] @ str_bytes ''n or '' @ [92] @ str_bytes ''0):'' @ [10] @
     str_bytes ''================================================================='' @ [10, 0]"

definition module_prompt :: "byte list" where
  "module_prompt = str_bytes ''UserRing3> '' @ [0]"

definition msg_recv :: "byte list" where
  "msg_recv = str_bytes ''[User Ring 3 Received Buffer]: '' @ [0x22, 0]"

definition msg_end :: "byte list" where
  "msg_end = [0x22, 0x0A, 0x0D, 0]"

definition module_data :: "byte list" where
  "module_data = msg_banner @ module_prompt @ msg_recv @ msg_end"

text \<open>
  Where the assembler puts things: the sections \<open>.data\<close> and \<open>.bss\<close>, and the instruction of
  each line. The labels of the data section follow from the lengths of what is before them.
\<close>

record module_layout =
  ml_data :: u32
  ml_bss :: u32
  ml_line :: "nat \<Rightarrow> u32"

definition prompt_at :: "module_layout \<Rightarrow> u32" where
  "prompt_at L = ml_data L + word_of_nat (length msg_banner)"

definition recv_at :: "module_layout \<Rightarrow> u32" where
  "recv_at L = ml_data L + word_of_nat (length (msg_banner @ module_prompt))"

definition end_at :: "module_layout \<Rightarrow> u32" where
  "end_at L = ml_data L + word_of_nat (length (msg_banner @ module_prompt @ msg_recv))"

definition str_len_at :: "module_layout \<Rightarrow> u32" where
  "str_len_at L = ml_data L + word_of_nat (length module_data)"

definition call_code :: "u32 \<Rightarrow> u32 \<Rightarrow> u32 \<Rightarrow> operand \<Rightarrow> u32 \<Rightarrow> instr list" where
  "call_code num fd a len ra = [MOV EAX (Imm num), MOV EBX (Imm fd), MOV ECX (Imm a), MOV EDX len, INTR 0x80 ra]"

definition user_loop :: nat where "user_loop = 5"

definition program_s :: "module_layout \<Rightarrow> line list" where
  "program_s L =
     map Ins (call_code 4 1 (ml_data L) (Imm (word_of_nat (length msg_banner))) (ml_line L 5)) @
     map Ins (call_code 4 1 (prompt_at L) (Imm (word_of_nat (length module_prompt))) (ml_line L 10)) @
     map Ins (call_code 3 0 (ml_bss L) (Imm 128) (ml_line L 15)) @
     [CMP EAX 0, JLE user_loop, Ins (MOV_to_mem (str_len_at L) EAX)] @
     map Ins (call_code 4 1 (recv_at L) (Imm (word_of_nat (length msg_recv))) (ml_line L 23)) @
     map Ins (call_code 4 1 (ml_bss L) (Mem (str_len_at L)) (ml_line L 28)) @
     map Ins (call_code 4 1 (end_at L) (Imm (word_of_nat (length msg_end))) (ml_line L 33)) @
     [JMP user_loop]"

section \<open>Running lines\<close>

definition reaches :: "env \<Rightarrow> line list \<Rightarrow> nat \<times> st \<Rightarrow> nat \<times> st \<Rightarrow> bool" where
  "reaches E prog x y \<longleftrightarrow> (\<exists>n. prog_steps E prog n x = Some y)"

lemma prog_steps_add: "prog_steps E prog (m + n) x = Option.bind (prog_steps E prog m x) (prog_steps E prog n)"
  by (induction m arbitrary: x) (auto split: bind_split)

lemma reaches_refl: "reaches E prog x x"
  unfolding reaches_def by (rule exI [of _ 0]) simp

lemma reaches_trans: "reaches E prog x y \<Longrightarrow> reaches E prog y z \<Longrightarrow> reaches E prog x z"
  unfolding reaches_def by (auto simp: prog_steps_add intro: exI [of _ "_ + _"]) (metis bind.bind_lunit prog_steps_add)

lemma reaches_step: "prog_step E prog x = Some y \<Longrightarrow> reaches E prog x y"
  unfolding reaches_def by (rule exI [of _ 1]) simp

lemma reaches_block:
  assumes "exec E code s = Some s'" and "take (length code) (drop pc prog) = map Ins code"
  shows "reaches E prog (pc, s) (pc + length code, s')"
  using assms
proof (induction code arbitrary: pc s)
  case Nil
  then show ?case by (simp add: reaches_refl)
next
  case (Cons i code)
  obtain s1 where s1: "exec1 E i s = Some s1" "exec E code s1 = Some s'"
    using Cons.prems(1) by (auto simp: bind_eq_Some_conv simp del: exec1.simps)
  have pc: "pc < length prog" using Cons.prems(2) by (cases "pc < length prog") auto
  then have d: "drop pc prog = prog ! pc # drop (Suc pc) prog" by (simp add: Cons_nth_drop_Suc)
  then have "prog ! pc = Ins i" "take (length code) (drop (Suc pc) prog) = map Ins code" using Cons.prems(2) by simp_all
  then have "reaches E prog (pc, s) (Suc pc, s1)" "reaches E prog (Suc pc, s1) (Suc pc + length code, s')"
    using pc s1 Cons.IH [of s1 "Suc pc"] by (auto intro!: reaches_step simp: prog_step_def simp del: exec1.simps)
  from reaches_trans [OF this] show ?case by simp
qed

lemma set_flag_bit: "n < 32 \<Longrightarrow> bit (set_flag n v w :: u32) j = (if j = n then v else bit w j)"
  by (auto simp: set_flag_def bit_simps)

text \<open>Comparing with 0, \<open>jle\<close> is the signed test.\<close>

lemma jle_cmp_zero: "jle_taken (cmp_flags a 0 w) \<longleftrightarrow> sint a \<le> 0"
proof -
  have "bit a 31 \<longleftrightarrow> sint a < 0" using bit_last_iff [of a] by simp
  moreover have "a = 0 \<longleftrightarrow> sint a = 0" by (simp add: signed_eq_0_iff)
  ultimately show ?thesis by (auto simp: jle_taken_def cmp_flags_def Let_def set_flag_bit)
qed

section \<open>The calls\<close>

definition module_placed :: "module_layout \<Rightarrow> bool" where
  "module_placed L \<longleftrightarrow> 0 < unat (ml_data L) \<and> unat (ml_data L) + length module_data + 4 \<le> unat (ml_bss L) \<and>
     unat (ml_bss L) + 128 \<le> unat KERNEL_VIRTUAL_BASE"

lemma module_data_below:
  assumes "module_placed L" "i < length module_data"
  shows "ml_data L + word_of_nat i < KERNEL_VIRTUAL_BASE"
proof -
  have "unat (ml_data L) + i < unat KERNEL_VIRTUAL_BASE" using assms by (simp add: module_placed_def)
  moreover from this have "unat (ml_data L + word_of_nat i) = unat (ml_data L) + i"
    by (subst unat_add_u32) (simp_all add: unat_of_nat_u32 KERNEL_VIRTUAL_BASE_def)
  ultimately show ?thesis by (simp add: u32_nat)
qed

text \<open>A program in ring 3 that waits for keys, with the strings of \<open>program.s\<close> in its memory.\<close>

definition module_state :: "platform \<Rightarrow> byte list \<Rightarrow> module_layout \<Rightarrow> st \<Rightarrow> bool" where
  "module_state P keys L = (\<lambda>(c, k). ring3 P c \<and> listening keys k \<and>
     read_bytes (k_mem k) (ml_data L) (length module_data) = module_data)"

text \<open>The platform the program runs on: the kernel's tables and stack, a draining UART, a typist.\<close>

definition module_platform :: "platform \<Rightarrow> byte list \<Rightarrow> bool" where
  "module_platform P keys \<longleftrightarrow> platform_ok P \<and> kernel_stack_ok P \<and>
     transmitter_drains (p_hw P) SERIAL_COM1_BASE \<and> typist (p_hw P) keys"

text \<open>What a piece of the program does: its output on both consoles, the input left, ring 3 kept.\<close>

definition module_did :: "platform \<Rightarrow> byte list \<Rightarrow> byte list \<Rightarrow> byte list \<Rightarrow> byte list \<Rightarrow> st \<Rightarrow> st \<Rightarrow> bool" where
  "module_did P keys scr ser rest = (\<lambda>(c, k) (c', k'). ring3 P c' \<and> listening keys k' \<and> input keys k' = rest \<and>
     com1 k' = com1 k @ ser \<and> k_fb k' = screen_after scr (k_fb k))"

lemma module_did_trans:
  "module_did P keys a b r s s1 \<Longrightarrow> module_did P keys a' b' r' s1 s2 \<Longrightarrow> module_did P keys (a @ a') (b @ b') r' s s2"
  by (auto simp: module_did_def screen_after_append)

lemma ring3_segs: "c_seg c' = c_seg c \<Longrightarrow> ring3 P c' = ring3 P c"
  by (simp add: ring3_def cpl_def segs_kept_def)

lemma user_buffer_apart:
  assumes "kernel_stack_ok P" "in_obj a n x" "unat a + n \<le> unat KERNEL_VIRTUAL_BASE"
  shows "\<not> stack_area (p_stack P) (t_esp0 (p_tss P)) x" "x < KERNEL_VIRTUAL_BASE"
proof -
  have "unat a + n \<le> 4294967296" using assms(3) unat_lt_2p32 [of KERNEL_VIRTUAL_BASE] by linarith
  from in_obj_nowrap [OF this, of x] assms(2,3) show x: "x < KERNEL_VIRTUAL_BASE" by (auto simp: u32_nat)
  then show "\<not> stack_area (p_stack P) (t_esp0 (p_tss P)) x"
    using kernel_stack_above [OF assms(1), of x] by (auto simp: not_less [symmetric])
qed

text \<open>The registers at the \<open>int\<close> of a call, and the call up to there.\<close>

definition call_regs :: "u32 \<Rightarrow> u32 \<Rightarrow> u32 \<Rightarrow> u32 \<Rightarrow> cpu \<Rightarrow> cpu" where
  "call_regs num fd a n c = set_gpr EDX n (set_gpr ECX a (set_gpr EBX fd (set_gpr EAX num c)))"

lemma call_regs_seg [simp]: "c_seg (call_regs num fd a n c) = c_seg c"
  by (simp add: call_regs_def)

lemma call_regs_frame:
  "r_eax (user_frame ((call_regs num fd a n c)\<lparr>c_eip := ip\<rparr>)) = num" "r_ebx (user_frame ((call_regs num fd a n c)\<lparr>c_eip := ip\<rparr>)) = fd"
  "r_ecx (user_frame ((call_regs num fd a n c)\<lparr>c_eip := ip\<rparr>)) = a" "r_edx (user_frame ((call_regs num fd a n c)\<lparr>c_eip := ip\<rparr>)) = n"
  by (simp_all add: user_frame_def call_regs_def)

lemma call_runs:
  assumes P: "module_platform P keys" and ring: "ring3 P c" and len: "len = Imm n \<or> len = Mem p \<and> load32 (k_mem k) p = n"
    and a: "unat a + unat n \<le> unat KERNEL_VIRTUAL_BASE"
    and run: "do_syscall_in_C (p_hw P) (Some (user_frame ((call_regs num fd a n c)\<lparr>c_eip := ra\<rparr>))) k = Some (Some r', k')"
  obtains c' m where "exec (user_env P) (call_code num fd a len ra) (c, k) = Some (c', k'\<lparr>k_mem := m\<rparr>)" "ring3 P c'"
    "c_gpr c' EAX = r_eax r'" "agrees (p_stack P) (t_esp0 (p_tss P)) (k_mem k') m"
proof -
  let ?c = "call_regs num fd a n c"
  have ok: "platform_ok P" "kernel_stack_ok P" using P by (simp_all add: module_platform_def)
  have r: "ring3 P ?c" using ring ring3_segs [of ?c c P] by simp
  have "\<not> stack_area (p_stack P) (t_esp0 (p_tss P)) x" if "syscall_buffer (user_frame (?c\<lparr>c_eip := ra\<rparr>)) x" for x
    using that user_buffer_apart(1) [OF ok(2) _ a, of x] by (simp add: syscall_buffer_def call_regs_frame)
  then obtain m where m: "exec1 (user_env P) (INTR 0x80 ra) (?c, k) = Some (set_gpr EAX (r_eax r') (?c\<lparr>c_eip := ra\<rparr>), k'\<lparr>k_mem := m\<rparr>)"
    "agrees (p_stack P) (t_esp0 (p_tss P)) (k_mem k') m"
    using int80_runs [OF ok(1) _ _ _ _ run] r ok(2) by (auto simp: ring3_def kernel_stack_ok_def)
  have "exec (user_env P) (call_code num fd a len ra) (c, k) = Option.bind (exec1 (user_env P) (INTR 0x80 ra) (?c, k)) (exec (user_env P) [])"
    using len by (auto simp: call_code_def call_regs_def)
  moreover have "ring3 P (set_gpr EAX (r_eax r') (?c\<lparr>c_eip := ra\<rparr>))"
    using r ring3_segs [of "set_gpr EAX (r_eax r') (?c\<lparr>c_eip := ra\<rparr>)" ?c P] by simp
  ultimately show thesis
    using m by (intro that [of "set_gpr EAX (r_eax r') (?c\<lparr>c_eip := ra\<rparr>)" m]) (simp_all del: exec1.simps)
qed

lemma agrees_below: "kernel_stack_ok P \<Longrightarrow> agrees (p_stack P) (t_esp0 (p_tss P)) m m' \<Longrightarrow> x < KERNEL_VIRTUAL_BASE \<Longrightarrow> m' x = m x"
  using kernel_stack_above [of P x] by (auto simp: agrees_def not_less [symmetric])

lemma write_runs:
  assumes P: "module_platform P keys" and s: "ring3 P c" "listening keys k"
    and len: "len = Imm n \<or> len = Mem p \<and> load32 (k_mem k) p = n"
    and a: "a \<noteq> 0" "n \<noteq> 0" "unat a + unat n \<le> unat KERNEL_VIRTUAL_BASE" and bs: "read_bytes (k_mem k) a (unat n) = bs"
  obtains c' k' where "exec (user_env P) (call_code 4 1 a len ra) (c, k) = Some (c', k')"
    "module_did P keys bs bs (input keys k) (c, k) (c', k')" "\<And>x. x < KERNEL_VIRTUAL_BASE \<Longrightarrow> k_mem k' x = k_mem k x"
proof -
  let ?r = "user_frame ((call_regs 4 1 a n c)\<lparr>c_eip := ra\<rparr>)"
  have d: "transmitter_drains (p_hw P) SERIAL_COM1_BASE" and ks: "kernel_stack_ok P" using P by (simp_all add: module_platform_def)
  obtain k' where k': "do_syscall_in_C (p_hw P) (Some ?r) k = Some (Some (?r\<lparr>r_eax := r_edx ?r\<rparr>), k')" "com1 k' = com1 k @ bs"
    "k_fb k' = screen_after bs (k_fb k)" "k_kbd k' = k_kbd k" "k_mem k' = k_mem k" "k_tbl k' = k_tbl k" "only_output (k_tr k) (k_tr k')"
    using sys_write_call [OF d, of ?r bs k] a bs by (auto simp: call_regs_frame syscall_defs fst_fb_out)
  obtain c' m where m: "exec (user_env P) (call_code 4 1 a len ra) (c, k) = Some (c', k'\<lparr>k_mem := m\<rparr>)" "ring3 P c'"
    "agrees (p_stack P) (t_esp0 (p_tss P)) (k_mem k') m"
    using call_runs [OF P s(1) len a(3) k'(1)] by metis
  have "module_did P keys bs bs (input keys k) (c, k) (c', k'\<lparr>k_mem := m\<rparr>)"
    using m(2) s(2) k' listening_output [OF k'(4,6,7), of keys] by (simp add: module_did_def)
  with m(1) agrees_below [OF ks m(3)] k'(5) show thesis by (intro that [of c' "k'\<lparr>k_mem := m\<rparr>"]) simp_all
qed

lemma read_runs:
  assumes P: "module_platform P keys" and L: "module_placed L" and s: "ring3 P c" "listening keys k"
    and line: "line_edit 127 [] (input keys k) = Some (line, rest, scr, ser)"
  obtains c' k' where "exec (user_env P) (call_code 3 0 (ml_bss L) (Imm 128) ra) (c, k) = Some (c', k')"
    "module_did P keys scr ser rest (c, k) (c', k')" "c_gpr c' EAX = word_of_nat (length line)" "length line < 128"
    "read_bytes (k_mem k') (ml_bss L) (length line) = line"
    "\<And>x. x < KERNEL_VIRTUAL_BASE \<Longrightarrow> \<not> in_obj (ml_bss L) 128 x \<Longrightarrow> k_mem k' x = k_mem k x"
proof -
  let ?b = "ml_bss L" let ?r = "user_frame ((call_regs 3 0 ?b 128 c)\<lparr>c_eip := ra\<rparr>)"
  have ok: "transmitter_drains (p_hw P) SERIAL_COM1_BASE" "typist (p_hw P) keys" "kernel_stack_ok P"
    using P by (simp_all add: module_platform_def)
  have b: "?b \<noteq> 0" "unat ?b + unat (128 :: u32) \<le> unat KERNEL_VIRTUAL_BASE" using L by (auto simp: module_placed_def)
  obtain k' where k': "do_syscall_in_C (p_hw P) (Some ?r) k = Some (Some (?r\<lparr>r_eax := word_of_nat (length line)\<rparr>), k')"
    "length line < 128" "read_bytes (k_mem k') ?b (length line + 1) = line @ [0]" "input keys k' = rest" "listening keys k'"
    "com1 k' = com1 k @ ser" "k_fb k' = screen_after scr (k_fb k)" "\<And>x. \<not> in_obj ?b 128 x \<Longrightarrow> k_mem k' x = k_mem k x"
    using sys_read_call [OF ok(1,2), of ?r k line rest scr ser] s(2) line b(1) by (auto simp: call_regs_frame syscall_defs)
  obtain c' m where m: "exec (user_env P) (call_code 3 0 ?b (Imm 128) ra) (c, k) = Some (c', k'\<lparr>k_mem := m\<rparr>)" "ring3 P c'"
    "c_gpr c' EAX = word_of_nat (length line)" "agrees (p_stack P) (t_esp0 (p_tss P)) (k_mem k') m"
    using call_runs [OF P s(1) _ b(2) k'(1), of "Imm 128"] by auto
  have "m (?b + word_of_nat i) = k_mem k' (?b + word_of_nat i)" if "i < length line" for i
    using that k'(2) b(2) agrees_below [OF ok(3) m(4)] user_buffer_apart(2) [OF ok(3) in_obj_offset [of i 128 ?b]] by simp
  then have "read_bytes m ?b (length line) = read_bytes (k_mem k') ?b (length line)" by (rule read_bytes_cong)
  also have "\<dots> = line" using k'(3) by (simp add: read_bytes_def)
  finally have "read_bytes m ?b (length line) = line" .
  with m k' agrees_below [OF ok(3) m(4)] show thesis
    by (intro that [of c' "k'\<lparr>k_mem := m\<rparr>"]) (simp_all add: module_did_def)
qed

section \<open>The lines of the program\<close>

lemma read_bytes_slice:
  assumes "read_bytes m a (length (xs @ ys @ zs)) = xs @ ys @ zs"
  shows "read_bytes m (a + word_of_nat (length xs)) (length ys) = ys"
proof (rule nth_equalityI)
  fix i assume "i < length (read_bytes m (a + word_of_nat (length xs)) (length ys))"
  then have i: "i < length ys" by simp
  have "read_bytes m a (length (xs @ ys @ zs)) ! (length xs + i) = ys ! i" unfolding assms using i by (simp add: nth_append)
  with i show "read_bytes m (a + word_of_nat (length xs)) (length ys) ! i = ys ! i" by (simp add: read_bytes_def add.assoc)
qed simp

lemma module_state_keeps:
  assumes "module_state P keys L (c, k)" "module_did P keys scr ser rest (c, k) (c', k')"
    "\<And>x. in_obj (ml_data L) (length module_data) x \<Longrightarrow> k_mem k' x = k_mem k x"
  shows "module_state P keys L (c', k')"
proof -
  have "length module_data \<le> 4294967296" by (simp add: module_data_def msg_banner_def module_prompt_def msg_recv_def msg_end_def str_bytes_def)
  then have "read_bytes (k_mem k') (ml_data L) (length module_data) = read_bytes (k_mem k) (ml_data L) (length module_data)"
    using assms(3) by (intro read_bytes_cong) (simp add: in_obj_offset)
  with assms(1,2) show ?thesis by (simp add: module_state_def module_did_def)
qed

lemma text_runs:
  assumes P: "module_platform P keys" and L: "module_placed L" and s: "module_state P keys L (c, k)"
    and t: "module_data = xs @ t @ zs" "t \<noteq> []"
  obtains c' k' where "exec (user_env P) (call_code 4 1 (ml_data L + word_of_nat (length xs)) (Imm (word_of_nat (length t))) ra) (c, k) = Some (c', k')"
    "module_did P keys t t (input keys k) (c, k) (c', k')" "module_state P keys L (c', k')"
    "\<And>x. x < KERNEL_VIRTUAL_BASE \<Longrightarrow> k_mem k' x = k_mem k x"
proof -
  let ?a = "ml_data L + word_of_nat (length xs)" and ?n = "word_of_nat (length t) :: u32"
  have ks: "kernel_stack_ok P" using P by (simp add: module_platform_def)
  have top: "unat (ml_data L) + length xs + length t \<le> unat KERNEL_VIRTUAL_BASE"
    "unat (ml_data L) + length module_data \<le> unat KERNEL_VIRTUAL_BASE" "0 < unat (ml_data L)"
    using L by (simp_all add: module_placed_def t(1))
  then have lt: "length t < 4294967296" "length xs < 4294967296" "unat (ml_data L) + length xs < 4294967296"
    using unat_lt_2p32 [of KERNEL_VIRTUAL_BASE] by linarith+
  then have n: "unat ?n = length t" "unat ?a = unat (ml_data L) + length xs"
    by (simp_all add: unat_of_nat_u32 unat_add_u32)
  have a: "?a \<noteq> 0" "?n \<noteq> 0" "unat ?a + unat ?n \<le> unat KERNEL_VIRTUAL_BASE" using n top t(2) by (auto simp: u32_nat)
  have "read_bytes (k_mem k) ?a (unat ?n) = t"
    using s read_bytes_slice [of "k_mem k" "ml_data L" xs t zs] by (simp add: n module_state_def t(1))
  from write_runs [OF P _ _ _ a this, where len = "Imm ?n" and c = c and ra = ra] s
  obtain c' k' where k': "exec (user_env P) (call_code 4 1 ?a (Imm ?n) ra) (c, k) = Some (c', k')"
    "module_did P keys t t (input keys k) (c, k) (c', k')" "\<And>x. x < KERNEL_VIRTUAL_BASE \<Longrightarrow> k_mem k' x = k_mem k x"
    by (auto simp: module_state_def)
  have "module_state P keys L (c', k')"
    using module_state_keeps [OF s k'(2)] k'(3) user_buffer_apart(2) [OF ks _ top(2)] by blast
  from that [OF k'(1,2) this k'(3)] show thesis .
qed

text \<open>What the program prints for a line, and for the lines of a text.\<close>

definition module_reply :: "byte list \<Rightarrow> byte list" where
  "module_reply line = (if line = [] then [] else msg_recv @ line @ msg_end)"

primrec module_session :: "nat \<Rightarrow> byte list \<Rightarrow> (byte list \<times> byte list \<times> byte list) option" where
  "module_session 0 cs = Some ([], [], cs)"
| "module_session (Suc n) cs = (case line_edit 127 [] cs of
       None \<Rightarrow> None
     | Some (line, rest, scr, ser) \<Rightarrow> map_option (\<lambda>(scr', ser', rest').
         (module_prompt @ scr @ module_reply line @ scr', module_prompt @ ser @ module_reply line @ ser', rest'))
         (module_session n rest))"

lemma program_blocks:
  "take 5 (drop 0 (program_s L)) = map Ins (call_code 4 1 (ml_data L + word_of_nat (length ([] :: byte list))) (Imm (word_of_nat (length msg_banner))) (ml_line L 5))"
  "take 5 (drop 5 (program_s L)) = map Ins (call_code 4 1 (prompt_at L) (Imm (word_of_nat (length module_prompt))) (ml_line L 10))"
  "take 5 (drop 10 (program_s L)) = map Ins (call_code 3 0 (ml_bss L) (Imm 128) (ml_line L 15))"
  "take 1 (drop 17 (program_s L)) = map Ins [MOV_to_mem (str_len_at L) EAX]"
  "take 5 (drop 18 (program_s L)) = map Ins (call_code 4 1 (recv_at L) (Imm (word_of_nat (length msg_recv))) (ml_line L 23))"
  "take 5 (drop 23 (program_s L)) = map Ins (call_code 4 1 (ml_bss L) (Mem (str_len_at L)) (ml_line L 28))"
  "take 5 (drop 28 (program_s L)) = map Ins (call_code 4 1 (end_at L) (Imm (word_of_nat (length msg_end))) (ml_line L 33))"
  by (simp_all add: program_s_def call_code_def)

lemma program_jumps:
  "program_s L ! 15 = CMP EAX 0" "program_s L ! 16 = JLE 5" "program_s L ! 33 = JMP 5" "length (program_s L) = 34"
  by (simp_all add: program_s_def call_code_def user_loop_def)

lemma length_call_code [simp]: "length (call_code a b c d e) = 5"
  by (simp add: call_code_def)

section \<open>One turn of the loop\<close>

text \<open>Up to the test: the prompt, and the line read.\<close>

lemma ask_runs:
  assumes P: "module_platform P keys" and L: "module_placed L" and s: "module_state P keys L (c, k)"
    and line: "line_edit 127 [] (input keys k) = Some (line, rest, scr, ser)"
  obtains c' k' where "reaches (user_env P) (program_s L) (5, (c, k)) (if line = [] then 5 else 17, (c', k'))"
    "module_did P keys (module_prompt @ scr) (module_prompt @ ser) rest (c, k) (c', k')" "module_state P keys L (c', k')"
    "c_gpr c' EAX = word_of_nat (length line)" "length line < 128" "read_bytes (k_mem k') (ml_bss L) (length line) = line"
proof -
  let ?E = "user_env P" and ?prog = "program_s L"
  have ks: "kernel_stack_ok P" using P by (simp add: module_platform_def)
  have data: "module_data = msg_banner @ module_prompt @ (msg_recv @ msg_end)" "module_prompt \<noteq> []"
    by (simp_all add: module_data_def module_prompt_def)
  obtain c1 k1 where k1: "exec ?E (call_code 4 1 (prompt_at L) (Imm (word_of_nat (length module_prompt))) (ml_line L 10)) (c, k) = Some (c1, k1)"
    "module_did P keys module_prompt module_prompt (input keys k) (c, k) (c1, k1)" "module_state P keys L (c1, k1)"
    using text_runs [OF P L s data] unfolding prompt_at_def by metis
  have i1: "input keys k1 = input keys k" "ring3 P c1" "listening keys k1"
    using k1(2,3) by (simp_all add: module_did_def module_state_def)
  obtain c2 k2 where k2: "exec ?E (call_code 3 0 (ml_bss L) (Imm 128) (ml_line L 15)) (c1, k1) = Some (c2, k2)"
    "module_did P keys scr ser rest (c1, k1) (c2, k2)" "c_gpr c2 EAX = word_of_nat (length line)" "length line < 128"
    "read_bytes (k_mem k2) (ml_bss L) (length line) = line"
    "\<And>x. x < KERNEL_VIRTUAL_BASE \<Longrightarrow> \<not> in_obj (ml_bss L) 128 x \<Longrightarrow> k_mem k2 x = k_mem k1 x"
    using read_runs [OF P L i1(2,3), of line rest scr ser "ml_line L 15"] line i1(1) by metis
  let ?c3 = "c2\<lparr>c_flags := cmp_flags (c_gpr c2 EAX) 0 (c_flags c2)\<rparr>"
  have "sint (word_of_nat (length line) :: u32) = int (length line)"
    using k2(4) by (simp add: signed_take_bit_int_eq_self signed_of_nat)
  then have jle: "jle_taken (c_flags ?c3) \<longleftrightarrow> line = []" by (simp add: jle_cmp_zero k2(3))
  have b: "reaches ?E ?prog (5, (c, k)) (10, (c1, k1))" "reaches ?E ?prog (10, (c1, k1)) (15, (c2, k2))"
    using reaches_block [OF k1(1), of 5 ?prog] reaches_block [OF k2(1), of 10 ?prog] program_blocks(2,3) by simp_all
  have cmp: "reaches ?E ?prog (15, (c2, k2)) (16, (?c3, k2))"
    by (rule reaches_step) (simp add: prog_step_def program_jumps)
  have jump: "reaches ?E ?prog (16, (?c3, k2)) (if line = [] then 5 else 17, (?c3, k2))"
    using jle by (intro reaches_step) (simp add: prog_step_def program_jumps)
  note r = reaches_trans [OF reaches_trans [OF reaches_trans [OF b] cmp] jump]
  have did: "module_did P keys (module_prompt @ scr) (module_prompt @ ser) rest (c, k) (?c3, k2)"
    using module_did_trans [OF k1(2) k2(2)] ring3_segs [of ?c3 c2 P] by (simp add: module_did_def)
  have "k_mem k2 x = k_mem k1 x" if x: "in_obj (ml_data L) (length module_data) x" for x
  proof -
    have p: "unat (ml_data L) + length module_data \<le> unat (ml_bss L)" "unat (ml_bss L) + 128 \<le> unat KERNEL_VIRTUAL_BASE"
      using L by (simp_all add: module_placed_def)
    then have w: "unat (ml_data L) + length module_data \<le> 4294967296" "unat (ml_bss L) + 128 \<le> 4294967296"
      using unat_lt_2p32 [of KERNEL_VIRTUAL_BASE] by linarith+
    have "\<not> in_obj (ml_bss L) 128 x" using in_obj_nowrap [OF w(1), of x] in_obj_nowrap [OF w(2), of x] x p(1) by auto
    then show ?thesis using k2(6) user_buffer_apart(2) [OF ks x] p by simp
  qed
  moreover have "module_did P keys scr ser rest (c1, k1) (?c3, k2)"
    using k2(2) ring3_segs [of ?c3 c2 P] by (simp add: module_did_def)
  ultimately have "module_state P keys L (?c3, k2)" using module_state_keeps [OF k1(3)] by blast
  from that [OF r did this _ k2(4,5)] k2(3) show thesis by simp
qed

text \<open>Where the variable and the buffer lie.\<close>

lemma module_places:
  assumes "module_placed L"
  shows "in_obj (ml_data L) (length module_data) x \<Longrightarrow> \<not> in_obj (str_len_at L) 4 x"
    "in_obj (ml_bss L) 128 x \<Longrightarrow> \<not> in_obj (str_len_at L) 4 x"
    "in_obj (str_len_at L) 4 x \<Longrightarrow> x < KERNEL_VIRTUAL_BASE" "in_obj (ml_bss L) 128 x \<Longrightarrow> x < KERNEL_VIRTUAL_BASE"
proof -
  let ?n = "length module_data"
  have p: "unat (ml_data L) + ?n + 4 \<le> unat (ml_bss L)" "unat (ml_bss L) + 128 \<le> unat KERNEL_VIRTUAL_BASE"
    using assms by (simp_all add: module_placed_def)
  then have w: "unat (ml_data L) + ?n + 4 \<le> 4294967296" "unat (ml_bss L) + 128 \<le> 4294967296"
    "?n < 4294967296" "unat (ml_data L) + ?n < 4294967296"
    using unat_lt_2p32 [of KERNEL_VIRTUAL_BASE] by linarith+
  then have a: "unat (str_len_at L) = unat (ml_data L) + ?n" by (simp add: str_len_at_def unat_of_nat_u32 unat_add_u32)
  have "in_obj (ml_data L) ?n x \<longleftrightarrow> unat (ml_data L) \<le> unat x \<and> unat x < unat (ml_data L) + ?n"
    using w(1) by (intro in_obj_nowrap) linarith
  moreover have "in_obj (str_len_at L) 4 x \<longleftrightarrow> unat (ml_data L) + ?n \<le> unat x \<and> unat x < unat (ml_data L) + ?n + 4"
    using in_obj_nowrap [of "str_len_at L" 4 x] w(1) unfolding a by linarith
  moreover have "in_obj (ml_bss L) 128 x \<longleftrightarrow> unat (ml_bss L) \<le> unat x \<and> unat x < unat (ml_bss L) + 128"
    by (rule in_obj_nowrap [OF w(2)])
  ultimately show "in_obj (ml_data L) ?n x \<Longrightarrow> \<not> in_obj (str_len_at L) 4 x"
    "in_obj (ml_bss L) 128 x \<Longrightarrow> \<not> in_obj (str_len_at L) 4 x"
    "in_obj (str_len_at L) 4 x \<Longrightarrow> x < KERNEL_VIRTUAL_BASE" "in_obj (ml_bss L) 128 x \<Longrightarrow> x < KERNEL_VIRTUAL_BASE"
    using p unfolding word_less_nat_alt by linarith+
qed

text \<open>The variable \<open>str_len\<close> and the line in the buffer survive output.\<close>

lemma kept_below:
  assumes L: "module_placed L" and same: "\<And>x. x < KERNEL_VIRTUAL_BASE \<Longrightarrow> m' x = m x" and n: "n \<le> 128"
  shows "load32 m' (str_len_at L) = load32 m (str_len_at L)" "read_bytes m' (ml_bss L) n = read_bytes m (ml_bss L) n"
proof -
  have o: "m' (str_len_at L + word_of_nat j) = m (str_len_at L + word_of_nat j)" if "j < 4" for j
    using same module_places(3) [OF L in_obj_offset [OF that]] by simp
  show "load32 m' (str_len_at L) = load32 m (str_len_at L)"
    using o [of 0] o [of 1] o [of 2] o [of 3] by (intro load32_cong) simp_all
  have "m' (ml_bss L + word_of_nat i) = m (ml_bss L + word_of_nat i)" if "i < n" for i
    using same module_places(4) [OF L in_obj_offset [of i 128]] that n by simp
  then show "read_bytes m' (ml_bss L) n = read_bytes m (ml_bss L) n" by (rule read_bytes_cong)
qed

lemma store_len:
  assumes L: "module_placed L" and s: "module_state P keys L (c, k)"
    and line: "length line < 128" "read_bytes (k_mem k) (ml_bss L) (length line) = line"
  shows "module_state P keys L (c, k\<lparr>k_mem := store32 (str_len_at L) v (k_mem k)\<rparr>)"
    "read_bytes (store32 (str_len_at L) v (k_mem k)) (ml_bss L) (length line) = line"
    "module_did P keys [] [] (input keys k) (c, k) (c, k\<lparr>k_mem := store32 (str_len_at L) v (k_mem k)\<rparr>)"
proof -
  show did: "module_did P keys [] [] (input keys k) (c, k) (c, k\<lparr>k_mem := store32 (str_len_at L) v (k_mem k)\<rparr>)"
    using s by (simp add: module_did_def module_state_def)
  show "module_state P keys L (c, k\<lparr>k_mem := store32 (str_len_at L) v (k_mem k)\<rparr>)"
    using module_places(1) [OF L] by (intro module_state_keeps [OF s did]) (simp add: store32_other)
  have "store32 (str_len_at L) v (k_mem k) (ml_bss L + word_of_nat i) = k_mem k (ml_bss L + word_of_nat i)" if "i < length line" for i
    using that line(1) module_places(2) [OF L in_obj_offset [of i 128]] by (simp add: store32_other)
  then have "read_bytes (store32 (str_len_at L) v (k_mem k)) (ml_bss L) (length line) = read_bytes (k_mem k) (ml_bss L) (length line)"
    by (rule read_bytes_cong)
  with line(2) show "read_bytes (store32 (str_len_at L) v (k_mem k)) (ml_bss L) (length line) = line" by simp
qed

lemma buffer_runs:
  assumes P: "module_platform P keys" and L: "module_placed L" and s: "module_state P keys L (c, k)"
    and line: "length line < 128" "line \<noteq> []" "read_bytes (k_mem k) (ml_bss L) (length line) = line"
    "load32 (k_mem k) (str_len_at L) = word_of_nat (length line)"
  obtains c' k' where "exec (user_env P) (call_code 4 1 (ml_bss L) (Mem (str_len_at L)) ra) (c, k) = Some (c', k')"
    "module_did P keys line line (input keys k) (c, k) (c', k')" "module_state P keys L (c', k')"
proof -
  have ks: "kernel_stack_ok P" using P by (simp add: module_platform_def)
  have u: "unat (word_of_nat (length line) :: u32) = length line" using line(1) by (simp add: unat_of_nat_u32)
  have a: "ml_bss L \<noteq> 0" "(word_of_nat (length line) :: u32) \<noteq> 0"
    "unat (ml_bss L) + unat (word_of_nat (length line) :: u32) \<le> unat KERNEL_VIRTUAL_BASE"
    using L line(1,2) u by (auto simp: module_placed_def u32_nat)
  have bs: "read_bytes (k_mem k) (ml_bss L) (unat (word_of_nat (length line) :: u32)) = line" using line(3) by (simp only: u)
  obtain c' k' where k': "exec (user_env P) (call_code 4 1 (ml_bss L) (Mem (str_len_at L)) ra) (c, k) = Some (c', k')"
    "module_did P keys line line (input keys k) (c, k) (c', k')" "\<And>x. x < KERNEL_VIRTUAL_BASE \<Longrightarrow> k_mem k' x = k_mem k x"
    using write_runs [OF P _ _ _ a bs, where c = c and len = "Mem (str_len_at L)" and ra = ra] s line(4)
    by (auto simp: module_state_def)
  have "unat (ml_data L) + length module_data \<le> unat KERNEL_VIRTUAL_BASE" using L by (simp add: module_placed_def)
  then have "module_state P keys L (c', k')"
    using module_state_keeps [OF s k'(2)] k'(3) user_buffer_apart(2) [OF ks] by blast
  from that [OF k'(1,2) this] show thesis .
qed

lemma answer_runs:
  assumes P: "module_platform P keys" and L: "module_placed L" and s: "module_state P keys L (c, k)"
    and line: "length line < 128" "line \<noteq> []" "read_bytes (k_mem k) (ml_bss L) (length line) = line"
    and eax: "c_gpr c EAX = word_of_nat (length line)"
  obtains c' k' where "reaches (user_env P) (program_s L) (17, (c, k)) (5, (c', k'))"
    "module_did P keys (module_reply line) (module_reply line) (input keys k) (c, k) (c', k')" "module_state P keys L (c', k')"
proof -
  let ?E = "user_env P" and ?prog = "program_s L" and ?k1 = "k\<lparr>k_mem := store32 (str_len_at L) (c_gpr c EAX) (k_mem k)\<rparr>"
  have data: "module_data = (msg_banner @ module_prompt) @ msg_recv @ msg_end" "msg_recv \<noteq> []"
    "module_data = (msg_banner @ module_prompt @ msg_recv) @ msg_end @ []" "msg_end \<noteq> []"
    by (simp_all add: module_data_def msg_recv_def msg_end_def)
  note s1 = store_len [OF L s line(1,3), of "c_gpr c EAX"]
  obtain c2 k2 where k2: "exec ?E (call_code 4 1 (recv_at L) (Imm (word_of_nat (length msg_recv))) (ml_line L 23)) (c, ?k1) = Some (c2, k2)"
    "module_did P keys msg_recv msg_recv (input keys ?k1) (c, ?k1) (c2, k2)" "module_state P keys L (c2, k2)"
    "\<And>x. x < KERNEL_VIRTUAL_BASE \<Longrightarrow> k_mem k2 x = k_mem ?k1 x"
    using text_runs [OF P L s1(1) data(1,2), of "ml_line L 23"] unfolding recv_at_def by metis
  have m2: "load32 (k_mem k2) (str_len_at L) = word_of_nat (length line)" "read_bytes (k_mem k2) (ml_bss L) (length line) = line"
    using kept_below [OF L k2(4), where n = "length line"] line(1) s1(2) eax by simp_all
  obtain c3 k3 where k3: "exec ?E (call_code 4 1 (ml_bss L) (Mem (str_len_at L)) (ml_line L 28)) (c2, k2) = Some (c3, k3)"
    "module_did P keys line line (input keys k2) (c2, k2) (c3, k3)" "module_state P keys L (c3, k3)"
    using buffer_runs [OF P L k2(3) line(1,2) m2(2,1)] by metis
  obtain c4 k4 where k4: "exec ?E (call_code 4 1 (end_at L) (Imm (word_of_nat (length msg_end))) (ml_line L 33)) (c3, k3) = Some (c4, k4)"
    "module_did P keys msg_end msg_end (input keys k3) (c3, k3) (c4, k4)" "module_state P keys L (c4, k4)"
    using text_runs [OF P L k3(3) data(3,4), of "ml_line L 33"] unfolding end_at_def by metis
  have store: "exec ?E [MOV_to_mem (str_len_at L) EAX] (c, k) = Some (c, ?k1)" by simp
  have r: "reaches ?E ?prog (17, (c, k)) (18, (c, ?k1))" "reaches ?E ?prog (18, (c, ?k1)) (23, (c2, k2))"
    "reaches ?E ?prog (23, (c2, k2)) (28, (c3, k3))" "reaches ?E ?prog (28, (c3, k3)) (33, (c4, k4))"
    using reaches_block [OF store, of 17 ?prog] reaches_block [OF k2(1), of 18 ?prog] reaches_block [OF k3(1), of 23 ?prog]
      reaches_block [OF k4(1), of 28 ?prog] program_blocks(4-7) by simp_all
  have jump: "reaches ?E ?prog (33, (c4, k4)) (5, (c4, k4))"
    by (rule reaches_step) (simp add: prog_step_def program_jumps)
  have i: "input keys k3 = input keys k" using k2(2) k3(2) by (simp add: module_did_def)
  have "module_did P keys (module_reply line) (module_reply line) (input keys k) (c, k) (c4, k4)"
    using module_did_trans [OF module_did_trans [OF module_did_trans [OF s1(3) k2(2)] k3(2)] k4(2)] i line(2)
    by (simp add: module_reply_def)
  from that [OF reaches_trans [OF reaches_trans [OF reaches_trans [OF reaches_trans [OF r(1,2)] r(3)] r(4)] jump] this k4(3)]
  show thesis .
qed

section \<open>The session\<close>

lemma turns_run:
  assumes P: "module_platform P keys" and L: "module_placed L"
  shows "module_state P keys L (c, k) \<Longrightarrow> module_session n (input keys k) = Some (scr, ser, rest) \<Longrightarrow>
    \<exists>c' k'. reaches (user_env P) (program_s L) (5, (c, k)) (5, (c', k')) \<and>
      module_did P keys scr ser rest (c, k) (c', k') \<and> module_state P keys L (c', k')"
proof (induction n arbitrary: c k scr ser)
  case 0
  then show ?case by (intro exI [of _ c] exI [of _ k]) (auto simp: reaches_refl module_did_def module_state_def)
next
  case (Suc n)
  obtain line r1 scr1 ser1 scr2 ser2 where l: "line_edit 127 [] (input keys k) = Some (line, r1, scr1, ser1)"
    and t: "module_session n r1 = Some (scr2, ser2, rest)"
    and eq: "scr = (module_prompt @ scr1) @ module_reply line @ scr2" "ser = (module_prompt @ ser1) @ module_reply line @ ser2"
    using Suc.prems(2) by (auto split: option.splits)
  obtain c1 k1 where k1: "reaches (user_env P) (program_s L) (5, (c, k)) (if line = [] then 5 else 17, (c1, k1))"
    "module_did P keys (module_prompt @ scr1) (module_prompt @ ser1) r1 (c, k) (c1, k1)" "module_state P keys L (c1, k1)"
    "c_gpr c1 EAX = word_of_nat (length line)" "length line < 128" "read_bytes (k_mem k1) (ml_bss L) (length line) = line"
    using ask_runs [OF P L Suc.prems(1) l] by metis
  have i1: "input keys k1 = r1" using k1(2) by (simp add: module_did_def)
  obtain c2 k2 where k2: "reaches (user_env P) (program_s L) (5, (c, k)) (5, (c2, k2))" "module_state P keys L (c2, k2)"
    "module_did P keys (module_reply line) (module_reply line) r1 (c1, k1) (c2, k2)"
  proof (cases "line = []")
    case True
    with k1 i1 show ?thesis by (intro that [of c1 k1]) (simp_all add: module_reply_def module_did_def)
  next
    case False
    obtain c2 k2 where "reaches (user_env P) (program_s L) (17, (c1, k1)) (5, (c2, k2))" "module_state P keys L (c2, k2)"
      "module_did P keys (module_reply line) (module_reply line) (input keys k1) (c1, k1) (c2, k2)"
      using answer_runs [OF P L k1(3,5) False k1(6,4)] by metis
    with k1(1) False i1 that [of c2 k2] reaches_trans show ?thesis by simp
  qed
  have "input keys k2 = r1" using k2(3) by (simp add: module_did_def)
  then obtain c3 k3 where "reaches (user_env P) (program_s L) (5, (c2, k2)) (5, (c3, k3))"
    "module_did P keys scr2 ser2 rest (c2, k2) (c3, k3)" "module_state P keys L (c3, k3)"
    using Suc.IH [OF k2(2)] t by metis
  moreover from this have "module_did P keys scr ser rest (c, k) (c3, k3)"
    using module_did_trans [OF module_did_trans [OF k1(2) k2(3)]] by (simp add: eq)
  ultimately show ?case using reaches_trans [OF k2(1)] by blast
qed

lemma module_session_runs:
  assumes "module_platform P keys" and "module_placed L" and "module_state P keys L (c, k)"
    and "module_session n (input keys k) = Some (scr, ser, rest)"
  shows "\<exists>t c' k'. prog_steps (user_env P) (program_s L) t (0, (c, k)) = Some (user_loop, (c', k')) \<and> ring3 P c' \<and>
    com1 k' = com1 k @ msg_banner @ ser \<and> k_fb k' = screen_after (msg_banner @ scr) (k_fb k) \<and> input keys k' = rest"
proof -
  have data: "module_data = [] @ msg_banner @ (module_prompt @ msg_recv @ msg_end)" "msg_banner \<noteq> []"
    by (simp_all add: module_data_def msg_banner_def)
  obtain c1 k1 where k1: "exec (user_env P) (call_code 4 1 (ml_data L + word_of_nat (length ([] :: byte list)))
      (Imm (word_of_nat (length msg_banner))) (ml_line L 5)) (c, k) = Some (c1, k1)"
    "module_did P keys msg_banner msg_banner (input keys k) (c, k) (c1, k1)" "module_state P keys L (c1, k1)"
    using text_runs [OF assms(1-3) data] by metis
  have start: "reaches (user_env P) (program_s L) (0, (c, k)) (5, (c1, k1))"
    using reaches_block [OF k1(1), of 0 "program_s L"] program_blocks(1) by simp
  have "input keys k1 = input keys k" using k1(2) by (simp add: module_did_def)
  then obtain c2 k2 where k2: "reaches (user_env P) (program_s L) (5, (c1, k1)) (5, (c2, k2))"
    "module_did P keys scr ser rest (c1, k1) (c2, k2)"
    using turns_run [OF assms(1,2) k1(3), of n scr ser rest] assms(4) by auto
  from reaches_trans [OF start k2(1)] module_did_trans [OF k1(2) k2(2)] show ?thesis
    by (auto simp: reaches_def user_loop_def module_did_def)
qed

text \<open>
  C6: A session of the sample program \<open>modules/program.s\<close> on the processor, through the system
  call gate: from its first instruction, when the waiting characters and the keys to come
  make \<open>n\<close> complete lines, the program reaches \<open>user_loop\<close> again after \<open>n\<close> turns, in
  ring 3. On the serial line and on the screen appeared exactly the banner and for each line
  the prompt, the echo of the editing, and, unless the line is empty, the line between
  quotes; every string is sent with its terminating NUL. No character behind the last
  line is lost. The keys arrive at the interrupt points of the loop of \<open>SYS_READ\<close> and in \<open>hlt\<close>,
  at most one at each.
\<close>

theorem sample_module_session:
  assumes "module_platform P keys" and "module_placed L" and "module_state P keys L (c, k)"
    and "module_session n (input keys k) = Some (scr, ser, rest)"
  shows "\<exists>t c' k'. prog_steps (user_env P) (program_s L) t (0, (c, k)) = Some (user_loop, (c', k')) \<and> ring3 P c' \<and>
    com1 k' = com1 k @ msg_banner @ ser \<and> k_fb k' = screen_after (msg_banner @ scr) (k_fb k) \<and> input keys k' = rest"
  by (rule module_session_runs [OF assms])

text \<open>The program at the bottom of memory, and the keys H, I, Enter and Enter.\<close>

definition module_at_bottom :: module_layout where
  "module_at_bottom = \<lparr>ml_data = 0x200, ml_bss = 0x400, ml_line = (\<lambda>i. word_of_nat (4 * i))\<rparr>"

definition module_keys :: "byte list" where
  "module_keys = [0x23, 0xA3, 0x17, 0x97, 0x1C, 0x9C, 0x1C, 0x9C]"

lemma module_keys_text: "keys_text False module_keys = [104, 105, 10, 10]"
  by code_simp

lemma length_module_data: "length module_data = 302"
  by (simp add: module_data_def msg_banner_def module_prompt_def msg_recv_def msg_end_def str_bytes_def)

lemma module_keys_session:
  "module_session 2 [104, 105, 10, 10] =
     Some (module_prompt @ [104, 105, 10] @ (msg_recv @ [104, 105] @ msg_end) @ module_prompt @ [10],
       module_prompt @ [104, 105, 13, 10] @ (msg_recv @ [104, 105] @ msg_end) @ module_prompt @ [13, 10], [])"
proof -
  have e: "line_edit 127 [] [104, 105, 10, 10] = Some ([104, 105], [10], [104, 105, 10], [104, 105, 13, 10])"
    "line_edit 127 [] [10] = Some ([], [], [10], [13, 10])"
    by (simp_all add: also_echo_def)
  show ?thesis by (simp add: numeral_2_eq_2 e module_reply_def del: line_edit.simps)
qed

theorem sample_module_session_witness:
  "\<exists>t c' k'. prog_steps (user_env (sample_platform (typist_hw module_keys))) (program_s module_at_bottom) t
       (0, (user_cpu 0 0xBFFFFF00, kernel_up\<lparr>k_mem := put_bytes 0x200 module_data (\<lambda>_. 0)\<rparr>)) = Some (user_loop, (c', k')) \<and>
     com1 k' = msg_banner @ module_prompt @ [104, 105, 13, 10] @ msg_recv @ [104, 105] @ msg_end @ module_prompt @ [13, 10]"
proof -
  let ?P = "sample_platform (typist_hw module_keys)" and ?k = "kernel_up\<lparr>k_mem := put_bytes 0x200 module_data (\<lambda>_. 0)\<rparr>"
  have p: "module_platform ?P module_keys"
    using sample_platform_ok typist_hw_drains typist_typist_hw
    by (simp add: module_platform_def kernel_stack_ok_def KERNEL_VIRTUAL_BASE_def)
  have l: "module_placed module_at_bottom"
    by (simp add: module_placed_def module_at_bottom_def length_module_data KERNEL_VIRTUAL_BASE_def)
  have st: "module_state ?P module_keys module_at_bottom (user_cpu 0 0xBFFFFF00, ?k)"
    using sample_segs read_put_bytes [of module_data "0x200" "\<lambda>_. 0"] length_module_data
    by (simp add: module_state_def ring3_def module_at_bottom_def kernel_up_input)
  have s: "module_session 2 (input module_keys ?k) =
      Some (module_prompt @ [104, 105, 10] @ (msg_recv @ [104, 105] @ msg_end) @ module_prompt @ [10],
        module_prompt @ [104, 105, 13, 10] @ (msg_recv @ [104, 105] @ msg_end) @ module_prompt @ [13, 10], [])"
    using module_keys_session by (simp only: input_mem kernel_up_input module_keys_text)
  have c: "com1 ?k = []" by (simp add: com1_def)
  from sample_module_session [OF p l st s] show ?thesis unfolding c by auto
qed

end
