(* ===== verification/Loader.thy ===== *)
theory Loader
  imports Isr_Stub Paging
begin

text \<open>
  \<open>arch/x86/boot/loader.s\<close>, \<open>arch/x86/cpu/idt.s\<close> and \<open>arch/x86/cpu/io.s\<close>: the entry code that turns
  paging on and calls \<open>kmain\<close>, the static page directory it uses, the routines the C code calls
  to load the processor's tables and to access ports, and the drop into ring 3. Addresses of
  labels are parameters.
\<close>

section \<open>The entry code\<close>

definition boot_page_directory_data :: "paging_addrs \<Rightarrow> u32 list" where
  "boot_page_directory_data a =
     [VIRTUAL_TO_PHYSICAL (a_boot_page_table1 a) + 3] @ replicate (768 - 1) 0 @
     [VIRTUAL_TO_PHYSICAL (a_boot_page_table1 a) + 3] @ replicate (1024 - 768 - 1) 0"

definition loader :: "u32 \<Rightarrow> u32 \<Rightarrow> instr list" where
  "loader dir higher_half =
     [MOV EAX (Imm (dir - KERNEL_VIRTUAL_BASE)), MOV_to_CR3 EAX,
      MOV_from_CR0 EAX, OR_imm EAX 0x80000000, MOV_to_CR0 EAX,
      MOV EAX (Imm higher_half), JMP_to EAX higher_half]"

abbreviation (input) KERNEL_STACK_SIZE :: "'a::numeral" where "KERNEL_STACK_SIZE \<equiv> 4096"

definition higher_half :: "u32 \<Rightarrow> u32 \<Rightarrow> instr list" where
  "higher_half kernel_stack ra =
     [MOV ESP (Imm (kernel_stack + KERNEL_STACK_SIZE)), PUSH (Reg EBX), CALL C_kmain ra]"

section \<open>Routines called from C\<close>

definition load_gdt :: "instr list" where
  "load_gdt =
     [MOV EAX (Stk 4), LGDT EAX,
      MOV16 EAX 0x10, MOVS DS EAX, MOVS SS EAX, MOVS ES EAX, MOVS FS EAX, MOVS GS EAX,
      JMP_far 0x08, RET]"

definition load_page_directory :: "instr list" where
  "load_page_directory = [MOV EAX (Stk 4), MOV_to_CR3 EAX, RET]"

definition enable_paging :: "instr list" where
  "enable_paging = [MOV_from_CR0 EAX, OR_imm EAX 0x80000000, MOV_to_CR0 EAX, RET]"

definition load_tss :: "instr list" where
  "load_tss = [MOV16_stk EAX 4, LTR EAX, RET]"

definition load_idt :: "instr list" where
  "load_idt = [MOV EAX (Stk 4), LIDT EAX, RET]"

definition outb_code :: "instr list" where
  "outb_code = [MOV16_stk EDX 4, MOV8_stk EAX 8, OUT_DX_AL, RET]"

definition inb_code :: "instr list" where
  "inb_code = [MOV16_stk EDX 4, IN_AL_DX, RET]"

definition enable_interrupts_code :: "instr list" where
  "enable_interrupts_code = [STI, RET]"

definition disable_interrupts_code :: "instr list" where
  "disable_interrupts_code = [CLI, RET]"

definition enter_user_mode_code :: "instr list" where
  "enter_user_mode_code =
     [MOV EAX (Stk 4), MOV EBX (Stk 8),
      MOV16 ECX 0x23, MOVS DS ECX, MOVS ES ECX, MOVS FS ECX, MOVS GS ECX,
      PUSH (Imm 0x23), PUSH (Reg EBX), PUSH (Imm 0x202), PUSH (Imm 0x1B), PUSH (Reg EAX)] @ [IRET]"

section \<open>The bootstrap address space\<close>

lemma aligned_plus_flags: "aligned_page x \<Longrightarrow> x + 3 = x OR 3"
proof -
  assume al: "aligned_page x"
  have "\<not> bit x n \<or> \<not> bit (3 :: u32) n" for n
    using aligned_bits [OF al, of n] by (cases "n < 2") (auto simp: bit_numeral_rec bit_Suc less_Suc_eq numeral_2_eq_2 dest: bit_imp_le_length)
  then show ?thesis by (intro disjunctive_add) simp
qed

lemma boot_directory_entry:
  assumes "addrs_ok a" "i < 1024"
  shows "boot_page_directory_data a ! i = (if i = 0 \<or> i = 768 then VIRTUAL_TO_PHYSICAL (a_boot_page_table1 a) OR 3 else 0)"
  using assms aligned_plus_flags [OF aligned_diff, of "a_boot_page_table1 a"]
  by (auto simp: boot_page_directory_data_def addrs_ok_def nth_append nth_Cons')

lemma boot_translate:
  assumes "addrs_ok a"
  shows "translate (tables_at a s) (boot_page_directory_data a) user va =
    (if \<not> user \<and> va < 0x400000 then Some va
     else if \<not> user \<and> 0xC0000000 \<le> va \<and> va < 0xC0400000 then Some (va - 0xC0000000) else None)"
proof -
  define q where "q = unat va div 4096"
  have al: "aligned_page (a_boot_page_table1 a)"
    and t: "tables_at a s (VIRTUAL_TO_PHYSICAL (a_boot_page_table1 a)) = Some boot_page_table1"
    using assms by (auto simp: addrs_ok_def tables_at_def V2P_inj)
  have lt: "q div 1024 < 1024" "q mod 1024 < 1024" using page_number_bound [of va] by (auto simp: q_def)
  have idx: "unat (drop_bit 22 va) = q div 1024" "unat (take_bit 10 (drop_bit 12 va)) = q mod 1024"
    by (simp_all add: q_def pd_index pt_index)
  have r: "va < 0x400000 \<longleftrightarrow> q div 1024 = 0" "0xC0000000 \<le> va \<and> va < 0xC0400000 \<longleftrightarrow> q div 1024 = 768"
    using user_page_ranges(3) [of va] by (simp_all add: q_def u32_nat div_mult2_eq [symmetric] div_eq_0_iff)
  have pa: "word_of_nat (q mod 1024) * 4096 + take_bit 12 va = va - word_of_nat (q div 1024) * 0x400000"
  proof -
    have "(word_of_nat q :: u32) = word_of_nat (q div 1024) * 1024 + word_of_nat (q mod 1024)"
      by (metis div_mult_mod_eq of_nat_add of_nat_mult of_nat_numeral)
    then show ?thesis using page_decomp [of va, folded q_def] by (simp add: algebra_simps)
  qed
  have e: "boot_page_table1 ! (q mod 1024) = word_of_nat (q mod 1024) * 4096 OR 3" using lt by (simp add: boot_page_table1_def)
  note fr = entry_fields [OF aligned_diff [OF al]] and fq = entry_fields [OF aligned_frame_number]
  show ?thesis
    unfolding translate_def idx boot_directory_entry [OF assms lt(1)] Let_def r
    using pa by (auto simp: fr fq t e)
qed

lemma paging_init_boot:
  assumes "addrs_ok a" "boot_page_directory s = boot_page_directory_data a"
  shows "paging_init a s = s"
proof -
  have "aligned_page (a_boot_page_table1 a)" using assms(1) by (simp add: addrs_ok_def)
  from aligned_plus_flags [OF aligned_diff [OF this]] have e: "VIRTUAL_TO_PHYSICAL (a_boot_page_table1 a) OR 3 = VIRTUAL_TO_PHYSICAL (a_boot_page_table1 a) + 3" by simp
  have "(boot_page_directory s)[0 := VIRTUAL_TO_PHYSICAL (a_boot_page_table1 a) + 3, 768 := VIRTUAL_TO_PHYSICAL (a_boot_page_table1 a) + 3] = boot_page_directory s"
    using assms(2) by (simp add: boot_page_directory_data_def list_update_append)
  then show ?thesis by (simp add: paging_init_def page_flags e)
qed

section \<open>Running the code\<close>

text \<open>What \<open>kmain\<close> finds when the loader calls it.\<close>

definition kmain_called :: "u32 \<Rightarrow> u32 \<Rightarrow> u32 \<Rightarrow> cpu \<Rightarrow> kernel \<Rightarrow> st \<Rightarrow> bool" where
  "kmain_called dir kernel_stack ra c k = (\<lambda>(c', k').
     c_cr3 c' = VIRTUAL_TO_PHYSICAL dir \<and> bit (c_cr0 c') 31 \<and> c_seg c' = c_seg c \<and>
     c_gpr c' ESP = kernel_stack + KERNEL_STACK_SIZE - 8 \<and> words_at (k_mem k') (c_gpr c' ESP) [ra, c_gpr c EBX] \<and>
     (\<exists>m. k' = k\<lparr>k_tr := Load_CR3 (VIRTUAL_TO_PHYSICAL dir) # k_tr k, k_mem := m\<rparr> \<and>
        agrees kernel_stack (kernel_stack + KERNEL_STACK_SIZE) (k_mem k) m))"

lemma exec_Nil_bind: "Option.bind r (exec E []) = r"
  by (cases r) simp_all

lemma loader_calls_kmain:
  "\<exists>s. exec E (loader dir hh @ higher_half kernel_stack ra) (c, k) = back_at ra (e_call E C_kmain s) \<and>
     kmain_called dir kernel_stack ra c k s"
proof -
  let ?c = "set_gpr ESP (kernel_stack + 4096) ((set_gpr EAX hh c)\<lparr>c_cr3 := VIRTUAL_TO_PHYSICAL dir, c_cr0 := c_cr0 c OR 0x80000000\<rparr>)"
  let ?k = "log_event (Load_CR3 (VIRTUAL_TO_PHYSICAL dir)) k" and ?hi = "kernel_stack + 4096"
  have f0: "framed kernel_stack ?hi ?k (?c, []) (?c, ?k)" by (rule framed_start) simp
  have f: "framed kernel_stack ?hi ?k (fold apush [c_gpr c EBX, ra] (?c, [])) (fold push_word [c_gpr c EBX, ra] (?c, ?k))"
    by (rule framed_pushes [OF f0]) simp
  let ?s = "push_word ra (push_word (c_gpr c EBX) (?c, ?k))"
  have run: "exec E (loader dir hh @ higher_half kernel_stack ra) (c, k) = back_at ra (e_call E C_kmain ?s)"
  proof -
    have "exec E (loader dir hh) (c, k) = Some ((set_gpr EAX hh c)\<lparr>c_cr3 := VIRTUAL_TO_PHYSICAL dir, c_cr0 := c_cr0 c OR 0x80000000\<rparr>, ?k)"
      by (simp add: loader_def VIRTUAL_TO_PHYSICAL_def set_gpr_def)
    then show ?thesis by (simp add: exec_append higher_half_def exec_Nil_bind)
  qed
  let ?c2 = "set_gpr ESP (?hi - 8) ?c"
  have a: "fold apush [c_gpr c EBX, ra] (?c, []) = (?c2, [ra, c_gpr c EBX])"
    by (simp add: apush_def)
  note f = f [unfolded a]
  have "?s = (?c2, snd ?s)" using framedD(1) [OF f] by (simp add: prod_eq_iff)
  moreover have "snd ?s = ?k\<lparr>k_mem := k_mem (snd ?s)\<rparr>" using framed_kernel [OF f] by simp
  moreover have "words_at (k_mem (snd ?s)) (?hi - 8) [ra, c_gpr c EBX]" "agrees kernel_stack ?hi (k_mem k) (k_mem (snd ?s))"
    using framedD(2,4) [OF f] by (simp_all add: log_event_def)
  moreover have "bit (c_cr0 c OR 0x80000000 :: u32) 31" by (simp add: bit_or_iff bit_numeral_rec)
  ultimately have "kmain_called dir kernel_stack ra c k (?c2, snd ?s)"
    unfolding kmain_called_def prod.case by (auto simp: log_event_def)
  with run \<open>?s = (?c2, snd ?s)\<close> show ?thesis by metis
qed

text \<open>\<open>struct gdt_ptr\<close> and \<open>struct idt_ptr\<close>, packed: a 16-bit limit and behind it the 32-bit base.\<close>

definition gdt_ptr_at :: "memory \<Rightarrow> u32 \<Rightarrow> gdt_state \<Rightarrow> bool" where
  "gdt_ptr_at m p g \<longleftrightarrow> load16 m p = gdtr_limit g \<and> load32 m (p + 2) = gdtr_base g"

definition idt_ptr_at :: "memory \<Rightarrow> u32 \<Rightarrow> idt_state \<Rightarrow> bool" where
  "idt_ptr_at m p s \<longleftrightarrow> load16 m p = idtr_limit s \<and> load32 m (p + 2) = idtr_base s"

text \<open>A call of one of the routines, seen from the C code: its event, and its return.\<close>

definition asm_returns :: "io_event \<Rightarrow> u32 \<Rightarrow> st \<Rightarrow> st option \<Rightarrow> bool" where
  "asm_returns e ra s r \<longleftrightarrow> (case r of None \<Rightarrow> False | Some (c', k') \<Rightarrow>
     k' = log_event e (snd s) \<and> c_eip c' = ra \<and> c_gpr c' ESP = c_gpr (fst s) ESP + 4 \<and>
     (\<forall>x. x \<notin> {EAX, EDX, ESP} \<longrightarrow> c_gpr c' x = c_gpr (fst s) x) \<and>
     c_flags c' AND NOT 0x200 = c_flags (fst s) AND NOT 0x200 \<and> c_cr0 c' = c_cr0 (fst s))"

lemma load16_word: "load16 m p = ucast (load32 m p)"
  by (rule bit_word_eqI) (auto simp: load16_def load32_def bit_simps)

lemma routine_args: "words_at m p [ra, x] \<Longrightarrow> load32 m p = ra \<and> load32 m (p + 4) = x"
  by (simp add: words_at_Cons)

lemma routines_return:
  assumes "words_at (k_mem k) (c_gpr c ESP) [ra, x]"
  shows "asm_returns (Lgdt (load16 (k_mem k) x) (load32 (k_mem k) (x + 2))) ra (c, k) (exec E load_gdt (c, k))"
    "\<exists>c' k'. exec E load_gdt (c, k) = Some (c', k') \<and> c_seg c' = (\<lambda>s. if s = CS then 0x08 else 0x10)"
    "asm_returns (Lidt (load16 (k_mem k) x) (load32 (k_mem k) (x + 2))) ra (c, k) (exec E load_idt (c, k))"
    "asm_returns (Ltr (ucast x)) ra (c, k) (exec E load_tss (c, k))"
    "asm_returns (Load_CR3 x) ra (c, k) (exec E load_page_directory (c, k))"
    "\<exists>c' k'. exec E load_page_directory (c, k) = Some (c', k') \<and> c_cr3 c' = x"
  using routine_args [OF assms]
  by (simp_all add: load_gdt_def load_idt_def load_tss_def load_page_directory_def asm_returns_def return_word_def pop_word_def
      log_event_def load16_word fun_eq_iff all_sreg)

lemma enable_paging_runs:
  "load32 (k_mem k) (c_gpr c ESP) = ra \<Longrightarrow> \<exists>c'. exec E enable_paging (c, k) = Some (c', k) \<and> bit (c_cr0 c') 31 \<and> c_eip c' = ra"
  by (simp add: enable_paging_def return_word_def pop_word_def bit_or_iff bit_numeral_rec)

text \<open>The processor after \<open>enter_user_mode\<close>, from the processor before it.\<close>

definition ring3_cpu :: "u32 \<Rightarrow> u32 \<Rightarrow> cpu \<Rightarrow> cpu" where
  "ring3_cpu ip sp c = c\<lparr>c_gpr := (c_gpr c)(EAX := ip, EBX := sp, ECX := low16 (c_gpr c ECX) 0x23, ESP := sp),
     c_seg := (\<lambda>s. if s = CS then 0x1B else 0x23), c_eip := ip, c_flags := 0x202\<rparr>"

lemma enter_user_mode_runs:
  assumes "cpl c = 0" and "words_at (k_mem k) (c_gpr c ESP) [ra, ip, sp]" and "outer_seg (e_gdt E) 0x23 = 0x23"
  shows "\<exists>m. exec E enter_user_mode_code (c, k) = Some (ring3_cpu ip sp c, k\<lparr>k_mem := m\<rparr>) \<and>
    agrees (c_gpr c ESP - 64) (c_gpr c ESP + 12) (k_mem k) m"
proof -
  let ?pre = "[MOV EAX (Stk 4), MOV EBX (Stk 8), MOV16 ECX 0x23, MOVS DS ECX, MOVS ES ECX, MOVS FS ECX, MOVS GS ECX,
      PUSH (Imm 0x23), PUSH (Reg EBX), PUSH (Imm 0x202), PUSH (Imm 0x1B), PUSH (Reg EAX)]"
  let ?lo = "c_gpr c ESP - 64" and ?hi = "c_gpr c ESP + 12"
  let ?c = "c\<lparr>c_gpr := (c_gpr c)(EAX := ip, EBX := sp, ECX := low16 (c_gpr c ECX) 0x23, ESP := c_gpr c ESP - 20),
     c_seg := (c_seg c)(DS := 0x23, ES := 0x23, FS := 0x23, GS := 0x23)\<rparr>"
  have f: "framed ?lo ?hi k (c, [ra, ip, sp]) (c, k)" by (rule framed_here [OF assms(2)]) simp
  have c: "set_gpr ESP (c_gpr c ESP - 20) (set_seg GS 0x23 (set_seg FS 0x23 (set_seg ES 0x23 (set_seg DS 0x23
      (set_gpr ECX (low16 (c_gpr c ECX) 0x23) (set_gpr EBX sp (set_gpr EAX ip c))))))) = ?c"
    by (rule cpu.equality) (auto simp: fun_eq_iff)
  have "aexec ?pre (c, [ra, ip, sp]) = Some (?c, [ip, 0x1B, 0x202, sp, 0x23, ra, ip, sp])"
    unfolding c [symmetric] by (simp add: apush_def)
  from aexec_sim [OF f this] obtain s where s: "exec E ?pre (c, k) = Some s"
    "framed ?lo ?hi k (?c, [ip, 0x1B, 0x202, sp, 0x23, ra, ip, sp]) s"
    by fastforce
  have "unat (0x1B AND 3 :: u32) > cpl ?c" using assms(1) by (simp add: cpl_def)
  note r = iret_outer_ring [OF s(2) this, of "e_gdt E"]
  have "outer_segs (e_gdt E) (set_seg SS (ucast (0x23 :: u32)) ((set_seg CS (ucast (0x1B :: u32)) (set_gpr ESP sp ?c))\<lparr>c_eip := ip, c_flags := 0x202\<rparr>)) =
      ring3_cpu ip sp c"
    using assms(3) by (intro cpu.equality) (auto simp: outer_segs_def ring3_cpu_def fun_eq_iff, auto intro: sreg.exhaust)
  with r s(1) have "exec E enter_user_mode_code (c, k) = Some (ring3_cpu ip sp c, snd s)"
    unfolding enter_user_mode_code_def exec_append by simp
  then show ?thesis using framed_kernel [OF s(2)] framedD(4) [OF s(2)] by (metis snd_conv)
qed

section \<open>Properties\<close>

text \<open>
  C19: The loader brings the kernel up to \<open>kmain\<close>. It points CR3 at the static page directory,
  sets the paging bit, jumps to the higher half and calls \<open>kmain\<close> on the kernel's stack with the
  Multiboot pointer of \<open>ebx\<close> as its argument; memory changes in the kernel's stack only. Through
  the static directory a supervisor access reaches the first 4 MiB of memory at their own
  addresses, so the code goes on where it stands, and again from 0xC0000000 on, where the
  kernel is linked; every other access, and every access of ring 3, faults. \<open>paging_init\<close>
  finds the directory as it would write it.
\<close>

theorem loader_enters_kmain:
  assumes "addrs_ok a"
  shows "(\<exists>s. exec E (loader dir hh @ higher_half kernel_stack ra) (c, k) = back_at ra (e_call E C_kmain s) \<and>
      kmain_called dir kernel_stack ra c k s) \<and>
    translate (tables_at a ps) (boot_page_directory_data a) user va =
      (if \<not> user \<and> va < 0x400000 then Some va
       else if \<not> user \<and> 0xC0000000 \<le> va \<and> va < 0xC0400000 then Some (va - 0xC0000000) else None) \<and>
    paging_init a (ps\<lparr>boot_page_directory := boot_page_directory_data a\<rparr>) = ps\<lparr>boot_page_directory := boot_page_directory_data a\<rparr>"
  using loader_calls_kmain boot_translate [OF assms] paging_init_boot [OF assms] by simp

theorem loader_enters_kmain_witness:
  "(\<exists>s. kmain_called 0xC0108000 0xC0120000 0xC0100040 (user_cpu 0x100010 0) kernel_up s) \<and>
   translate (tables_at sample_addrs paging_bss) (boot_page_directory_data sample_addrs) False 0x100010 = Some 0x100010 \<and>
   translate (tables_at sample_addrs paging_bss) (boot_page_directory_data sample_addrs) False 0xC0100030 = Some 0x100030 \<and>
   translate (tables_at sample_addrs paging_bss) (boot_page_directory_data sample_addrs) True 0x100010 = None"
  using loader_enters_kmain [OF sample_ok(1), of "kernel_env (sample_platform (const_hw 0))" "0xC0108000" "0xC0100030" "0xC0120000" "0xC0100040"
      "user_cpu 0x100010 0" kernel_up paging_bss False "0x100010"]
    loader_enters_kmain [OF sample_ok(1), of "kernel_env (sample_platform (const_hw 0))" "0xC0108000" "0xC0100030" "0xC0120000" "0xC0100040"
      "user_cpu 0x100010 0" kernel_up paging_bss False "0xC0100030"]
    loader_enters_kmain [OF sample_ok(1), of "kernel_env (sample_platform (const_hw 0))" "0xC0108000" "0xC0100030" "0xC0120000" "0xC0100040"
      "user_cpu 0x100010 0" kernel_up paging_bss True "0x100010"]
  by simp blast

text \<open>
  C29: The routines of \<open>loader.s\<close> and \<open>idt.s\<close> do to the processor what the C functions that call
  them assume. Called with the pointer to a \<open>struct gdt_ptr\<close> or \<open>struct idt_ptr\<close> whose fields are those
  that \<open>gdt_init\<close> and \<open>idt_init\<close> set, \<open>load_gdt\<close> and \<open>load_idt\<close> load exactly that limit and base;
  \<open>load_tss\<close> loads the selector it is given, \<open>load_page_directory\<close> CR3; each returns to its caller and
  changes only the scratch registers. The four together give the events of the C functions'
  models, in their order, and \<open>load_gdt\<close> leaves the kernel's segments in all segment registers.
\<close>

theorem table_routines:
  assumes "words_at (k_mem k) (c_gpr c ESP) [ra, x]"
    and "gdt_init gdt_addr tss_addr (g, trg) = (g', trg')" and "idt_init idt_addr stubs (i, tri) = (i', tri')"
    and "paging_setup_user_process a mem ms sz (ps, trp) = (ps', trp')"
  shows "(gdt_ptr_at (k_mem k) x g' \<longrightarrow> asm_returns (hd (tl trg')) ra (c, k) (exec E load_gdt (c, k)) \<and>
       (\<exists>c' k'. exec E load_gdt (c, k) = Some (c', k') \<and> c_seg c' = (\<lambda>s. if s = CS then 0x08 else 0x10))) \<and>
    (x = SEGMENT_TSS \<longrightarrow> asm_returns (hd trg') ra (c, k) (exec E load_tss (c, k))) \<and>
    (idt_ptr_at (k_mem k) x i' \<longrightarrow> asm_returns (hd tri') ra (c, k) (exec E load_idt (c, k))) \<and>
    (x = VIRTUAL_TO_PHYSICAL (a_user_page_directory a) \<longrightarrow> asm_returns (hd trp') ra (c, k) (exec E load_page_directory (c, k)) \<and>
       (\<exists>c' k'. exec E load_page_directory (c, k) = Some (c', k') \<and> c_cr3 c' = x)) \<and>
    tl (tl trg') = trg \<and> tl tri' = tri \<and> tl trp' = trp"
proof -
  have "trg' = Ltr (ucast SEGMENT_TSS) # Lgdt (gdtr_limit g') (gdtr_base g') # trg" using assms(2) by (auto simp: gdt_init_def Let_def)
  moreover have "tri' = Lidt (idtr_limit i') (idtr_base i') # tri" using assms(3) by (auto simp: idt_init_def Let_def)
  moreover have "trp' = Load_CR3 (VIRTUAL_TO_PHYSICAL (a_user_page_directory a)) # trp"
    using assms(4) by (auto simp: paging_setup_user_process_def Let_def)
  ultimately show ?thesis
    using routines_return [OF assms(1), of E] by (auto simp: gdt_ptr_at_def idt_ptr_at_def simp del: exec.simps)
qed

text \<open>A stack with the argument 0xC0120F00, and there the limit and base of the sample tables.\<close>

definition call_mem :: memory where
  "call_mem = store32 0xC0120F00 0x4000002F (store32 0xC0120F04 0xC010
     (store32 0xC0120F80 0xC0100777 (store32 0xC0120F84 0xC0120F00 (\<lambda>_. 0))))"

lemma call_mem_simps:
  "words_at call_mem 0xC0120F80 [0xC0100777, 0xC0120F00]" "load16 call_mem 0xC0120F00 = 0x2F" "load32 call_mem 0xC0120F02 = 0xC0104000"
  by (simp_all add: words_at_Cons call_mem_def load16_def load32_def store32_def)

theorem table_routines_witness:
  "\<exists>c' k'. exec (kernel_env (sample_platform (const_hw 0))) load_gdt (user_cpu 0 0xC0120F80, kernel_up\<lparr>k_mem := call_mem\<rparr>) = Some (c', k') \<and>
     k' = log_event (Lgdt 0x2F 0xC0104000) (kernel_up\<lparr>k_mem := call_mem\<rparr>) \<and> c_eip c' = 0xC0100777 \<and> c_seg c' SS = 0x10"
proof -
  let ?k = "kernel_up\<lparr>k_mem := call_mem\<rparr>" and ?c = "user_cpu 0 0xC0120F80" and ?g = "fst (gdt_init 0xC0104000 0xC0104040 (gdt_bss, []))"
  let ?E = "kernel_env (sample_platform (const_hw 0))"
  have g: "gdt_init 0xC0104000 0xC0104040 (gdt_bss, []) = (?g, [Ltr 0x28, Lgdt 0x2F 0xC0104000])" "gdtr_limit ?g = 0x2F" "gdtr_base ?g = 0xC0104000"
    by (simp_all add: gdt_init_def Let_def write_tss_def gdt_set_gate_def segment_defs)
  obtain i' tri' where i: "idt_init 0xC0105000 sample_stubs (idt_bss, []) = (i', tri')" by fastforce
  obtain ps' trp' where p: "paging_setup_user_process sample_addrs (\<lambda>_. 0) 0 0 (paging_bss, []) = (ps', trp')" by fastforce
  have "gdt_ptr_at (k_mem ?k) 0xC0120F00 ?g" by (simp add: gdt_ptr_at_def call_mem_simps g(2,3))
  moreover have "words_at (k_mem ?k) (c_gpr ?c ESP) [0xC0100777, 0xC0120F00]" using call_mem_simps(1) by simp
  ultimately have "asm_returns (Lgdt 0x2F 0xC0104000) 0xC0100777 (?c, ?k) (exec ?E load_gdt (?c, ?k)) \<and>
      (\<exists>c' k'. exec ?E load_gdt (?c, ?k) = Some (c', k') \<and> c_seg c' = (\<lambda>s. if s = CS then 0x08 else 0x10))"
    using table_routines [OF _ g(1) i p, of ?k ?c "0xC0100777" "0xC0120F00" ?E] by (metis list.sel(1,3))
  then show ?thesis by (auto simp: asm_returns_def simp del: exec.simps)
qed

lemma interrupt_flag:
  fixes x :: u32
  shows "(x OR 0x200) AND - 513 = x AND - 513" "bit (x OR 0x200) 9" "\<not> bit (x AND - 513) 9"
proof -
  have n: "- 513 = NOT (0x200 :: u32)" by simp
  show "(x OR 0x200) AND - 513 = x AND - 513" "\<not> bit (x AND - 513) 9"
    unfolding n by (simp_all only: bit.conj_disj_distrib2 bit.conj_cancel_right or.right_neutral bit_and_iff bit_not_iff) (simp add: bit_numeral_rec)
  show "bit (x OR 0x200) 9" by (simp add: bit_or_iff bit_numeral_rec)
qed

lemmas port_defs = outb_code_def inb_code_def enable_interrupts_code_def disable_interrupts_code_def asm_returns_def return_word_def
  pop_word_def log_event_def load16_word inb_def outb_def enable_interrupts_def disable_interrupts_def Let_def

lemma port_args:
  assumes "words_at (k_mem k) (c_gpr c ESP) [ra, port, val]"
  shows "load32 (k_mem k) (c_gpr c ESP) = ra" "load32 (k_mem k) (c_gpr c ESP + 4) = port" "k_mem k (c_gpr c ESP + 8) = ucast val"
proof -
  show "load32 (k_mem k) (c_gpr c ESP) = ra" "load32 (k_mem k) (c_gpr c ESP + 4) = port"
    using assms by (simp_all add: words_at_Cons)
  have v: "load32 (k_mem k) (c_gpr c ESP + 8) = val" using assms by (simp add: words_at_Cons ac_simps)
  show "k_mem k (c_gpr c ESP + 8) = ucast val" unfolding v [symmetric] by (rule bit_word_eqI) (auto simp: load32_def bit_simps)
qed

lemma outb_runs:
  assumes "words_at (k_mem k) (c_gpr c ESP) [ra, port, val]"
  shows "asm_returns (Out (ucast port) (ucast val)) ra (c, k) (exec E outb_code (c, k)) \<and>
    outb (ucast port) (ucast val) (k_tr k) = Out (ucast port) (ucast val) # k_tr k"
  by (simp add: port_defs port_args [OF assms])

lemma inb_runs:
  assumes "words_at (k_mem k) (c_gpr c ESP) [ra, port, val]"
  shows "\<exists>c' v. inb (e_hw E) (ucast port) (k_tr k) = (v, In (ucast port) v # k_tr k) \<and>
    exec E inb_code (c, k) = Some (c', log_event (In (ucast port) v) k) \<and> ucast (c_gpr c' EAX) = v \<and>
    asm_returns (In (ucast port) v) ra (c, k) (exec E inb_code (c, k))"
  by (simp add: port_defs port_args [OF assms])

lemma sti_runs:
  assumes "words_at (k_mem k) (c_gpr c ESP) [ra, port, val]"
  shows "\<exists>c'. exec E enable_interrupts_code (c, k) = Some (c', k\<lparr>k_tr := enable_interrupts (k_tr k)\<rparr>) \<and>
    bit (c_flags c') 9 = interrupts_on (enable_interrupts (k_tr k)) \<and>
    asm_returns Sti ra (c, k) (exec E enable_interrupts_code (c, k))"
  by (simp add: port_defs port_args [OF assms] interrupt_flag)

lemma cli_runs:
  assumes "words_at (k_mem k) (c_gpr c ESP) [ra, port, val]"
  shows "\<exists>c'. exec E disable_interrupts_code (c, k) = Some (c', k\<lparr>k_tr := disable_interrupts (k_tr k)\<rparr>) \<and>
    bit (c_flags c') 9 = interrupts_on (disable_interrupts (k_tr k)) \<and>
    asm_returns Cli ra (c, k) (exec E disable_interrupts_code (c, k))"
  by (simp add: port_defs port_args [OF assms] interrupt_flag)

text \<open>
  The port routines of \<open>io.s\<close> are the functions by which the drivers are modelled. \<open>outb\<close> writes
  its byte to its port, \<open>inb\<close> returns in \<open>al\<close> what the port answers, and both record exactly that access;
  \<open>enable_interrupts\<close> and \<open>disable_interrupts\<close> record themselves and set and clear the interrupt flag,
  which then agrees with \<open>interrupts_on\<close>. Each returns to its caller and keeps every register but the
  scratch registers.
\<close>

lemma port_routines:
  assumes "words_at (k_mem k) (c_gpr c ESP) [ra, port, val]"
  shows "asm_returns (Out (ucast port) (ucast val)) ra (c, k) (exec E outb_code (c, k)) \<and>
    outb (ucast port) (ucast val) (k_tr k) = Out (ucast port) (ucast val) # k_tr k \<and>
    (\<exists>c' v. inb (e_hw E) (ucast port) (k_tr k) = (v, In (ucast port) v # k_tr k) \<and>
       exec E inb_code (c, k) = Some (c', log_event (In (ucast port) v) k) \<and> ucast (c_gpr c' EAX) = v \<and>
       asm_returns (In (ucast port) v) ra (c, k) (exec E inb_code (c, k))) \<and>
    (\<exists>c'. exec E enable_interrupts_code (c, k) = Some (c', k\<lparr>k_tr := enable_interrupts (k_tr k)\<rparr>) \<and>
       bit (c_flags c') 9 = interrupts_on (enable_interrupts (k_tr k)) \<and>
       asm_returns Sti ra (c, k) (exec E enable_interrupts_code (c, k))) \<and>
    (\<exists>c'. exec E disable_interrupts_code (c, k) = Some (c', k\<lparr>k_tr := disable_interrupts (k_tr k)\<rparr>) \<and>
       bit (c_flags c') 9 = interrupts_on (disable_interrupts (k_tr k)) \<and>
       asm_returns Cli ra (c, k) (exec E disable_interrupts_code (c, k)))"
  using outb_runs [OF assms, of E] inb_runs [OF assms, of E] sti_runs [OF assms, of E] cli_runs [OF assms, of E] by blast

end
