(* ===== verification/Startup.thy ===== *)
theory Startup
  imports Loader Machine_Run
begin

text \<open>
  The parts put together: the loader, \<open>kmain\<close>, the drop into ring 3, and the machine that runs from
  then on. The compiled C code between the assembly routines is represented by what the calling
  convention promises of it.
\<close>

text \<open>The addresses the linker gives: 48 stubs and the system call entry apart, the stack in the kernel's half.\<close>

definition layout_linked :: "layout \<Rightarrow> bool" where
  "layout_linked L \<longleftrightarrow> length (l_isr_stubs L) = 48 \<and> distinct (l_int128 L # l_isr_stubs L) \<and>
     KERNEL_VIRTUAL_BASE \<le> l_kernel_stack L \<and> unat (l_kernel_stack L) + KERNEL_STACK_SIZE < 4294967296"

definition compiled :: "layout \<Rightarrow> (fname \<Rightarrow> residue) \<Rightarrow> bool" where
  "compiled L res \<longleftrightarrow> cdecl (l_kernel_stack L) 1 (res C_do_syscall) \<and> cdecl (l_kernel_stack L) 3 (res C_interrupt_handler)"

definition booted_platform :: "layout \<Rightarrow> hardware \<Rightarrow> (fname \<Rightarrow> residue) \<Rightarrow> u32 \<Rightarrow> u32 \<Rightarrow> machine \<Rightarrow> platform" where
  "booted_platform L hw res ret_isr ret_syscall m = \<lparr>p_hw = hw, p_res = res, p_tss = tss (m_gdt m), p_gdt = m_gdt m,
     p_idt = m_idt m, p_stubs = l_isr_stubs L, p_int128 = l_int128 L, p_ret_isr = ret_isr, p_ret_syscall = ret_syscall,
     p_stack = l_kernel_stack L\<rparr>"

lemma booted_platform_simps [simp]:
  "p_hw (booted_platform L hw res a b m) = hw" "p_gdt (booted_platform L hw res a b m) = m_gdt m"
  "p_tss (booted_platform L hw res a b m) = tss (m_gdt m)" "p_stack (booted_platform L hw res a b m) = l_kernel_stack L"
  by (simp_all add: booted_platform_def)

text \<open>The platform that \<open>kmain\<close> leaves behind.\<close>

lemma booted_platform_ok:
  assumes "layout_linked L" "compiled L res" "boot_ready L m"
    and "m_gdt m' = tss_set_kernel_stack (l_kernel_stack L + 4096) (fst (gdt_init (l_gdt L) (l_tss L) (m_gdt m, [])))"
    and "m_idt m' = syscall_init (l_int128 L) (fst (idt_init (l_idt L) (l_isr_stubs L) (m_idt m, [])))"
  shows "platform_ok (booted_platform L hw res a b m')" "kernel_stack_ok (booted_platform L hw res a b m')"
    "ring3 (booted_platform L hw res a b m') (ring3_cpu ip sp c)" "outer_seg (m_gdt m') 0x23 = 0x23"
proof -
  let ?P = "booted_platform L hw res a b m'"
  show "platform_ok ?P"
    using assms(1-3,5) platform_tables [of "m_idt m" "l_idt L" ?P "[]"]
    by (simp add: booted_platform_def layout_linked_def compiled_def boot_ready_def prod_eq_iff)
  have top: "t_esp0 (tss (m_gdt m')) = l_kernel_stack L + 4096" by (simp add: assms(4) tss_set_kernel_stack_def)
  have "unat (l_kernel_stack L + 4096) = unat (l_kernel_stack L) + 4096"
    using assms(1) by (subst unat_add_u32) (simp_all add: layout_linked_def)
  then show "kernel_stack_ok ?P" using assms(1) by (simp add: kernel_stack_ok_def layout_linked_def top)
  have kept: "segs_kept (m_gdt m') (ring3_cpu ip sp c)" for ip sp c
    unfolding assms(4) by (rule user_segs_kept [of "m_gdt m" _ _ "[]"]) (use assms(3) in \<open>auto simp: boot_ready_def ring3_cpu_def prod_eq_iff\<close>)
  then show "ring3 ?P (ring3_cpu ip sp c)" by (simp add: ring3_def cpl_def ring3_cpu_def)
  show "outer_seg (m_gdt m') 0x23 = 0x23" using kept [of 0 0 c] by (simp add: segs_kept_def ring3_cpu_def)
qed

text \<open>The Multiboot information is not in the kernel's stack, so the loader's pushes leave it.\<close>

lemma module_given_agrees:
  assumes "module_given m mb" "agrees lo hi m m'" "\<And>x. in_obj mb 24 x \<Longrightarrow> \<not> stack_area lo hi x"
  shows "module_given m' mb"
proof -
  have same: "m' (mb + word_of_nat j) = m (mb + word_of_nat j)" if "j < 24" for j
    using assms(2,3) in_obj_offset [OF that, of mb] by (simp add: agrees_def)
  have "load32 m' mb = load32 m mb" "load32 m' (mb + 20) = load32 m (mb + 20)"
    using same [of 0] same [of 1] same [of 2] same [of 3] same [of 20] same [of 21] same [of 22] same [of 23]
    by (auto intro!: load32_cong simp: add.assoc)
  with assms(1) show ?thesis by (simp add: module_given_def multiboot_info_at_def)
qed

text \<open>\<open>kmain\<close> on the state in which the loader calls it.\<close>

lemma loader_boots:
  assumes hw: "typist hw keys" "transmitter_drains hw SERIAL_COM1_BASE" "keyboard_drains hw" and ready: "boot_ready L m"
    and mb: "module_given (k_mem (m_k m)) (c_gpr c EBX)"
      "\<And>x. in_obj (c_gpr c EBX) 24 x \<Longrightarrow> \<not> stack_area (l_kernel_stack L) (l_kernel_stack L + 4096) x"
    and called: "kmain_called dir (l_kernel_stack L) ra c (m_k m) s"
  obtains m' where "kmain L hw (load32 (k_mem (snd s)) (c_gpr (fst s) ESP + 4)) (m\<lparr>m_k := snd s\<rparr>) = Some (Entered_user 0 0xBFFFFFFB, m')"
    "booted L (m\<lparr>m_k := snd s\<rparr>) m'" "k_tbl (m_k m') 33 = Some Keyboard_interrupt_handler" "k_tbl (m_k m') 36 = Some Serial_interrupt_handler"
    "m_gdt m' = tss_set_kernel_stack (l_kernel_stack L + 4096) (fst (gdt_init (l_gdt L) (l_tss L) (m_gdt m, [])))"
    "m_idt m' = syscall_init (l_int128 L) (fst (idt_init (l_idt L) (l_isr_stubs L) (m_idt m, [])))"
    "\<forall>c1 c2. pic_master (k_tr (m_k m')) c1 = master_remapped \<and> pic_slave (k_tr (m_k m')) c2 = slave_remapped"
    "listening keys (m_k m')" "keyboard_silent hw \<longrightarrow> input keys (m_k m') = typed_text keys m"
    "m_paging m' = module_paging L (c_gpr c EBX) (m\<lparr>m_k := snd s\<rparr>)"
proof -
  obtain mem where k: "snd s = (m_k m)\<lparr>k_tr := Load_CR3 (VIRTUAL_TO_PHYSICAL dir) # k_tr (m_k m), k_mem := mem\<rparr>"
    "agrees (l_kernel_stack L) (l_kernel_stack L + 4096) (k_mem (m_k m)) mem"
    and w: "words_at (k_mem (snd s)) (c_gpr (fst s) ESP) [ra, c_gpr c EBX]"
    using called by (cases s) (auto simp: kmain_called_def)
  have arg: "load32 (k_mem (snd s)) (c_gpr (fst s) ESP + 4) = c_gpr c EBX" using w by (simp add: words_at_Cons)
  have "boot_ready L (m\<lparr>m_k := snd s\<rparr>)" using ready by (simp add: boot_ready_def k(1))
  moreover have "module_given (k_mem (m_k (m\<lparr>m_k := snd s\<rparr>))) (c_gpr c EBX)"
    using module_given_agrees [OF mb(1) k(2) mb(2)] by (simp add: k(1))
  ultimately obtain m' where m': "kmain L hw (c_gpr c EBX) (m\<lparr>m_k := snd s\<rparr>) = Some (Entered_user 0 0xBFFFFFFB, m')"
    "booted L (m\<lparr>m_k := snd s\<rparr>) m'"
    "m_gdt m' = tss_set_kernel_stack (l_kernel_stack L + 4096) (fst (gdt_init (l_gdt L) (l_tss L) (m_gdt m, [])))"
    "m_idt m' = syscall_init (l_int128 L) (fst (idt_init (l_idt L) (l_isr_stubs L) (m_idt m, [])))"
    "\<forall>c1 c2. pic_master (k_tr (m_k m')) c1 = master_remapped \<and> pic_slave (k_tr (m_k m')) c2 = slave_remapped"
    "listening keys (m_k m')" "keyboard_silent hw \<longrightarrow> input keys (m_k m') = typed_text keys (m\<lparr>m_k := snd s\<rparr>)"
    "m_paging m' = module_paging L (c_gpr c EBX) (m\<lparr>m_k := snd s\<rparr>)"
    using kmain_up [OF hw, of L "m\<lparr>m_k := snd s\<rparr>" "c_gpr c EBX"] by auto
  moreover have "typed_text keys (m\<lparr>m_k := snd s\<rparr>) = typed_text keys m" by (simp add: k(1) typed_text_def keys_left_def)
  ultimately show thesis by (intro that [of m']) (simp_all add: arg booted_def)
qed

text \<open>What \<open>enter_user_mode\<close> pushes on the kernel's stack does not touch the user's half of memory.\<close>

lemma kernel_push_above:
  assumes "KERNEL_VIRTUAL_BASE + 64 \<le> p" "p \<le> 0xFFFFFFF0" "x < KERNEL_VIRTUAL_BASE"
  shows "\<not> stack_area (p - 64) (p + 12) x"
proof
  assume a: "stack_area (p - 64) (p + 12) x"
  have p: "unat KERNEL_VIRTUAL_BASE + 64 \<le> unat p" "unat p \<le> 0xFFFFFFF0"
    using assms(1,2) by (simp_all add: KERNEL_VIRTUAL_BASE_def u32_nat)
  then have "unat (p + 12) = unat p + 12" by (subst unat_add_u32) simp_all
  moreover have "unat (p - 64) = unat p - 64" using p by (subst unat_sub) (simp_all add: u32_nat)
  moreover from calculation have "unat p - 64 \<le> unat x" using stack_area_numerals [OF a] by (simp add: u32_nat)
  ultimately show False using assms(3) p by (simp add: u32_nat)
qed

text \<open>What holds in every state of the running system, from the state \<open>(c0, k0)\<close> in which ring 3 was entered.\<close>

definition running :: "platform \<Rightarrow> st \<Rightarrow> st \<Rightarrow> bool" where
  "running P = (\<lambda>(c0, k0) (c, k). ring3 P c \<and> c_cr0 c = c_cr0 c0 \<and> c_cr3 c = c_cr3 c0 \<and> kbd_inv (k_kbd k) \<and>
     k_tbl k 33 = Some Keyboard_interrupt_handler \<and> k_tbl k 36 = Some Serial_interrupt_handler \<and>
     (\<exists>ps. privileged (k_tr k) = ps @ privileged (k_tr k0) \<and> set ps \<subseteq> {Sti, Hlt}) \<and>
     (\<forall>ch. pic_setup (pic_master (k_tr k) ch) = pic_setup master_remapped \<and> pic_setup (pic_slave (k_tr k) ch) = pic_setup slave_remapped))"

lemma machine_running:
  assumes "platform_ok P" "kernel_stack_ok P" "ring3 P c0" "machine_run P (c0, k0) es (c, k)" "kbd_inv (k_kbd k0)"
    "k_tbl k0 33 = Some Keyboard_interrupt_handler" "k_tbl k0 36 = Some Serial_interrupt_handler"
    "\<forall>c1 c2. pic_master (k_tr k0) c1 = master_remapped \<and> pic_slave (k_tr k0) c2 = slave_remapped" "own_traps es"
  shows "running P (c0, k0) (c, k)"
proof -
  obtain kd where kd: "direct_run P (c0, k0) es (c, kd)" "off_stack P kd k"
    using machine_to_direct [OF assms(1,2) _ assms(4,9)] assms(3) by auto
  obtain ks where "kernel_run (p_hw P) k0 ks kd" "\<forall>r. K_call r \<in> set ks \<longrightarrow> own_buffers r"
    using direct_kernel [OF kd(1) assms(9)] by auto
  then have "tame k0 kd" using run_tame by blast
  then have t: "tame k0 k" using kd(2) by (auto simp: off_stack_def)
  moreover have "ring3 P c \<and> c_cr0 c = c_cr0 c0 \<and> c_cr3 c = c_cr3 c0" using direct_ring3 [OF kd(1)] assms(3) by simp
  ultimately show ?thesis
    using assms(5-8) privileged_run [of "k_tr k0" "k_tr k"] pic_setup_run [of "k_tr k0" "k_tr k"]
    by (simp add: running_def tame_def)
qed

end
