(* ===== verification/Spec2Isabelle.thy ===== *)
theory Spec2Isabelle
  imports Kheap_Limits Shell Kbd_Race Sample_Module Startup
begin

text \<open>
  LittleOS, a teaching kernel for 32-bit x86, and its user programs.

  \<^bold>\<open>The program and its parts.\<close> GRUB loads a higher-half kernel and one module, the shell. The
  assembly in \<open>arch/x86/boot/loader.s\<close> turns paging on and calls \<open>kmain\<close>, which clears the
  screen, sets up COM1, the segment and interrupt tables, the interrupt controllers, the page
  directory, the keyboard and the heap, enables interrupts, builds the address space of the
  user process and drops into ring 3. From then on the kernel is entered by interrupts
  (keyboard and serial input, both into one ring buffer) and by \<open>int 0x80\<close>. The shell reads
  lines and prints answers through a small C library over these system calls.

  \<^bold>\<open>Theories and sources.\<close>
  \<^item> \<open>Prelude\<close>: word types of \<open>include/types.h\<close>, C strings, byte-addressed memory, closed forms of
    counting loops. \<open>Port_IO\<close>: \<open>include/arch/x86/io.h\<close>; every port access and privileged
    instruction is an event of a trace, newest first.
  \<^item> \<open>Keyboard\<close>, \<open>Kbd_Race\<close>: \<open>drivers/keyboard.c\<close>; \<open>Fifo_Spec\<close>: the queue contract it implements.
    \<open>Framebuffer\<close>, \<open>Serial\<close>, \<open>Pic\<close>: the other files of \<open>drivers/\<close>.
  \<^item> \<open>Isr_Table\<close>, \<open>Isr\<close>: \<open>arch/x86/cpu/isr.c\<close>, with waiting for interrupts. \<open>Gdt\<close>, \<open>Idt\<close>, \<open>Paging\<close>:
    \<open>arch/x86/cpu/gdt.c\<close>, \<open>arch/x86/cpu/idt.c\<close>, \<open>arch/x86/mmu/paging.c\<close>.
  \<^item> \<open>Kheap\<close>, \<open>Kheap_Correct\<close>, \<open>Kheap_Props\<close>, \<open>Kheap_Limits\<close>: \<open>kernel/kheap.c\<close>.
  \<^item> \<open>Typist\<close>: the person at the keyboard, whose keys arrive as interrupts; it has no source.
  \<^item> \<open>Syscall\<close>, \<open>Syscall_Safety\<close>: \<open>kernel/syscall.c\<close>. \<open>Kconsole\<close>, \<open>Kmain\<close>, \<open>Boot_Steps\<close>, \<open>Boot\<close>:
    \<open>kernel/kmain.c\<close> and \<open>kheap_print_stats\<close>. \<open>Kernel_Run\<close>: the running kernel as a step relation
    labelled with its entries.
  \<^item> \<open>Libc_String\<close>, \<open>Libc_Stdio\<close>: \<open>userland/libc/src/\<close>; \<open>User_Process\<close>: the library on the kernel's
    system calls; \<open>Tokenize\<close>, \<open>Shell\<close>: \<open>userland/shell/\<close>.
  \<^item> \<open>X86\<close>: the processor, as far as the assembly files use it; \<open>Syscall_Mem\<close>: on which memory the
    kernel's functions depend. \<open>Stubs\<close>: \<open>arch/x86/cpu/isr.s\<close>, \<open>kernel/syscall.s\<close> and the structures they
    build (\<open>include/arch/x86/isr.h\<close>, \<open>include/kernel/syscall.h\<close>); \<open>Isr_Stub\<close>, \<open>Syscall_Stub\<close>: their
    correctness. \<open>User_Stub\<close>: \<open>userland/libc/src/syscall.s\<close>; \<open>Program_End\<close>: \<open>userland/libc/src/entry.s\<close>.
    \<open>Loader\<close>: \<open>arch/x86/boot/loader.s\<close>, \<open>arch/x86/cpu/idt.s\<close>, \<open>arch/x86/cpu/io.s\<close>. \<open>Sample_Module\<close>:
    \<open>modules/program.s\<close>, the program without the C library, with its compare and its jumps.
  \<^item> \<open>Machine_Run\<close>: the running machine, processor and kernel together, once with the gates and stubs
    (\<open>machine_run\<close>) and once with the C functions called directly (\<open>direct_run\<close>); \<open>Startup\<close> and this theory: the
    whole path from the loader to the running user program, and from \<open>kmain\<close> to the answers of one.

  \<^bold>\<open>How the code is modelled.\<close> The static variables of a file are a record, its functions are
  definitions of the same name that take and return the record; integers are words of their
  width, so wrap-around is the code's. The record \<open>kernel\<close> joins the drivers' state, the handler
  table, the user's memory and the trace; the record of \<open>Kmain\<close> adds the tables and the heap. A
  call that may not return (polling a device, waiting with \<open>hlt\<close>, scanning for a NUL) gives an
  \<open>option\<close>, with \<open>None\<close> for not returning; writing behind an array is an error value. Interrupts are
  delivered at explicit points of the code that runs with interrupts enabled, at most one at each:
  before each call of \<open>kmain\<close> after \<open>sti\<close>, at the head of a round of a waiting loop and before its
  \<open>hlt\<close> (\<open>irq_point\<close>), and in \<open>hlt\<close> (\<open>cpu_hlt\<close>). This is coarser than the processor, which may be
  interrupted in every called function; \<open>Kbd_Race\<close> takes \<open>keyboard_getchar\<close> apart and delivers any
  number of interrupts between any two of its statements. In the runs of \<open>Kernel_Run\<close> and
  \<open>Machine_Run\<close> interrupts also come between any two steps of the program. Assembly is a list of
  instructions executed on the registers (\<open>cpu\<close>) and the kernel's state, whose memory holds the stack;
  a call of a C function runs its model on the arguments found on the stack. Straight-line code is
  executed on a list of words and the result carried over to memory (\<open>aexec_sim\<close>).

  \<^bold>\<open>Parameters.\<close> The hardware (\<open>hardware\<close>: what ports answer and which interrupt line is raised,
  both depending on the whole history) is arbitrary. Theorems that need a device to
  respond say so: \<open>transmitter_drains\<close> (the UART gets ready to send after finitely many polls),
  \<open>uart_receiver\<close> (it hands out the bytes waiting in it), \<open>keyboard_drains\<close> (its output buffer runs
  empty), \<open>keyboard_silent\<close> (no key is pressed before \<open>sti\<close>). \<open>typist hw keys\<close> says that
  the machine's interrupts are those of the scancodes \<open>keys\<close>, raised or not at each of the interrupt points
  above, that a halted processor is woken while keys remain, and that the very last key does not fall between the
  reader's test and its \<open>hlt\<close> (the lost wake-up below shows that this cannot be dropped). The \<open>input\<close>
  of the kernel is what waits in the ring buffer followed by what the keys to come stand for; a key
  interrupt moves a character from the second part to the first, and the readers are specified by the
  whole. Addresses the linker chooses are parameters (\<open>layout\<close>,
  \<open>paging_addrs\<close>, \<open>base\<close> of the heap pool) under alignment and separation hypotheses (\<open>addrs_ok\<close>,
  \<open>boot_ready\<close>, \<open>layout_linked\<close>); so are the places where the user program keeps its strings and its
  line buffer. What the compiled C code leaves in scratch registers and in its part of the stack is
  a parameter (\<open>residue\<close>) of which the calling convention is assumed (\<open>cdecl\<close>, \<open>platform_ok\<close>); return
  addresses are parameters.
  Every theorem with hypotheses is accompanied by an instance that satisfies them.

  \<^bold>\<open>Interfaces.\<close> Four locales state what one part promises another, each interpreted on the model:
  \<open>bounded_fifo\<close> (the ring buffer, interpretation \<open>kbd\<close>), \<open>block_set\<close> (the heap's bitmap, \<open>bitmap\<close>),
  \<open>region_allocator\<close> (\<open>kmalloc\<close> and \<open>kfree\<close> for their clients, \<open>kh\<close>), \<open>output_stream\<close> (\<open>sys_write\<close> for
  the C library, \<open>console\<close>).

  \<^bold>\<open>What is shown.\<close>
  \<^item> Boot: the loader enters \<open>kmain\<close> with paging on; \<open>kmain\<close> reaches ring 3, with every table loaded in
    the right order, the controllers programmed, the handlers registered and the heap tested, and loses
    no key typed after \<open>sti\<close>; the assembly routines on the way do what their callers rely on. With the
    sample program as the module, the path is followed on to its answers to the typed lines.
  \<^item> Entries: interrupts are invisible to the interrupted program, \<open>int 0x80\<close> changes its \<open>eax\<close> only, the
    words on the stack have the layout of the C structures, the library's stubs implement the calls
    the library is verified against; runs through gates and stubs and runs that call the C functions
    directly refine each other, with the same registers and the same memory but for the kernel's
    stack, so that the kernel's invariants hold of the machine.
  \<^item> Isolation: the segment, gate and page tables are read by separate definitions of what the
    processor does with them; ring 3 reaches its image and its stack and nothing else, and
    enters the kernel by vector 128 only.
  \<^item> Running: over every sequence of system calls with buffers in the user's half of memory, interrupts
    and user steps the kernel keeps its invariants; every interrupt is acknowledged; a waiting reader
    is woken by a key.
  \<^item> Devices: the screen refines an abstract scrolling terminal within its 4000 bytes; the ring
    buffer is a queue; serial output is complete and in order; the receive interrupt drains
    the UART.
  \<^item> Heap: first fit against an abstract map of chunks, disjointness over every sequence of
    operations whose sizes do not wrap, round trips of \<open>kmalloc\<close> and \<open>kfree\<close>, contents across \<open>krealloc\<close>, statistics.
  \<^item> System calls and user side: \<open>SYS_READ\<close> delivers an edited line inside its buffer, \<open>SYS_WRITE\<close>
    and \<open>printf\<close> put out exactly their text, and a whole session of the shell prints what a
    specification over the typed lines says, at whichever interrupt points the keys arrive; so does a session of the sample
    program, there on the processor and through the entry code of \<open>int 0x80\<close>.
  \<^item> Defects: size arithmetic that wraps in \<open>kmalloc\<close> and \<open>kcalloc\<close>, \<open>tokenize\<close> writing behind \<open>argv\<close>,
    the lost wake-up in \<open>SYS_READ\<close>, the lost key in \<open>keyboard_getchar\<close>, the cut exception message, the
    end of a program that faults for ever.

  \<^bold>\<open>Bounds.\<close> The endless loops of the shell and of the sample program are given by their first \<open>n\<close>
  rounds for every \<open>n\<close> (\<open>prog_steps\<close> takes the number of instructions, and the theorem says that there is
  a number that reaches the loop again);
  \<open>get_run\<close> has fuel 5, the number of statements of \<open>keyboard_getchar\<close>. No other definition is
  bounded.

  \<^bold>\<open>Buffers of system calls.\<close> \<open>do_syscall_in_C\<close> checks no pointer, and \<open>SYS_READ\<close> stores where it is told.
  The static variables of the drivers are records beside \<open>k_mem\<close>, the memory that pointers reach, so what
  the model says of a call with a buffer in the kernel's half (from 0xC0000000) is not what the code
  would do when the buffer covers them. The runs of \<open>Kernel_Run\<close> and \<open>Machine_Run\<close> therefore let
  such a call leave any state behind, and the theorems about runs have the hypothesis that there is none
  (\<open>own_buffers\<close>, \<open>own_traps\<close>).

  \<^bold>\<open>Not modelled.\<close> Instruction encoding and timing; segment limits and page faults of the kernel's own
  accesses (memory is addressed as the kernel sees it, and the kernel's stack, its heap's pool and the
  memory the boot loader filled do not alias); the \<open>hlt\<close> loop behind the call of \<open>kmain\<close>. The
  linker scripts, the Makefile and \<open>docs/example.c\<close>, a sketch that is not built.
  In \<open>Boot\<close>, what the screen shows during boot is left out of the statement, and no byte arrives over
  the serial line. A program in ring 3 is an arbitrary change of its registers and of the lower half of memory.
\<close>

section \<open>From power-on to a running user program\<close>

text \<open>
  C1: The system starts. From the instruction GRUB jumps to, the loader calls \<open>kmain\<close> with the
  Multiboot pointer; \<open>kmain\<close>, on hardware that answers, while a person may type and with a module given,
  sets everything up
  and calls \<open>enter_user_mode\<close>; that routine, from whatever processor state the compiled code calls it
  in (ring 0, its two arguments on the stack), reaches ring 3 at address 0 with the user's stack and
  segments. From there, in every run of the program interleaved with interrupts, exceptions and
  system calls through the assembly stubs, as long as the program gives its calls buffers in its own
  half of the address space (the kernel does not check it), the processor is in ring 3 after each
  entry under the same page directory, the keyboard and serial handlers are registered, the ring buffer
  is well formed, and the loaded tables and the controllers' masks and vectors are those of the boot.
  Interrupts come between any two steps of the program and, in the kernel, at the interrupt points
  of \<open>kmain\<close> and of the loop of \<open>SYS_READ\<close>, not within the functions called there.
\<close>

theorem system_starts:
  assumes "typist hw keys" and "transmitter_drains hw SERIAL_COM1_BASE" and "keyboard_drains hw" and "boot_ready L m"
    and "layout_linked L" and "compiled L res" and "module_given (k_mem (m_k m)) (c_gpr c EBX)"
    and "\<And>x. in_obj (c_gpr c EBX) 24 x \<Longrightarrow> \<not> stack_area (l_kernel_stack L) (l_kernel_stack L + 4096) x"
    and "cpl c1 = 0" and "words_at mem (c_gpr c1 ESP) [ra1, USER_ENTRY_POINT, USER_STACK_TOP]"
  shows "\<exists>s m' mem'. exec E (loader dir hh @ higher_half (l_kernel_stack L) ra) (c, m_k m) = back_at ra (e_call E C_kmain s) \<and>
    kmain L hw (load32 (k_mem (snd s)) (c_gpr (fst s) ESP + 4)) (m\<lparr>m_k := snd s\<rparr>) = Some (Entered_user USER_ENTRY_POINT USER_STACK_TOP, m') \<and>
    (let P = booted_platform L hw res ra2 ra3 m';
         user = (ring3_cpu USER_ENTRY_POINT USER_STACK_TOP c1, (m_k m')\<lparr>k_mem := mem'\<rparr>)
     in exec (kernel_env P) enter_user_mode_code (c1, (m_k m')\<lparr>k_mem := mem\<rparr>) = Some user \<and>
        (\<forall>es s. machine_run P user es s \<and> own_traps es \<longrightarrow> running P user s))"
proof -
  obtain s where s: "exec E (loader dir hh @ higher_half (l_kernel_stack L) ra) (c, m_k m) = back_at ra (e_call E C_kmain s)"
    "kmain_called dir (l_kernel_stack L) ra c (m_k m) s"
    using loader_calls_kmain by blast
  obtain m' where m': "kmain L hw (load32 (k_mem (snd s)) (c_gpr (fst s) ESP + 4)) (m\<lparr>m_k := snd s\<rparr>) = Some (Entered_user 0 0xBFFFFFFB, m')"
    "booted L (m\<lparr>m_k := snd s\<rparr>) m'" "k_tbl (m_k m') 33 = Some Keyboard_interrupt_handler" "k_tbl (m_k m') 36 = Some Serial_interrupt_handler"
    and tables: "m_gdt m' = tss_set_kernel_stack (l_kernel_stack L + 4096) (fst (gdt_init (l_gdt L) (l_tss L) (m_gdt m, [])))"
      "m_idt m' = syscall_init (l_int128 L) (fst (idt_init (l_idt L) (l_isr_stubs L) (m_idt m, [])))"
    and pics: "\<forall>c1 c2. pic_master (k_tr (m_k m')) c1 = master_remapped \<and> pic_slave (k_tr (m_k m')) c2 = slave_remapped"
    using loader_boots [OF assms(1-4,7,8) s(2)] by metis
  let ?P = "booted_platform L hw res ra2 ra3 m'" and ?c = "ring3_cpu USER_ENTRY_POINT USER_STACK_TOP c1"
  note ok = booted_platform_ok [OF assms(5,6,4) tables]
  have g: "outer_seg (e_gdt (kernel_env ?P)) 0x23 = 0x23" using ok(4) by (simp add: kernel_env_def)
  have w: "words_at (k_mem ((m_k m')\<lparr>k_mem := mem\<rparr>)) (c_gpr c1 ESP) [ra1, USER_ENTRY_POINT, USER_STACK_TOP]" using assms(10) by simp
  obtain mem' where up: "exec (kernel_env ?P) enter_user_mode_code (c1, (m_k m')\<lparr>k_mem := mem\<rparr>) = Some (?c, (m_k m')\<lparr>k_mem := mem'\<rparr>)"
    using enter_user_mode_runs [OF assms(9) w g] by auto
  have run: "running ?P (?c, (m_k m')\<lparr>k_mem := mem'\<rparr>) s"
    if "machine_run ?P (?c, (m_k m')\<lparr>k_mem := mem'\<rparr>) es s" "own_traps es" for es s
  proof -
    have "running ?P (?c, (m_k m')\<lparr>k_mem := mem'\<rparr>) (fst s, snd s)"
      by (rule machine_running [OF ok(1-3), where es = es]) (use that m'(2-4) pics in \<open>simp_all add: booted_def\<close>)
    then show ?thesis by simp
  qed
  show ?thesis
    using s(1) m'(1) up run unfolding Let_def USER_ENTRY_POINT_def USER_STACK_TOP_def by blast
qed

text \<open>An instance: the tables of \<open>sample_layout\<close> with 48 different stubs, and a stack on which \<open>kmain\<close> has pushed its arguments.\<close>

definition linked_layout :: layout where
  "linked_layout = sample_layout\<lparr>l_isr_stubs := sample_stubs, l_int128 := 0xC0100100\<rparr>"

definition kmain_mem :: memory where
  "kmain_mem = store32 0xC0120F00 0xC0100777 (store32 0xC0120F04 0 (store32 0xC0120F08 0xBFFFFFFB (\<lambda>_. 0)))"

definition kernel_cpu :: cpu where
  "kernel_cpu = (user_cpu 0xC0100700 0xC0120F00)\<lparr>c_seg := (\<lambda>s. if s = CS then 0x08 else 0x10)\<rparr>"

lemma linked_layout_ok: "boot_ready linked_layout sample_machine" "layout_linked linked_layout" "compiled linked_layout (\<lambda>_. sample_residue)"
proof -
  show "boot_ready linked_layout sample_machine" using sample_ready by (simp add: boot_ready_def linked_layout_def)
  have "length sample_stubs = 48" "distinct (0xC0100100 # sample_stubs)"
    using sample_platform_ok [of "const_hw 0"] by (simp_all add: platform_ok_def sample_platform_def)
  then show "layout_linked linked_layout" by (simp add: layout_linked_def linked_layout_def sample_layout_def KERNEL_VIRTUAL_BASE_def)
  show "compiled linked_layout (\<lambda>_. sample_residue)" by (simp add: compiled_def cdecl_sample)
qed

theorem system_starts_witness:
  "\<exists>m' mem'. exec (kernel_env (booted_platform linked_layout (const_hw 0x20) (\<lambda>_. sample_residue) 0xC01001A0 0xC0100140 m'))
     enter_user_mode_code (kernel_cpu, (m_k m')\<lparr>k_mem := kmain_mem\<rparr>) = Some (ring3_cpu 0 0xBFFFFFFB kernel_cpu, (m_k m')\<lparr>k_mem := mem'\<rparr>)"
proof -
  let ?c = "set_gpr EBX 0x9000 (user_cpu 0x100010 0)"
  have typist_quiet: "typist (const_hw 0x20) []" by (simp add: typist_Nil const_hw_def)
  have k: "keyboard_drains (const_hw 0x20)"
    unfolding keyboard_drains_def by (intro allI exI [of _ 0]) simp
  have b: "module_given (k_mem (m_k sample_machine)) (c_gpr ?c EBX)" using sample_module by simp
  have "in_obj (0x9000 :: u32) 24 x \<Longrightarrow> \<not> stack_area 0xC0120000 0xC0121000 x" for x
    using in_obj_nowrap [of "0x9000" 24 x] stack_area_numerals [of "0xC0120000" "0xC0121000" x] by (fastforce simp: u32_nat)
  then have a: "in_obj (c_gpr ?c EBX) 24 x \<Longrightarrow> \<not> stack_area (l_kernel_stack linked_layout) (l_kernel_stack linked_layout + 4096) x" for x
    by (simp add: linked_layout_def sample_layout_def)
  have r: "cpl kernel_cpu = 0" by (simp add: kernel_cpu_def cpl_def)
  have w: "words_at kmain_mem (c_gpr kernel_cpu ESP) [0xC0100777, USER_ENTRY_POINT, USER_STACK_TOP]"
    by (simp add: words_at_Cons kernel_cpu_def kmain_mem_def USER_ENTRY_POINT_def USER_STACK_TOP_def load32_def store32_def)
  show ?thesis
    using system_starts [OF typist_quiet const_hw_drains k linked_layout_ok b a r w, of "kernel_env (sample_platform (const_hw 0x20))" "0xC0108000" "0xC0100030" "0xC0100040" "0xC01001A0" "0xC0100140"]
    unfolding Let_def USER_ENTRY_POINT_def USER_STACK_TOP_def by blast
qed

section \<open>From power-on to an answer\<close>

text \<open>
  With the user's page directory loaded, the processor sees the frames of the process at the
  addresses below 64 KiB (their translation is part of \<open>protected\<close>). The sample program as GRUB loads it:
  its strings at their places in the module.
\<close>

definition user_memory :: "paging_state \<Rightarrow> memory \<Rightarrow> bool" where
  "user_memory s mem \<longleftrightarrow> (\<forall>x < 65536. mem (word_of_nat x) = user_code_pages s (x div 4096) (x mod 4096))"

definition sample_image :: "memory \<Rightarrow> multiboot_module \<Rightarrow> module_layout \<Rightarrow> bool" where
  "sample_image mem md ML \<longleftrightarrow> module_placed ML \<and> unat (ml_data ML) + length module_data \<le> 65536 \<and>
     unat (ml_data ML) + length module_data \<le> unat (md_end md - md_start md) \<and>
     read_bytes mem (md_start md + ml_data ML) (length module_data) = module_data"

lemma image_loaded:
  assumes "boot_ready L m" "user_memory (module_paging L mb m) mem"
    and "sample_image (k_mem (m_k m)) (given_module (k_mem (m_k m)) mb) ML"
  shows "read_bytes mem (ml_data ML) (length module_data) = module_data"
proof (rule nth_equalityI)
  fix i
  let ?md = "given_module (k_mem (m_k m)) mb" and ?x = "unat (ml_data ML) + i"
  assume "i < length (read_bytes mem (ml_data ML) (length module_data))"
  then have i: "i < length module_data" by simp
  then have x: "?x < 65536" "?x < unat (md_end ?md - md_start ?md)" using assms(3) by (auto simp: sample_image_def)
  have w: "word_of_nat ?x = ml_data ML + word_of_nat i" by simp
  obtain s tr where s: "paging_setup_user_process (l_paging L) (k_mem (m_k m)) (md_start ?md) (md_end ?md - md_start ?md)
      (paging_init (l_paging L) (m_paging m), []) = (s, tr)" by fastforce
  then have "module_paging L mb m = s" by (simp add: module_paging_def Let_def)
  then have "mem (ml_data ML + word_of_nat i) = user_code_pages s (?x div 4096) (?x mod 4096)"
    using assms(2) x(1) w unfolding user_memory_def by metis
  also have "\<dots> = k_mem (m_k m) (md_start ?md + word_of_nat ?x)"
  proof -
    have "paging_shape (paging_init (l_paging L) (m_paging m))" using assms(1) by (auto simp: boot_ready_def intro: paging_init_shape)
    moreover have "?x div 4096 < 16" using x(1) by (simp add: div_less_iff_less_mult)
    ultimately show ?thesis using setup_tables(4) [OF _ s, of "?x div 4096" "?x mod 4096"] x(2) by simp
  qed
  also have "\<dots> = read_bytes (k_mem (m_k m)) (md_start ?md + ml_data ML) (length module_data) ! i"
    using i by (simp add: read_bytes_def add.assoc)
  also have "\<dots> = module_data ! i" using assms(3) by (simp add: sample_image_def)
  finally show "read_bytes mem (ml_data ML) (length module_data) ! i = module_data ! i" using i by (simp add: read_bytes_def)
qed simp

text \<open>
  C2: From the call of \<open>kmain\<close> to the answers of a program. While a person types from the moment
  interrupts are enabled, \<open>kmain\<close> boots with the sample program as its module, and its last call reaches
  ring 3 from whatever state the compiled code makes it in; there the program, executed on the
  processor with the kernel's entry code below it, comes back to its loop after \<open>n\<close> lines. The
  serial line shows, from its initialisation on, exactly the boot messages, the program's banner, and
  the prompt, the echo and the answer for each of the \<open>n\<close> lines that the keys stand for; no key is lost,
  those typed during the boot included. A key is taken at the interrupt points of the model: before
  a call of \<open>kmain\<close>, and in the loop of \<open>SYS_READ\<close>, at most one at each.
\<close>

theorem system_answers:
  assumes "typist hw keys" and "transmitter_drains hw SERIAL_COM1_BASE" and "keyboard_drains hw" and "keyboard_silent hw"
    and "boot_ready L m" and "layout_linked L" and "compiled L res" and "module_given (k_mem (m_k m)) mb"
    and "sample_image (k_mem (m_k m)) (given_module (k_mem (m_k m)) mb) ML"
    and "cpl c1 = 0" and "words_at mem (c_gpr c1 ESP) [ra1, USER_ENTRY_POINT, USER_STACK_TOP]"
    and "user_memory (module_paging L mb m) mem" and "KERNEL_VIRTUAL_BASE + 64 \<le> c_gpr c1 ESP" and "c_gpr c1 ESP \<le> 0xFFFFFFF0"
    and "module_session n (typed_text keys m) = Some (scr, ser, rest)"
  shows "\<exists>m' mem' t c' k'. kmain L hw mb m = Some (Entered_user USER_ENTRY_POINT USER_STACK_TOP, m') \<and>
    (let P = booted_platform L hw res ra2 ra3 m';
         user = (ring3_cpu USER_ENTRY_POINT USER_STACK_TOP c1, (m_k m')\<lparr>k_mem := mem'\<rparr>)
     in exec (kernel_env P) enter_user_mode_code (c1, (m_k m')\<lparr>k_mem := mem\<rparr>) = Some user \<and>
        prog_steps (user_env P) (program_s ML) t (0, user) = Some (user_loop, (c', k')) \<and> ring3 P c') \<and>
    com1 k' = com1 (m_k m) @ [1] @ serial_greeting @ stats_text 5 @ stats_text 0 @ user_message @ msg_banner @ ser \<and>
    input keys k' = rest"
proof -
  obtain m' where m': "kmain L hw mb m = Some (Entered_user 0 0xBFFFFFFB, m')" "booted L m m'" "listening keys (m_k m')"
    "input keys (m_k m') = typed_text keys m" "m_paging m' = module_paging L mb m"
    and tables: "m_gdt m' = tss_set_kernel_stack (l_kernel_stack L + 4096) (fst (gdt_init (l_gdt L) (l_tss L) (m_gdt m, [])))"
      "m_idt m' = syscall_init (l_int128 L) (fst (idt_init (l_idt L) (l_isr_stubs L) (m_idt m, [])))"
    using kmain_up [OF assms(1-3,5,8)] assms(4) by blast
  let ?P = "booted_platform L hw res ra2 ra3 m'" and ?c = "ring3_cpu USER_ENTRY_POINT USER_STACK_TOP c1"
  note ok = booted_platform_ok [OF assms(6,7,5) tables]
  have g: "outer_seg (e_gdt (kernel_env ?P)) 0x23 = 0x23" using ok(4) by (simp add: kernel_env_def)
  have w: "words_at (k_mem ((m_k m')\<lparr>k_mem := mem\<rparr>)) (c_gpr c1 ESP) [ra1, USER_ENTRY_POINT, USER_STACK_TOP]" using assms(11) by simp
  obtain mem' where up: "exec (kernel_env ?P) enter_user_mode_code (c1, (m_k m')\<lparr>k_mem := mem\<rparr>) = Some (?c, (m_k m')\<lparr>k_mem := mem'\<rparr>)"
    "agrees (c_gpr c1 ESP - 64) (c_gpr c1 ESP + 12) mem mem'"
    using enter_user_mode_runs [OF assms(10) w g] by auto
  have placed: "module_placed ML" using assms(9) by (simp add: sample_image_def)
  have "mem' x = mem x" if "x < KERNEL_VIRTUAL_BASE" for x
    using kernel_push_above [OF assms(13,14) that] up(2) by (auto simp: agrees_def)
  then have "read_bytes mem' (ml_data ML) (length module_data) = read_bytes mem (ml_data ML) (length module_data)"
    using module_data_below [OF placed] by (simp add: read_bytes_def)
  then have st: "module_state ?P keys ML (?c, (m_k m')\<lparr>k_mem := mem'\<rparr>)"
    using ok(3) m'(3) image_loaded [OF assms(5,12,9)] by (simp add: module_state_def)
  have pl: "module_platform ?P keys" using ok(1,2) assms(1,2) by (simp add: module_platform_def)
  obtain t c' k' where run: "prog_steps (user_env ?P) (program_s ML) t (0, (?c, (m_k m')\<lparr>k_mem := mem'\<rparr>)) = Some (user_loop, (c', k'))"
    "ring3 ?P c'" "com1 k' = com1 ((m_k m')\<lparr>k_mem := mem'\<rparr>) @ msg_banner @ ser" "input keys k' = rest"
    using module_session_runs [OF pl placed st, of n scr ser rest] m'(4) assms(15) by auto
  have "com1 ((m_k m')\<lparr>k_mem := mem'\<rparr>) = com1 (m_k m) @ [1] @ serial_greeting @ stats_text 5 @ stats_text 0 @ user_message"
    using m'(2) by (simp add: booted_def com1_def)
  with run m'(1) up(1) show ?thesis
    unfolding Let_def USER_ENTRY_POINT_def USER_STACK_TOP_def by (intro exI conjI) (assumption | simp)+
qed

text \<open>An instance: the sample program at 0x200000, and the keys H, I, Enter, Enter.\<close>

definition module_mem :: memory where
  "module_mem = put_bytes 0x200200 module_data sample_mem"

definition module_machine :: machine where
  "module_machine = sample_machine\<lparr>m_k := kernel_up\<lparr>k_mem := module_mem\<rparr>\<rparr>"

definition program_mem :: memory where
  "program_mem = (\<lambda>x. if unat x < 65536
     then user_code_pages (module_paging linked_layout 0x9000 module_machine) (unat x div 4096) (unat x mod 4096) else kmain_mem x)"

lemma module_mem_low: "x < 0x200200 \<Longrightarrow> module_mem x = sample_mem x"
  using in_obj_nowrap [of "0x200200" "length module_data" x] by (auto simp: module_mem_def put_bytes_def length_module_data u32_nat)

lemma module_machine_given: "module_given (k_mem (m_k module_machine)) 0x9000"
  "given_module (k_mem (m_k module_machine)) 0x9000 = \<lparr>md_start = 0x200000, md_end = 0x201388, md_string = 0, md_reserved = 0\<rparr>"
  by (simp_all add: module_given_def given_module_def multiboot_info_at_def multiboot_module_at_def MULTIBOOT_INFO_MODS_def
      module_machine_def load32_def module_mem_low sample_mem_def store32_def)

lemma module_machine_image: "sample_image (k_mem (m_k module_machine)) (given_module (k_mem (m_k module_machine)) 0x9000) module_at_bottom"
  unfolding module_machine_given(2)
  using read_put_bytes [of module_data "0x200200" sample_mem]
  by (simp add: sample_image_def module_placed_def module_at_bottom_def length_module_data KERNEL_VIRTUAL_BASE_def module_machine_def
      module_mem_def)

lemma program_mem_words: "words_at program_mem 0xC0120F00 [0xC0100777, USER_ENTRY_POINT, USER_STACK_TOP]"
  "user_memory (module_paging linked_layout 0x9000 module_machine) program_mem"
proof -
  show "words_at program_mem 0xC0120F00 [0xC0100777, USER_ENTRY_POINT, USER_STACK_TOP]"
    by (simp add: words_at_Cons program_mem_def kmain_mem_def USER_ENTRY_POINT_def USER_STACK_TOP_def load32_def store32_def)
  show "user_memory (module_paging linked_layout 0x9000 module_machine) program_mem"
    by (simp add: user_memory_def program_mem_def unat_of_nat_u32)
qed

theorem system_answers_witness:
  "\<exists>m' user t c' k'. kmain linked_layout (typist_hw module_keys) 0x9000 module_machine = Some (Entered_user USER_ENTRY_POINT USER_STACK_TOP, m') \<and>
     prog_steps (user_env (booted_platform linked_layout (typist_hw module_keys) (\<lambda>_. sample_residue) 0xC01001A0 0xC0100140 m'))
       (program_s module_at_bottom) t (0, user) = Some (user_loop, (c', k')) \<and>
     com1 k' = [1] @ serial_greeting @ stats_text 5 @ stats_text 0 @ user_message @ msg_banner @
       module_prompt @ [104, 105, 13, 10] @ (msg_recv @ [104, 105] @ msg_end) @ module_prompt @ [13, 10]"
proof -
  have ready: "boot_ready linked_layout module_machine"
    using linked_layout_ok(1) by (simp add: boot_ready_def module_machine_def sample_machine_def)
  have cpu: "cpl kernel_cpu = 0" "c_gpr kernel_cpu ESP = 0xC0120F00" by (simp_all add: kernel_cpu_def cpl_def)
  have "typed_text module_keys module_machine = [104, 105, 10, 10]"
    using module_keys_text by (simp add: typed_text_def module_machine_def keys_left_def kbd_bss_def)
  note s = module_keys_session [folded this]
  have c: "com1 (m_k module_machine) = []" by (simp add: module_machine_def com1_def)
  have "KERNEL_VIRTUAL_BASE + 64 \<le> c_gpr kernel_cpu ESP" "c_gpr kernel_cpu ESP \<le> 0xFFFFFFF0" by (simp_all add: cpu KERNEL_VIRTUAL_BASE_def)
  note a = system_answers [OF typist_typist_hw typist_hw_drains typist_hw_keyboard ready linked_layout_ok(2,3) module_machine_given(1)
      module_machine_image cpu(1) program_mem_words(1) [folded cpu(2)] program_mem_words(2) this s]
  show ?thesis using a [of "0xC01001A0" "0xC0100140"] unfolding c Let_def append_Nil by blast
qed

end
